(* ===== verification/Prelude.thy ===== *)
theory Prelude
  imports Main "HOL-Library.Word" "HOL-Library.AList" "HOL-Library.Sublist"
    "HOL-Library.Char_ord" "HOL-Library.List_Lexorder" "HOL-Library.Code_Target_Nat"
begin

text \<open>
  Shared vocabulary of the development.

  Rust strings are modelled as HOL \<open>string\<close>s (lists of bytes).  Every string the modelled code
  inspects is a DNS name, an address literal, a record mnemonic or a host label, all of them
  ASCII; on ASCII text Rust's \<open>to_lowercase\<close>, \<open>to_uppercase\<close> and their \<open>to_ascii_*\<close> variants
  coincide, and \<open>chars\<close> and \<open>bytes\<close> enumerate the same list.

  The theory holds the standard-library string operations the source calls (case folding,
  \<open>trim_end_matches\<close>, \<open>split\<close>, \<open>strip_prefix\<close>, decimal printing and parsing), the view of a dotted
  name as a list of labels, and generic lemmas on lists and association lists.  The association
  list is the model of a \<open>DashMap\<close>: \<open>map_of\<close> is \<open>get\<close>, \<open>AList.update\<close> is \<open>insert\<close>, \<open>AList.delete\<close>
  is \<open>remove\<close> and a filter on the entries is \<open>retain\<close>.
\<close>

named_theorems str_simps \<open>evaluation of the string operations\<close>
named_theorems label_simps \<open>dotted names against label lists\<close>

type_synonym u8 = "8 word"
type_synonym u16 = "16 word"
type_synonym u32 = "32 word"
type_synonym u64 = "64 word"
type_synonym ipv4 = "32 word"
type_synonym ipv6 = "128 word"
type_synonym label = string
type_synonym ('k, 'v) table = "('k \<times> 'v) list"

abbreviation dot :: char where "dot \<equiv> CHR ''.''"

section \<open>Characters and case\<close>

definition lower_char :: "char \<Rightarrow> char" where
  "lower_char c =
     (if 65 \<le> (of_char c :: nat) \<and> (of_char c :: nat) \<le> 90
      then char_of ((of_char c :: nat) + 32) else c)"

definition upper_char :: "char \<Rightarrow> char" where
  "upper_char c =
     (if 97 \<le> (of_char c :: nat) \<and> (of_char c :: nat) \<le> 122
      then char_of ((of_char c :: nat) - 32) else c)"

definition lower :: "string \<Rightarrow> string" where
  "lower s = map lower_char s"

definition upper :: "string \<Rightarrow> string" where
  "upper s = map upper_char s"

definition is_digit :: "char \<Rightarrow> bool" where
  "is_digit c \<longleftrightarrow> 48 \<le> (of_char c :: nat) \<and> (of_char c :: nat) \<le> 57"

definition is_alpha :: "char \<Rightarrow> bool" where
  "is_alpha c \<longleftrightarrow>
     65 \<le> (of_char c :: nat) \<and> (of_char c :: nat) \<le> 90
     \<or> 97 \<le> (of_char c :: nat) \<and> (of_char c :: nat) \<le> 122"

definition is_alnum :: "char \<Rightarrow> bool" where
  "is_alnum c \<longleftrightarrow> is_alpha c \<or> is_digit c"

text \<open>ASCII white space in the sense of \<open>char::is_whitespace\<close>: tab to carriage return, and space.\<close>

definition is_ws :: "char \<Rightarrow> bool" where
  "is_ws c \<longleftrightarrow> 9 \<le> (of_char c :: nat) \<and> (of_char c :: nat) \<le> 13 \<or> (of_char c :: nat) = 32"

lemma of_char_lt_256: "(of_char c :: nat) < 256"
  by (cases c) (simp add: of_char_def)

lemma of_char_lower_char:
  "(of_char (lower_char c) :: nat) =
     (if 65 \<le> (of_char c :: nat) \<and> (of_char c :: nat) \<le> 90 then of_char c + 32 else of_char c)"
  by (simp add: lower_char_def)

text \<open>The same on the bits of a character, so that literals evaluate.\<close>

lemma lower_char_bits [simp, code]:
  "lower_char (Char b0 b1 b2 b3 b4 b5 b6 b7) =
     Char b0 b1 b2 b3 b4
       (b5 \<or> (b6 \<and> \<not> b7 \<and> (b0 \<or> b1 \<or> b2 \<or> b3 \<or> b4)
         \<and> \<not> (b4 \<and> b3 \<and> (b2 \<or> b1 \<and> b0)))) b6 b7"
  (is "?l = ?r")
proof -
  have "(of_char ?l :: nat) = of_char ?r"
    unfolding of_char_lower_char
    by (cases b0; cases b1; cases b2; cases b3; cases b4; cases b5; cases b6; cases b7; simp)
  then show ?thesis by (simp only: of_char_eq_iff)
qed

lemma lower_char_idem [simp]: "lower_char (lower_char c) = lower_char c"
  by (simp add: lower_char_def)

lemma lower_char_inj_dot [simp]: "lower_char c = dot \<longleftrightarrow> c = dot"
proof -
  have "lower_char c = dot \<longleftrightarrow> (of_char (lower_char c) :: nat) = of_char dot"
    by (simp only: of_char_eq_iff)
  also have "\<dots> \<longleftrightarrow> (of_char c :: nat) = of_char dot"
    unfolding of_char_lower_char by simp
  also have "\<dots> \<longleftrightarrow> c = dot"
    by (simp only: of_char_eq_iff)
  finally show ?thesis .
qed

lemma dot_eq_lower_char [simp]: "dot = lower_char c \<longleftrightarrow> c = dot"
  using lower_char_inj_dot [of c] by metis

lemma lower_idem [simp]: "lower (lower s) = lower s"
  by (simp add: lower_def)

lemma lower_comp [simp]: "lower \<circ> lower = lower"
  by (simp add: fun_eq_iff)

lemma lower_Nil [simp]: "lower [] = []"
  by (simp add: lower_def)

lemma lower_Cons [simp]: "lower (c # s) = lower_char c # lower s"
  by (simp add: lower_def)

lemma lower_append [simp]: "lower (s @ t) = lower s @ lower t"
  by (simp add: lower_def)

lemma lower_eq_Nil [simp]: "lower s = [] \<longleftrightarrow> s = []"
  by (simp add: lower_def)

lemma dot_in_lower [simp]: "dot \<in> set (lower s) \<longleftrightarrow> dot \<in> set s"
  by (auto simp: lower_def image_iff)

lemma length_lower [simp]: "length (lower s) = length s"
  by (simp add: lower_def)

section \<open>Trimming and splitting\<close>

text \<open>\<open>s.trim_end_matches('.')\<close>.\<close>

definition trim_end_dots :: "string \<Rightarrow> string" where
  "trim_end_dots s = rev (dropWhile (\<lambda>c. c = dot) (rev s))"

text \<open>\<open>s.trim()\<close>.\<close>

definition trim :: "string \<Rightarrow> string" where
  "trim s = rev (dropWhile is_ws (rev (dropWhile is_ws s)))"

text \<open>\<open>s.split(c)\<close>: always at least one field, empty fields kept.\<close>

fun split_on :: "char \<Rightarrow> string \<Rightarrow> string list" where
  "split_on c [] = [[]]"
| "split_on c (x # xs) =
     (if x = c then [] # split_on c xs
      else (case split_on c xs of [] \<Rightarrow> [[x]] | f # fs \<Rightarrow> (x # f) # fs))"

text \<open>\<open>fields.join(sep)\<close>.\<close>

fun join_with :: "string \<Rightarrow> string list \<Rightarrow> string" where
  "join_with sep [] = []"
| "join_with sep [f] = f"
| "join_with sep (f # g # fs) = f @ sep @ join_with sep (g # fs)"

text \<open>\<open>s.split_once(c)\<close>.\<close>

fun split_once :: "char \<Rightarrow> string \<Rightarrow> (string \<times> string) option" where
  "split_once c [] = None"
| "split_once c (x # xs) =
     (if x = c then Some ([], xs)
      else map_option (\<lambda>(a, b). (x # a, b)) (split_once c xs))"

text \<open>\<open>s.split_whitespace()\<close>: the maximal runs of non-white characters.\<close>

fun split_ws_aux :: "string \<Rightarrow> string \<Rightarrow> string list" where
  "split_ws_aux acc [] = (if acc = [] then [] else [rev acc])"
| "split_ws_aux acc (x # xs) =
     (if is_ws x then (if acc = [] then split_ws_aux [] xs else rev acc # split_ws_aux [] xs)
      else split_ws_aux (x # acc) xs)"

definition split_ws :: "string \<Rightarrow> string list" where
  "split_ws s = split_ws_aux [] s"

definition strip_prefix :: "string \<Rightarrow> string \<Rightarrow> string option" where
  "strip_prefix p s = (if prefix p s then Some (drop (length p) s) else None)"

definition strip_suffix :: "string \<Rightarrow> string \<Rightarrow> string option" where
  "strip_suffix p s = (if suffix p s then Some (take (length s - length p) s) else None)"

definition starts_with :: "string \<Rightarrow> string \<Rightarrow> bool" where
  "starts_with s p = prefix p s"

definition ends_with :: "string \<Rightarrow> string \<Rightarrow> bool" where
  "ends_with s p = suffix p s"

lemma split_on_neq_Nil [simp]: "split_on c s \<noteq> []"
  by (cases s) (auto split: list.splits)

lemma split_on_no_sep: "c \<notin> set s \<Longrightarrow> split_on c s = [s]"
  by (induction s) auto

lemma split_on_append: "c \<notin> set s \<Longrightarrow> split_on c (s @ c # t) = s # split_on c t"
  by (induction s) auto

lemma split_on_sep_free: "l \<in> set (split_on c s) \<Longrightarrow> c \<notin> set l"
  by (induction s arbitrary: l) (fastforce split: if_splits list.splits)+

lemma join_split_on: "join_with [c] (split_on c s) = s"
proof (induction s)
  case Nil
  then show ?case by simp
next
  case (Cons x xs)
  obtain f fs where f: "split_on c xs = f # fs"
    by (cases "split_on c xs") auto
  show ?case
    using Cons.IH by (cases fs) (auto simp: f)
qed

lemma split_join_with:
  "fs \<noteq> [] \<Longrightarrow> \<forall>f\<in>set fs. c \<notin> set f \<Longrightarrow> split_on c (join_with [c] fs) = fs"
proof (induction fs)
  case Nil
  then show ?case by simp
next
  case (Cons f fs)
  then show ?case
    by (cases fs) (auto simp: split_on_no_sep split_on_append)
qed

lemma trim_end_dots_Nil [simp]: "trim_end_dots [] = []"
  by (simp add: trim_end_dots_def)

lemma trim_end_dots_snoc [simp]:
  "trim_end_dots (s @ [c]) = (if c = dot then trim_end_dots s else s @ [c])"
  by (simp add: trim_end_dots_def)

lemma trim_end_dots_id: "s = [] \<or> last s \<noteq> dot \<Longrightarrow> trim_end_dots s = s"
  by (cases s rule: rev_cases) auto

lemma trim_end_dots_last: "trim_end_dots s = [] \<or> last (trim_end_dots s) \<noteq> dot"
  by (induction s rule: rev_induct) auto

section \<open>Names as label lists\<close>

text \<open>
  A fully qualified name writes a dot after every label.  The abstract view of a name is its
  list of labels, most specific first.
\<close>

definition fqdn :: "label list \<Rightarrow> string" where
  "fqdn ls = concat (map (\<lambda>l. l @ [dot]) ls)"

definition name_labels :: "string \<Rightarrow> label list" where
  "name_labels n = split_on dot (trim_end_dots n)"

definition wf_labels :: "label list \<Rightarrow> bool" where
  "wf_labels ls \<longleftrightarrow> ls \<noteq> [] \<and> (\<forall>l\<in>set ls. l \<noteq> [] \<and> dot \<notin> set l)"

lemma fqdn_Nil [simp]: "fqdn [] = []"
  by (simp add: fqdn_def)

lemma fqdn_Cons [simp]: "fqdn (l # ls) = l @ dot # fqdn ls"
  by (simp add: fqdn_def)

lemma fqdn_append [label_simps]: "fqdn (xs @ ys) = fqdn xs @ fqdn ys"
  by (simp add: fqdn_def)

lemma fqdn_eq_Nil [simp]: "fqdn ls = [] \<longleftrightarrow> ls = []"
  by (cases ls) auto

lemma last_fqdn [simp]: "ls \<noteq> [] \<Longrightarrow> last (fqdn ls) = dot"
  by (cases ls rule: rev_cases) (auto simp: fqdn_append)

lemma lower_fqdn [label_simps]: "lower (fqdn ls) = fqdn (map lower ls)"
  by (induction ls) (auto simp: lower_char_def)

lemma fqdn_join: "ls \<noteq> [] \<Longrightarrow> fqdn ls = join_with [dot] ls @ [dot]"
  by (induction ls rule: induct_list012) auto

lemma wf_labels_Cons [label_simps]:
  "wf_labels (l # ls) \<longleftrightarrow> l \<noteq> [] \<and> dot \<notin> set l \<and> (ls = [] \<or> wf_labels ls)"
  by (auto simp: wf_labels_def)

lemma wf_labels_lower [simp]: "wf_labels (map lower ls) \<longleftrightarrow> wf_labels ls"
  by (auto simp: wf_labels_def)

lemma wf_labels_suffix: "wf_labels ls \<Longrightarrow> suffix ms ls \<Longrightarrow> ms \<noteq> [] \<Longrightarrow> wf_labels ms"
  by (auto simp: wf_labels_def suffix_def)

lemma join_last_not_dot: "wf_labels ls \<Longrightarrow> join_with [dot] ls \<noteq> [] \<and> last (join_with [dot] ls) \<noteq> dot"
  by (induction ls rule: induct_list012) (auto simp: wf_labels_def dest: last_in_set)

lemma trim_fqdn [label_simps]: "wf_labels ls \<Longrightarrow> trim_end_dots (fqdn ls) = join_with [dot] ls"
  using join_last_not_dot [of ls]
  by (auto simp: fqdn_join trim_end_dots_id wf_labels_def)

lemma name_labels_fqdn [label_simps]: "wf_labels ls \<Longrightarrow> name_labels (fqdn ls) = ls"
  by (simp add: name_labels_def trim_fqdn) (auto simp: split_join_with wf_labels_def)

lemma append_sep_eq:
  "c \<notin> set xs \<Longrightarrow> c \<notin> set ys \<Longrightarrow> xs @ c # s = ys @ c # t \<longleftrightarrow> xs = ys \<and> s = t"
proof (induction xs arbitrary: ys)
  case Nil
  then show ?case by (cases ys) auto
next
  case (Cons x xs)
  then show ?case by (cases ys) auto
qed

lemma fqdn_inject [label_simps]:
  "\<forall>l\<in>set xs. dot \<notin> set l \<Longrightarrow> \<forall>l\<in>set ys. dot \<notin> set l \<Longrightarrow> fqdn xs = fqdn ys \<longleftrightarrow> xs = ys"
proof (induction xs arbitrary: ys)
  case Nil
  then show ?case by (cases ys) auto
next
  case (Cons x xs)
  then show ?case by (cases ys) (auto simp: append_sep_eq)
qed

lemma suffix_dot_append:
  assumes "c \<notin> set xs"
  shows "suffix (c # s) (xs @ c # t) \<longleftrightarrow> s = t \<or> suffix (c # s) t"
proof
  assume "suffix (c # s) (xs @ c # t)"
  then obtain p where p: "xs @ c # t = p @ c # s"
    by (auto simp: suffix_def)
  show "s = t \<or> suffix (c # s) t"
  proof (cases "c \<in> set p")
    case False
    with p assms show ?thesis by (auto simp: append_sep_eq)
  next
    case True
    then obtain q r where q: "p = q @ c # r" "c \<notin> set q"
      by (auto dest: split_list_first)
    with p assms have "t = r @ c # s"
      by (auto simp: append_sep_eq)
    then show ?thesis by (auto simp: suffix_def)
  qed
next
  assume "s = t \<or> suffix (c # s) t"
  then show "suffix (c # s) (xs @ c # t)"
  proof
    assume "s = t"
    then show ?thesis by (auto simp: suffix_def)
  next
    assume "suffix (c # s) t"
    then obtain r where "t = r @ c # s" by (auto simp: suffix_def)
    then have "xs @ c # t = (xs @ c # r) @ c # s" by simp
    then show ?thesis unfolding suffix_def by blast
  qed
qed

text \<open>
  A textual suffix test that starts at a dot is a suffix test on labels.  This is the fact that
  every label-boundary comparison of the source relies on.
\<close>

lemma suffix_fqdn_strict [label_simps]:
  assumes "\<forall>l\<in>set xs. dot \<notin> set l" "\<forall>l\<in>set zs. dot \<notin> set l"
  shows "suffix (dot # fqdn zs) (fqdn xs) \<longleftrightarrow> strict_suffix zs xs"
  using assms(1)
proof (induction xs)
  case Nil
  then show ?case by (auto simp: strict_suffix_def)
next
  case (Cons x xs)
  have "suffix (dot # fqdn zs) (fqdn (x # xs)) \<longleftrightarrow> zs = xs \<or> suffix (dot # fqdn zs) (fqdn xs)"
    using Cons.prems assms(2) by (simp add: suffix_dot_append fqdn_inject)
  also have "\<dots> \<longleftrightarrow> zs = xs \<or> strict_suffix zs xs"
    using Cons by auto
  also have "\<dots> \<longleftrightarrow> strict_suffix zs (x # xs)"
    by (auto simp: strict_suffix_def suffix_Cons dest: suffix_length_le)
  finally show ?case .
qed

section \<open>Decimal numbers\<close>

fun show_nat :: "nat \<Rightarrow> string" where
  "show_nat n =
     (if n < 10 then [char_of (48 + n)] else show_nat (n div 10) @ [char_of (48 + n mod 10)])"

declare show_nat.simps [simp del]

definition digit_val :: "char \<Rightarrow> nat option" where
  "digit_val c = (if is_digit c then Some (of_char c - 48) else None)"

fun parse_digits :: "nat \<Rightarrow> string \<Rightarrow> nat option" where
  "parse_digits acc [] = Some acc"
| "parse_digits acc (c # cs) =
     (case digit_val c of None \<Rightarrow> None | Some d \<Rightarrow> parse_digits (acc * 10 + d) cs)"

text \<open>
  \<open>s.parse::<uN>()\<close> for an unsigned type whose largest value is \<open>m\<close>: an optional plus sign, at
  least one digit, digits only, no overflow.
\<close>

definition parse_uint :: "nat \<Rightarrow> string \<Rightarrow> nat option" where
  "parse_uint m s =
     (let ds = (case s of [] \<Rightarrow> [] | c # cs \<Rightarrow> if c = CHR ''+'' then cs else s)
      in if ds = [] then None
         else (case parse_digits 0 ds of
                 None \<Rightarrow> None
               | Some n \<Rightarrow> if n \<le> m then Some n else None))"

lemma digit_val_char_of [simp]: "d < 10 \<Longrightarrow> digit_val (char_of (48 + d)) = Some d"
  by (simp add: digit_val_def is_digit_def)

lemma parse_digits_append:
  "parse_digits acc (s @ t) = (case parse_digits acc s of None \<Rightarrow> None | Some n \<Rightarrow> parse_digits n t)"
  by (induction acc s rule: parse_digits.induct) (auto split: option.splits)

lemma parse_show_nat: "parse_digits 0 (show_nat n) = Some n"
proof (induction n rule: show_nat.induct)
  case (1 n)
  show ?case
  proof (cases "n < 10")
    case True
    then show ?thesis by (simp add: show_nat.simps [of n])
  next
    case False
    then show ?thesis
      using 1 by (simp add: show_nat.simps [of n] parse_digits_append)
  qed
qed

lemma show_nat_digits: "c \<in> set (show_nat n) \<Longrightarrow> is_digit c"
proof (induction n rule: show_nat.induct)
  case (1 n)
  then show ?case
    by (auto simp: show_nat.simps [of n] is_digit_def split: if_splits)
qed

lemma show_nat_neq_Nil [simp]: "show_nat n \<noteq> []"
  by (simp add: show_nat.simps [of n])

lemma show_nat_inject: "show_nat m = show_nat n \<longleftrightarrow> m = n"
  by (metis option.inject parse_show_nat)

lemma show_nat_no_dot: "dot \<notin> set (show_nat n)"
  using show_nat_digits [of dot n] by (auto simp: is_digit_def)

section \<open>Lists and tables\<close>

lemma find_Some_take:
  "find P xs = Some x \<longleftrightarrow> (\<exists>ys zs. xs = ys @ x # zs \<and> P x \<and> (\<forall>y\<in>set ys. \<not> P y))"
proof (induction xs)
  case Nil
  then show ?case by simp
next
  case (Cons a xs)
  then show ?case
    by (auto simp: Cons_eq_append_conv) (metis set_ConsD)
qed

definition keys :: "('k, 'v) table \<Rightarrow> 'k set" where
  "keys m = fst ` set m"

definition wf_table :: "('k, 'v) table \<Rightarrow> bool" where
  "wf_table m \<longleftrightarrow> distinct (map fst m)"

text \<open>\<open>retain\<close> on a table.\<close>

definition retain :: "('k \<Rightarrow> 'v \<Rightarrow> bool) \<Rightarrow> ('k, 'v) table \<Rightarrow> ('k, 'v) table" where
  "retain P m = filter (\<lambda>(k, v). P k v) m"

lemma wf_table_Nil [simp]: "wf_table []"
  by (simp add: wf_table_def)

lemma wf_table_update [simp]: "wf_table m \<Longrightarrow> wf_table (AList.update k v m)"
  by (simp add: wf_table_def distinct_update)

lemma wf_table_delete [simp]: "wf_table m \<Longrightarrow> wf_table (AList.delete k m)"
  by (simp add: wf_table_def distinct_delete)

lemma wf_table_retain [simp]: "wf_table m \<Longrightarrow> wf_table (retain P m)"
  by (auto simp: wf_table_def retain_def intro: distinct_map_filter)

lemma map_of_retain:
  "wf_table m \<Longrightarrow>
     map_of (retain P m) k = (case map_of m k of Some v \<Rightarrow> if P k v then Some v else None | None \<Rightarrow> None)"
  by (induction m)
    (auto simp: retain_def wf_table_def map_of_eq_None_iff split: option.splits if_splits
       dest: map_of_SomeD)

lemma map_of_update [simp]: "map_of (AList.update k v m) = (map_of m)(k \<mapsto> v)"
  by (simp add: update_conv')

lemma map_of_delete [simp]: "map_of (AList.delete k m) = (map_of m)(k := None)"
  by (simp add: delete_conv')

lemma length_update:
  "length (AList.update k v m) = (if k \<in> fst ` set m then length m else Suc (length m))"
  by (induction m) auto

lemma length_delete_le: "length (AList.delete k m) \<le> length m"
  by (induction m) auto

lemma length_delete_less: "k \<in> fst ` set m \<Longrightarrow> length (AList.delete k m) < length m"
proof (induction m)
  case Nil
  then show ?case by simp
next
  case (Cons a m)
  then show ?case
    using length_delete_le [of k m] by (cases a) auto
qed

lemma length_retain_le: "length (retain P m) \<le> length m"
  by (simp add: retain_def)

text \<open>Rows of a table with a unique column \<open>f\<close>.\<close>

lemma find_unique_key:
  "distinct (map f xs) \<Longrightarrow> x \<in> set xs \<Longrightarrow> f x = k \<Longrightarrow> find (\<lambda>y. f y = k) xs = Some x"
  by (induction xs) auto

lemma length_filter_key: "distinct (map f xs) \<Longrightarrow> length (filter (\<lambda>x. f x = k) xs) \<le> 1"
proof (induction xs)
  case (Cons x xs)
  then have "f x = k \<Longrightarrow> filter (\<lambda>y. f y = k) xs = []"
    by (auto simp: filter_empty_conv image_iff)
  with Cons show ?case by auto
qed simp

section \<open>Stable sorting\<close>

lemma insort_key_map: "insort_key f (g x) (map g xs) = map g (insort_key (\<lambda>x. f (g x)) x xs)"
  by (induction xs) simp_all

lemma sort_key_map: "sort_key f (map g xs) = map g (sort_key (\<lambda>x. f (g x)) xs)"
  by (induction xs) (simp_all add: insort_key_map)

lemma insort_key_cong: "\<forall>y\<in>insert x (set xs). f y = g y \<Longrightarrow> insort_key f x xs = insort_key g x xs"
  by (induction xs) auto

lemma sort_key_cong: "\<forall>x\<in>set xs. f x = g x \<Longrightarrow> sort_key f xs = sort_key g xs"
  by (induction xs) (auto intro: insort_key_cong)

end
