(* ===== verification/Names.thy ===== *)
theory Names
  imports Prelude
begin

text \<open>
  Domain names, from the free functions at the end of \<open>src/src/db.rs\<close> and the reverse-name parser
  of \<open>src/src/dns_server.rs\<close>: normalisation, zone containment, the walk over a name's ancestors
  that every zone cache lookup performs, wildcard owners, the managed-zone heuristic, reverse
  names and the escaping of SQL \<open>LIKE\<close> patterns.  The lemmas relate each of them to the label
  list of a name.
\<close>

section \<open>Normalisation and containment\<close>

definition normalize_name :: "string \<Rightarrow> string" where
  "normalize_name name =
     (let low = lower name in if ends_with low [dot] then low else low @ [dot])"

definition name_in_zone :: "string \<Rightarrow> string \<Rightarrow> bool" where
  "name_in_zone nm zn =
     (let n = normalize_name nm; z = normalize_name zn
      in if n = z then True
         else if z = [dot] then True
         else ends_with n ([dot] @ z))"

lemma suffix_singleton: "suffix [c] s \<longleftrightarrow> s \<noteq> [] \<and> last s = c"
  by (cases s rule: rev_cases) (auto simp: suffix_def)

lemma normalize_name_fqdn [label_simps]:
  "ls \<noteq> [] \<Longrightarrow> normalize_name (fqdn ls) = fqdn (map lower ls)"
  by (simp add: normalize_name_def ends_with_def suffix_singleton lower_fqdn)

lemma normalize_name_last: "normalize_name n \<noteq> [] \<and> last (normalize_name n) = dot"
  by (auto simp: normalize_name_def ends_with_def suffix_singleton Let_def)

lemma normalize_name_idem [simp]: "normalize_name (normalize_name n) = normalize_name n"
  using normalize_name_last [of n]
  by (auto simp: normalize_name_def ends_with_def suffix_singleton Let_def lower_char_def)

lemma normalize_name_lower [simp]: "lower (normalize_name n) = normalize_name n"
  by (auto simp: normalize_name_def Let_def lower_char_def)

lemma normalize_name_neq_Nil [simp]: "normalize_name n \<noteq> []"
  using normalize_name_last by blast

lemma name_in_zone_refl [simp]: "name_in_zone n n"
  by (simp add: name_in_zone_def)

lemma name_in_zone_normalize [simp]:
  "name_in_zone (normalize_name n) z = name_in_zone n z"
  "name_in_zone n (normalize_name z) = name_in_zone n z"
  by (simp_all add: name_in_zone_def)

lemma wf_labels_no_dots: "wf_labels ls \<Longrightarrow> \<forall>l\<in>set ls. dot \<notin> set l"
  by (simp add: wf_labels_def)

lemma wf_labels_ne: "wf_labels ls \<Longrightarrow> ls \<noteq> []"
  by (simp add: wf_labels_def)

lemma name_in_zone_labels:
  assumes "wf_labels ls" "wf_labels zs"
  shows "name_in_zone (fqdn ls) (fqdn zs) \<longleftrightarrow> suffix (map lower zs) (map lower ls)"
proof -
  have ne: "ls \<noteq> []" "zs \<noteq> []"
    using assms by (auto simp: wf_labels_def)
  have dots: "\<forall>l\<in>set (map lower ls). dot \<notin> set l" "\<forall>l\<in>set (map lower zs). dot \<notin> set l"
    using assms by (auto simp: wf_labels_def)
  have root: "fqdn (map lower zs) \<noteq> [dot]"
    using assms(2) by (cases zs) (auto simp: wf_labels_def append_eq_Cons_conv)
  have "name_in_zone (fqdn ls) (fqdn zs) \<longleftrightarrow>
      map lower ls = map lower zs \<or> strict_suffix (map lower zs) (map lower ls)"
    unfolding name_in_zone_def Let_def normalize_name_fqdn [OF ne(1)] normalize_name_fqdn [OF ne(2)]
      fqdn_inject [OF dots] ends_with_def
    using root suffix_fqdn_strict [OF dots] by simp
  then show ?thesis
    by (auto simp: strict_suffix_def)
qed

section \<open>Walking up the tree\<close>

lemma split_once_Some:
  "split_once c s = Some (a, b) \<longleftrightarrow> c \<notin> set a \<and> s = a @ c # b"
proof (induction s arbitrary: a)
  case Nil
  then show ?case by simp
next
  case (Cons x xs)
  then show ?case by (cases a) auto
qed

lemma split_once_None: "split_once c s = None \<longleftrightarrow> c \<notin> set s"
  by (induction s) auto

text \<open>
  The loop shared by \<open>matches_zone_suffix\<close>, \<open>find_managed_zone\<close>, \<open>find_authoritative_zone\<close> and
  \<open>find_tld_owner\<close>: cut the text after the next dot, stop when nothing is left, look the rest up
  with its trailing dot, continue from there.
\<close>

function walk_suffixes :: "(string \<Rightarrow> 'a option) \<Rightarrow> string \<Rightarrow> 'a option" where
  "walk_suffixes look s =
     (case split_once dot s of
        None \<Rightarrow> None
      | Some (_, rest) \<Rightarrow>
          if rest = [] then None
          else (case look (rest @ [dot]) of
                  Some r \<Rightarrow> Some r
                | None \<Rightarrow> walk_suffixes look rest))"
  by pat_completeness auto
termination
  by (relation "measure (\<lambda>(look, s). length s)") (auto simp: split_once_Some)

declare walk_suffixes.simps [simp del]

definition matches_zone_suffix :: "string \<Rightarrow> string set \<Rightarrow> bool" where
  "matches_zone_suffix normalized zones =
     (if normalized \<in> zones then True
      else walk_suffixes (\<lambda>s. if s \<in> zones then Some () else None) (trim_end_dots normalized) \<noteq> None)"

definition find_zone :: "string set \<Rightarrow> string \<Rightarrow> string option" where
  "find_zone zones name =
     (let normalized = normalize_name name
      in if normalized \<in> zones then Some normalized
         else walk_suffixes (\<lambda>s. if s \<in> zones then Some s else None) (trim_end_dots normalized))"

definition find_owner :: "(string, 'v) table \<Rightarrow> string \<Rightarrow> ('v \<times> string) option" where
  "find_owner owners qname =
     (let normalized = normalize_name qname
      in case map_of owners normalized of
           Some w \<Rightarrow> Some (w, normalized)
         | None \<Rightarrow>
             walk_suffixes (\<lambda>s. map_option (\<lambda>w. (w, s)) (map_of owners s)) (trim_end_dots normalized))"

text \<open>\<open>ancestor_names\<close>, whose loop is over \<open>split_once\<close> as well.\<close>

function ancestor_loop :: "string \<Rightarrow> string list" where
  "ancestor_loop rest =
     (case split_once dot rest of
        None \<Rightarrow> []
      | Some (_, parent) \<Rightarrow>
          if parent = [] then [] else (parent @ [dot]) # ancestor_loop parent)"
  by pat_completeness auto
termination
  by (relation "measure length") (auto simp: split_once_Some)

declare ancestor_loop.simps [simp del]

definition ancestor_names :: "string \<Rightarrow> string list" where
  "ancestor_names normalized =
     (let trimmed = trim_end_dots normalized
      in if trimmed = [] then [] else (trimmed @ [dot]) # ancestor_loop trimmed)"

definition find_signed_zone :: "string set \<Rightarrow> string \<Rightarrow> string option" where
  "find_signed_zone zones name =
     (let normalized = normalize_name name
      in if normalized \<in> zones then Some normalized
         else find (\<lambda>candidate. candidate \<in> zones) (ancestor_names normalized))"

text \<open>The first defined lookup along a list.\<close>

fun find_map :: "('a \<Rightarrow> 'b option) \<Rightarrow> 'a list \<Rightarrow> 'b option" where
  "find_map f [] = None"
| "find_map f (x # xs) = (case f x of Some y \<Rightarrow> Some y | None \<Rightarrow> find_map f xs)"

lemma find_map_None: "find_map f xs = None \<longleftrightarrow> (\<forall>x\<in>set xs. f x = None)"
  by (induction xs) (auto split: option.splits)

lemma find_map_guard: "find_map (\<lambda>s. if P s then Some s else None) xs = find P xs"
  by (induction xs) auto

lemma walk_suffixes_ancestors: "walk_suffixes look s = find_map look (ancestor_loop s)"
proof (induction s rule: ancestor_loop.induct)
  case (1 s)
  show ?case
    using 1 by (auto simp: walk_suffixes.simps [of look s] ancestor_loop.simps [of s]
        split: option.splits)
qed

text \<open>The non-empty proper tails of a label list, longest first.\<close>

fun proper_tails :: "'a list \<Rightarrow> 'a list list" where
  "proper_tails [] = []"
| "proper_tails (x # xs) = (if xs = [] then [] else xs # proper_tails xs)"

lemma set_proper_tails: "set (proper_tails ls) = {ms. ms \<noteq> [] \<and> strict_suffix ms ls}"
proof (induction ls)
  case Nil
  then show ?case by auto
next
  case (Cons x xs)
  have "strict_suffix ms (x # xs) \<longleftrightarrow> ms = xs \<or> strict_suffix ms xs" for ms
    by (auto simp: strict_suffix_def suffix_Cons dest: suffix_length_le)
  with Cons show ?case
    by (auto simp: strict_suffix_def)
qed

lemma sorted_proper_tails: "sorted_wrt (\<lambda>a b. length b < length a) (ls # proper_tails ls)"
proof (induction ls)
  case Nil
  then show ?case by simp
next
  case (Cons x xs)
  then show ?case by auto
qed

lemma ancestor_loop_labels:
  "wf_labels ls \<Longrightarrow> ancestor_loop (join_with [dot] ls) = map fqdn (proper_tails ls)"
proof (induction ls rule: induct_list012)
  case 1
  then show ?case by (simp add: wf_labels_def)
next
  case (2 x)
  then have "split_once dot x = None"
    by (simp add: split_once_None wf_labels_def)
  then show ?case by (simp add: ancestor_loop.simps)
next
  case (3 x y zs)
  have s: "split_once dot (x @ dot # join_with [dot] (y # zs)) = Some (x, join_with [dot] (y # zs))"
    using 3(3) by (simp add: split_once_Some wf_labels_def)
  have wf: "wf_labels (y # zs)"
    using 3(3) by (simp add: wf_labels_def)
  then have "join_with [dot] (y # zs) \<noteq> []"
    using join_last_not_dot by blast
  then have "ancestor_loop (x @ dot # join_with [dot] (y # zs)) =
      fqdn (y # zs) # map fqdn (proper_tails (y # zs))"
    using 3(2) [OF wf] s
    by (simp only: ancestor_loop.simps [of "x @ dot # join_with [dot] (y # zs)"])
      (simp add: fqdn_join del: fqdn_Cons)
  then show ?case by simp
qed

lemma ancestor_names_labels:
  "wf_labels ls \<Longrightarrow> ancestor_names (fqdn ls) = map fqdn (ls # proper_tails ls)"
  using join_last_not_dot [of ls] wf_labels_ne [of ls]
  by (simp add: ancestor_names_def trim_fqdn ancestor_loop_labels fqdn_join [symmetric])

lemma find_zone_candidates:
  assumes "wf_labels ls"
  shows "find_zone zones (fqdn ls) =
    find (\<lambda>z. z \<in> zones) (map fqdn (map lower ls # proper_tails (map lower ls)))"
proof -
  have "ls \<noteq> []" "wf_labels (map lower ls)"
    using assms by (auto simp: wf_labels_def)
  then show ?thesis
    by (simp add: find_zone_def normalize_name_fqdn trim_fqdn walk_suffixes_ancestors
        ancestor_loop_labels find_map_guard)
qed

lemma find_signed_zone_candidates:
  assumes "wf_labels ls"
  shows "find_signed_zone zones (fqdn ls) = find_zone zones (fqdn ls)"
proof -
  have "ls \<noteq> []" "wf_labels (map lower ls)"
    using assms by (auto simp: wf_labels_def)
  then show ?thesis
    by (simp add: find_zone_candidates [OF assms] find_signed_zone_def normalize_name_fqdn
        ancestor_names_labels)
qed

lemma matches_zone_suffix_find_zone:
  "matches_zone_suffix (normalize_name n) zones \<longleftrightarrow> find_zone zones n \<noteq> None"
  by (simp add: matches_zone_suffix_def find_zone_def Let_def walk_suffixes_ancestors find_map_None
      del: not_None_eq)

text \<open>A set of zones that are stored in the form every writer stores them: lower case, dotted.\<close>

definition canonical_zones :: "string set \<Rightarrow> bool" where
  "canonical_zones zones \<longleftrightarrow> (\<forall>z\<in>zones. \<exists>zs. wf_labels zs \<and> map lower zs = zs \<and> z = fqdn zs)"

lemma canonical_zonesI:
  "list_all (\<lambda>zs. wf_labels zs \<and> map lower zs = zs) zss \<Longrightarrow> canonical_zones (fqdn ` set zss)"
  by (auto simp: canonical_zones_def list_all_iff)

lemma length_fqdn_suffix:
  "suffix as bs \<Longrightarrow> length (fqdn as) \<le> length (fqdn bs)"
  by (auto simp: suffix_def fqdn_append)

lemma find_zone_iff_enclosing:
  assumes "wf_labels ls" "canonical_zones zones"
  shows "find_zone zones (fqdn ls) = None \<longleftrightarrow> (\<forall>z\<in>zones. \<not> name_in_zone (fqdn ls) z)"
proof -
  let ?low = "map lower ls"
  have cand: "set (?low # proper_tails ?low) = {ms. ms \<noteq> [] \<and> suffix ms ?low}"
    using assms(1) by (auto simp: set_proper_tails strict_suffix_def wf_labels_def)
  have "find_zone zones (fqdn ls) = None \<longleftrightarrow> (\<forall>ms. ms \<noteq> [] \<and> suffix ms ?low \<longrightarrow> fqdn ms \<notin> zones)"
    unfolding find_zone_candidates [OF assms(1)] find_None_iff set_map cand by blast
  also have "\<dots> \<longleftrightarrow> (\<forall>z\<in>zones. \<not> name_in_zone (fqdn ls) z)"
  proof
    assume none: "\<forall>ms. ms \<noteq> [] \<and> suffix ms ?low \<longrightarrow> fqdn ms \<notin> zones"
    show "\<forall>z\<in>zones. \<not> name_in_zone (fqdn ls) z"
    proof
      fix z assume "z \<in> zones"
      then obtain zs where zs: "wf_labels zs" "map lower zs = zs" "z = fqdn zs"
        using assms(2) by (auto simp: canonical_zones_def)
      then show "\<not> name_in_zone (fqdn ls) z"
        using none \<open>z \<in> zones\<close> name_in_zone_labels [OF assms(1) zs(1)] by (auto simp: wf_labels_def)
    qed
  next
    assume out: "\<forall>z\<in>zones. \<not> name_in_zone (fqdn ls) z"
    show "\<forall>ms. ms \<noteq> [] \<and> suffix ms ?low \<longrightarrow> fqdn ms \<notin> zones"
    proof (intro allI impI notI)
      fix ms assume ms: "ms \<noteq> [] \<and> suffix ms ?low" and "fqdn ms \<in> zones"
      have "wf_labels ms" "map lower ms = ms"
        using ms assms(1) wf_labels_suffix [of ?low ms]
        by (auto simp: suffix_def map_eq_append_conv)
      then have "name_in_zone (fqdn ls) (fqdn ms)"
        using ms name_in_zone_labels [OF assms(1), of ms] by simp
      with out \<open>fqdn ms \<in> zones\<close> show False by blast
    qed
  qed
  finally show ?thesis .
qed

lemma find_zone_most_specific:
  assumes "wf_labels ls" "canonical_zones zones" "find_zone zones (fqdn ls) = Some z"
  shows "z \<in> zones \<and> name_in_zone (fqdn ls) z
    \<and> (\<forall>z'\<in>zones. name_in_zone (fqdn ls) z' \<longrightarrow> name_in_zone z z')"
proof -
  let ?low = "map lower ls"
  define cs where "cs = ?low # proper_tails ?low"
  have cand: "set cs = {ms. ms \<noteq> [] \<and> suffix ms ?low}"
    using assms(1) by (auto simp: cs_def set_proper_tails strict_suffix_def wf_labels_def)
  obtain pre post where split: "map fqdn cs = pre @ z # post"
    and z: "z \<in> zones" and pre: "\<forall>y\<in>set pre. y \<notin> zones"
    using assms(3) unfolding find_zone_candidates [OF assms(1)] find_Some_take cs_def by blast
  then obtain xs ms ys where c: "cs = xs @ ms # ys" "pre = map fqdn xs" "z = fqdn ms"
    by (auto simp: map_eq_append_conv)
  have "ms \<in> set cs" using c(1) by simp
  then have ms: "ms \<noteq> []" "suffix ms ?low"
    using cand by blast+
  have wf: "wf_labels ms" "map lower ms = ms"
    using ms assms(1) wf_labels_suffix [of ?low ms] by (auto simp: suffix_def map_eq_append_conv)
  have inz: "name_in_zone (fqdn ls) z"
    using ms wf name_in_zone_labels [OF assms(1), of ms] c(3) by simp
  have "name_in_zone z z'" if z': "z' \<in> zones" "name_in_zone (fqdn ls) z'" for z'
  proof -
    obtain zs where zs: "wf_labels zs" "map lower zs = zs" "z' = fqdn zs"
      using z'(1) assms(2) by (auto simp: canonical_zones_def)
    have suf: "suffix zs ?low" "zs \<noteq> []"
      using z'(2) zs name_in_zone_labels [OF assms(1) zs(1)] by (auto simp: wf_labels_def)
    then have "zs \<in> set cs" using cand by blast
    moreover have "zs \<notin> set xs"
      using pre c(2) z'(1) zs(3) by auto
    ultimately have "zs \<in> set (ms # ys)" using c(1) by auto
    moreover have "sorted_wrt (\<lambda>a b. length b < length a) (xs @ ms # ys)"
      using sorted_proper_tails [of ?low] unfolding c(1) [symmetric] cs_def .
    ultimately have "length zs \<le> length ms"
      by (auto simp: sorted_wrt_append)
    then have "suffix zs ms"
      using suffix_length_suffix suf(1) ms(2) by blast
    then show ?thesis
      using c(3) zs wf name_in_zone_labels [OF wf(1) zs(1)] by simp
  qed
  then show ?thesis using z inz by blast
qed

section \<open>Wildcard owners and the managed-zone heuristic\<close>

definition make_wildcard_name :: "string \<Rightarrow> string option" where
  "make_wildcard_name normalized =
     map_option (\<lambda>(_, rest). ''*.'' @ rest @ [dot]) (split_once dot (trim_end_dots normalized))"

definition REVERSE_SUFFIXES :: "string list" where
  "REVERSE_SUFFIXES = [''in-addr.arpa.'', ''ip6.arpa.'']"

definition extract_zone_from_name :: "string \<Rightarrow> string option" where
  "extract_zone_from_name name =
     (let normalized = normalize_name name
      in if list_ex (\<lambda>s. name_in_zone normalized s) REVERSE_SUFFIXES then None
         else (let parts = split_on dot (trim_end_dots normalized)
               in if length parts \<ge> 2
                  then Some (join_with [dot] (drop (length parts - 2) parts) @ [dot])
                  else if length parts = 1 \<and> parts ! 0 \<noteq> [] then Some (parts ! 0 @ [dot])
                  else None))"

lemma make_wildcard_name_labels:
  assumes "wf_labels (l # ls)"
  shows "make_wildcard_name (fqdn (l # ls)) = (if ls = [] then None else Some (fqdn (''*'' # ls)))"
proof (cases "ls = []")
  case True
  then show ?thesis
    using assms trim_fqdn [OF assms]
    by (simp add: make_wildcard_name_def split_once_None wf_labels_def)
next
  case False
  then have "join_with [dot] (l # ls) = l @ dot # join_with [dot] ls"
    by (cases ls) auto
  then have "split_once dot (join_with [dot] (l # ls)) = Some (l, join_with [dot] ls)"
    using assms by (simp add: split_once_Some wf_labels_def)
  then show ?thesis
    using False trim_fqdn [OF assms] fqdn_join [OF False] by (simp add: make_wildcard_name_def)
qed

lemma drop_last_two_neq: "xs \<noteq> [] \<Longrightarrow> drop (length xs - 2) xs \<noteq> []"
  by (cases xs) auto

definition rev_in_addr :: "label list" where
  "rev_in_addr = [''in-addr'', ''arpa'']"

definition rev_ip6 :: "label list" where
  "rev_ip6 = [''ip6'', ''arpa'']"

lemma reverse_suffixes_labels: "REVERSE_SUFFIXES = [fqdn rev_in_addr, fqdn rev_ip6]"
  by (simp add: REVERSE_SUFFIXES_def rev_in_addr_def rev_ip6_def)

lemma wf_reverse_labels: "wf_labels rev_in_addr" "wf_labels rev_ip6"
  "map lower rev_in_addr = rev_in_addr" "map lower rev_ip6 = rev_ip6"
  by (simp_all add: rev_in_addr_def rev_ip6_def wf_labels_def lower_def lower_char_def)

definition reverse_labels :: "label list \<Rightarrow> bool" where
  "reverse_labels ls \<longleftrightarrow> suffix rev_in_addr ls \<or> suffix rev_ip6 ls"

lemma extract_zone_labels:
  assumes "wf_labels ls"
  shows "extract_zone_from_name (fqdn ls) =
    (let low = map lower ls
     in if reverse_labels low then None
        else Some (fqdn (drop (length low - 2) low)))"
proof -
  let ?low = "map lower ls"
  have ne: "ls \<noteq> []" and wf: "wf_labels ?low"
    using assms by (auto simp: wf_labels_def)
  have rv: "list_ex (\<lambda>s. name_in_zone (fqdn ?low) s) REVERSE_SUFFIXES \<longleftrightarrow> reverse_labels ?low"
    using name_in_zone_labels [OF wf wf_reverse_labels(1)] name_in_zone_labels [OF wf wf_reverse_labels(2)]
      wf_reverse_labels
    by (simp add: reverse_suffixes_labels reverse_labels_def)
  have parts: "split_on dot (trim_end_dots (fqdn ?low)) = ?low"
    using name_labels_fqdn [OF wf] by (simp add: name_labels_def)
  have tail: "join_with [dot] (drop (length ?low - 2) ?low) @ [dot] = fqdn (drop (length ?low - 2) ?low)"
    using ne drop_last_two_neq [of ?low] by (subst fqdn_join) auto
  have unf: "extract_zone_from_name (fqdn ls) =
      (if reverse_labels ?low then None
       else if length ?low \<ge> 2 then Some (fqdn (drop (length ?low - 2) ?low))
       else if length ?low = 1 \<and> ?low ! 0 \<noteq> [] then Some (?low ! 0 @ [dot]) else None)"
    unfolding extract_zone_from_name_def Let_def normalize_name_fqdn [OF ne] rv parts tail ..
  show ?thesis
  proof (cases "length ls \<ge> 2")
    case True
    then show ?thesis unfolding unf by (simp add: Let_def)
  next
    case False
    then obtain l where l: "ls = [l]"
      using ne by (cases ls) (auto simp: Suc_le_eq)
    then have "lower l \<noteq> []" using assms by (simp add: wf_labels_def)
    then show ?thesis unfolding unf by (simp add: Let_def l)
  qed
qed

lemma extract_zone_encloses:
  assumes "wf_labels ls" "extract_zone_from_name (fqdn ls) = Some z"
  shows "name_in_zone (fqdn ls) z"
proof -
  let ?d = "drop (length ls - 2) (map lower ls)"
  have z: "z = fqdn ?d"
    using assms by (auto simp: extract_zone_labels Let_def split: if_splits)
  have s: "suffix ?d (map lower ls)" by (rule suffix_drop)
  then have wf: "wf_labels ?d"
    using wf_labels_suffix [of "map lower ls" ?d] assms(1) drop_last_two_neq [of "map lower ls"]
      wf_labels_ne by fastforce
  have "map lower ?d = ?d" by (simp add: drop_map [symmetric])
  then show ?thesis
    using s name_in_zone_labels [OF assms(1) wf] unfolding z by simp
qed

section \<open>SQL LIKE patterns\<close>

text \<open>
  SQLite's \<open>LIKE\<close>: \<open>%\<close> matches any run, \<open>_\<close> any one character, an \<open>ESCAPE\<close> character makes the next
  one literal, and literals compare without regard to ASCII case.  A pattern ending in its escape
  character matches nothing.
\<close>

datatype like_tok = Any | One | Lit char

fun like_toks :: "char option \<Rightarrow> string \<Rightarrow> like_tok list option" where
  "like_toks esc [] = Some []"
| "like_toks esc (c # cs) =
     (if esc = Some c
      then (case cs of [] \<Rightarrow> None | d # ds \<Rightarrow> map_option (\<lambda>ts. Lit d # ts) (like_toks esc ds))
      else map_option (\<lambda>ts. (if c = CHR ''%'' then Any else if c = CHR ''_'' then One else Lit c) # ts)
             (like_toks esc cs))"

fun like_match :: "like_tok list \<Rightarrow> string \<Rightarrow> bool" where
  "like_match [] s = (s = [])"
| "like_match (Lit c # ts) [] = False"
| "like_match (Lit c # ts) (x # xs) = (lower_char x = lower_char c \<and> like_match ts xs)"
| "like_match (One # ts) [] = False"
| "like_match (One # ts) (x # xs) = like_match ts xs"
| "like_match (Any # ts) [] = like_match ts []"
| "like_match (Any # ts) (x # xs) = (like_match ts (x # xs) \<or> like_match (Any # ts) xs)"

definition sql_like :: "char option \<Rightarrow> string \<Rightarrow> string \<Rightarrow> bool" where
  "sql_like esc pat s = (case like_toks esc pat of None \<Rightarrow> False | Some ts \<Rightarrow> like_match ts s)"

abbreviation backslash :: char where "backslash \<equiv> CHR 0x5C"

definition replace_char :: "char \<Rightarrow> string \<Rightarrow> string \<Rightarrow> string" where
  "replace_char c r s = concat (map (\<lambda>x. if x = c then r else [x]) s)"

definition like_escape :: "string \<Rightarrow> string" where
  "like_escape s =
     replace_char (CHR ''_'') [backslash, CHR ''_'']
       (replace_char (CHR ''%'') [backslash, CHR ''%'']
         (replace_char backslash [backslash, backslash] s))"

lemma like_escape_Nil [simp]: "like_escape [] = []"
  by (simp add: like_escape_def replace_char_def)

lemma like_escape_Cons:
  "like_escape (c # s) =
     (if c = backslash \<or> c = CHR ''%'' \<or> c = CHR ''_'' then [backslash, c] else [c]) @ like_escape s"
  by (auto simp: like_escape_def replace_char_def)

lemma like_toks_escape: "like_toks (Some backslash) (like_escape s) = Some (map Lit s)"
  by (induction s) (auto simp: like_escape_Cons)

lemma like_match_lits: "like_match (map Lit t) s \<longleftrightarrow> lower s = lower t"
proof (induction t arbitrary: s)
  case Nil
  then show ?case by auto
next
  case (Cons c t)
  then show ?case by (cases s) auto
qed

lemma like_match_Any: "like_match (Any # ts) s \<longleftrightarrow> (\<exists>t. suffix t s \<and> like_match ts t)"
proof (induction s)
  case Nil
  then show ?case by simp
next
  case (Cons x xs)
  then show ?case by (auto simp: suffix_Cons)
qed

text \<open>The pattern \<open>%.<zone>\<close> with the zone escaped is a suffix test, whatever the zone contains.\<close>

lemma sql_like_zone:
  assumes "lower s = s" "lower z = z"
  shows "sql_like (Some backslash) (CHR ''%'' # dot # like_escape z) s \<longleftrightarrow> suffix (dot # z) s"
proof -
  have toks: "like_toks (Some backslash) (CHR ''%'' # dot # like_escape z) =
      Some (Any # map Lit (dot # z))"
    by (simp add: like_toks_escape)
  have "sql_like (Some backslash) (CHR ''%'' # dot # like_escape z) s \<longleftrightarrow>
      (\<exists>t. suffix t s \<and> lower t = lower (dot # z))"
    unfolding sql_like_def toks by (simp add: like_match_Any like_match_lits del: list.map lower_Cons)
  also have "\<dots> \<longleftrightarrow> suffix (dot # z) s"
  proof -
    have "lower t = t" if "suffix t s" for t
      using assms(1) that unfolding suffix_def by (metis append_eq_append_conv length_lower lower_append)
    then show ?thesis using assms(2) by (auto simp: lower_char_def)
  qed
  finally show ?thesis .
qed

lemma sql_like_name_in_zone:
  assumes "normalize_name n = n" "normalize_name z = z"
  shows "n = z \<or> sql_like (Some backslash) (CHR ''%'' # dot # like_escape z) n \<longleftrightarrow>
    (z = [dot] \<longrightarrow> n = [dot] \<or> suffix [dot, dot] n) \<and> name_in_zone n z"
proof -
  have "lower n = n" "lower z = z"
    using assms normalize_name_lower by metis+
  then show ?thesis
    by (auto simp: sql_like_zone name_in_zone_def assms ends_with_def)
qed

section \<open>Properties\<close>

text \<open>
  C21: on names of non-empty labels, \<open>name_in_zone\<close> is containment of label lists up to case, so
  \<open>notexample.com.\<close> is never inside \<open>example.com.\<close>.
\<close>

theorem name_in_zone_is_label_suffix:
  assumes "wf_labels ls" "wf_labels zs"
  shows "name_in_zone (fqdn ls) (fqdn zs) \<longleftrightarrow> suffix (map lower zs) (map lower ls)"
  by (rule name_in_zone_labels [OF assms])

theorem name_in_zone_is_label_suffix_witness:
  "name_in_zone (fqdn [''www'', ''Example'', ''com'']) (fqdn [''example'', ''COM''])
   \<and> \<not> name_in_zone (fqdn [''notexample'', ''com'']) (fqdn [''example'', ''com''])"
proof -
  have wf: "wf_labels [''www'', ''Example'', ''com'']" "wf_labels [''example'', ''COM'']"
    "wf_labels [''notexample'', ''com'']" "wf_labels [''example'', ''com'']"
    by code_simp+
  show ?thesis
    unfolding name_in_zone_is_label_suffix [OF wf(1,2)] name_in_zone_is_label_suffix [OF wf(3,4)]
    by code_simp
qed

text \<open>
  C5: the three zone walks (\<open>find_managed_zone\<close>/\<open>find_authoritative_zone\<close>, \<open>find_signed_zone\<close> and
  \<open>matches_zone_suffix\<close>) agree; they find nothing only if no zone of the set encloses the name, and
  otherwise the most specific zone that does.
\<close>

theorem zone_walk_most_specific:
  assumes "wf_labels ls" "canonical_zones zones"
  shows "find_signed_zone zones (fqdn ls) = find_zone zones (fqdn ls)
    \<and> (matches_zone_suffix (normalize_name (fqdn ls)) zones \<longleftrightarrow> find_zone zones (fqdn ls) \<noteq> None)
    \<and> (case find_zone zones (fqdn ls) of
         None \<Rightarrow> \<forall>z\<in>zones. \<not> name_in_zone (fqdn ls) z
       | Some z \<Rightarrow> z \<in> zones \<and> name_in_zone (fqdn ls) z
           \<and> (\<forall>z'\<in>zones. name_in_zone (fqdn ls) z' \<longrightarrow> name_in_zone z z'))"
proof (cases "find_zone zones (fqdn ls)")
  case None
  then show ?thesis
    using find_zone_iff_enclosing [OF assms] find_signed_zone_candidates [OF assms(1)]
      matches_zone_suffix_find_zone by simp
next
  case (Some z)
  then show ?thesis
    using find_zone_most_specific [OF assms Some] find_signed_zone_candidates [OF assms(1)]
      matches_zone_suffix_find_zone by simp
qed

theorem zone_walk_most_specific_witness:
  "find_signed_zone (fqdn ` set [[''com''], [''example'', ''com'']]) (fqdn [''a'', ''www'', ''Example'', ''com''])
     = Some ''example.com.''"
proof -
  let ?ls = "[''a'', ''www'', ''Example'', ''com'']" and ?zss = "[[''com''], [''example'', ''com'']]"
  have wf: "wf_labels ?ls" by code_simp
  have canon: "canonical_zones (fqdn ` set ?zss)"
    by (rule canonical_zonesI) code_simp
  have "find_zone (fqdn ` set ?zss) (fqdn ?ls) = Some ''example.com.''"
    by code_simp
  then show ?thesis
    unfolding conjunct1 [OF zone_walk_most_specific [OF wf canon]] .
qed

end
