(* ===== verification/Addresses.thy ===== *)
theory Addresses
  imports Names
begin

text \<open>
  IP addresses: their octets and text, reverse-lookup names (\<open>reverse_ptr_name\<close> of
  \<open>src/src/db.rs\<close> and its inverse \<open>extract_ip_from_name\<close> of \<open>src/src/dns_server.rs\<close>).
\<close>

unbundle bit_operations_syntax

datatype IpAddr = V4 ipv4 | V6 ipv6

section \<open>Octets\<close>

text \<open>The \<open>k\<close> low-order bytes of a number, least significant first, and back.\<close>

fun le_bytes :: "nat \<Rightarrow> nat \<Rightarrow> nat list" where
  "le_bytes 0 n = []"
| "le_bytes (Suc k) n = n mod 256 # le_bytes k (n div 256)"

fun of_le_bytes :: "nat list \<Rightarrow> nat" where
  "of_le_bytes [] = 0"
| "of_le_bytes (b # bs) = b + 256 * of_le_bytes bs"

definition octets4 :: "ipv4 \<Rightarrow> nat list" where
  "octets4 a = rev (le_bytes 4 (unat a))"

definition octets6 :: "ipv6 \<Rightarrow> nat list" where
  "octets6 a = rev (le_bytes 16 (unat a))"

definition from_octets4 :: "nat list \<Rightarrow> ipv4" where
  "from_octets4 os = of_nat (of_le_bytes (rev os))"

definition from_octets6 :: "nat list \<Rightarrow> ipv6" where
  "from_octets6 os = of_nat (of_le_bytes (rev os))"

lemma of_le_bytes_le_bytes: "of_le_bytes (le_bytes k n) = n mod 256 ^ k"
proof (induction k arbitrary: n)
  case 0
  then show ?case by simp
next
  case (Suc k)
  then show ?case by (simp add: mod_mult2_eq)
qed

lemma length_le_bytes [simp]: "length (le_bytes k n) = k"
  by (induction k arbitrary: n) auto

lemma le_bytes_bound: "b \<in> set (le_bytes k n) \<Longrightarrow> b < 256"
  by (induction k arbitrary: n) auto

lemma octets4_inverse [simp]: "from_octets4 (octets4 a) = a"
proof -
  have "unat a mod 256 ^ 4 = unat a"
    using unsigned_less [of a, where ?'a = nat] by simp
  then show ?thesis
    by (simp add: from_octets4_def octets4_def of_le_bytes_le_bytes del: le_bytes.simps)
qed

lemma octets6_inverse [simp]: "from_octets6 (octets6 a) = a"
proof -
  have "unat a mod 256 ^ 16 = unat a"
    using unsigned_less [of a, where ?'a = nat] by simp
  then show ?thesis
    by (simp add: from_octets6_def octets6_def of_le_bytes_le_bytes del: le_bytes.simps)
qed

section \<open>Text of IPv4 addresses\<close>

text \<open>\<open>Ipv4Addr::to_string\<close>.\<close>

definition ipv4_to_string :: "ipv4 \<Rightarrow> string" where
  "ipv4_to_string a = join_with [dot] (map show_nat (octets4 a))"

text \<open>
  \<open>Ipv4Addr::from_str\<close>: four fields of one to three digits, no leading zero, each at most 255.
\<close>

definition parse_octet :: "string \<Rightarrow> nat option" where
  "parse_octet s =
     (if s = [] \<or> length s > 3 \<or> (length s > 1 \<and> hd s = CHR ''0'') then None
      else (case parse_digits 0 s of
              None \<Rightarrow> None
            | Some n \<Rightarrow> if n \<le> 255 then Some n else None))"

definition parse_ipv4 :: "string \<Rightarrow> ipv4 option" where
  "parse_ipv4 s =
     (let parts = split_on dot s
      in if length parts \<noteq> 4 then None
         else map_option from_octets4 (those (map parse_octet parts)))"

lemma show_nat_lt_10: "n < 10 \<Longrightarrow> show_nat n = [char_of (48 + n)]"
  by (simp add: show_nat.simps [of n])

lemma show_nat_ge_10: "\<not> n < 10 \<Longrightarrow> show_nat n = show_nat (n div 10) @ [char_of (48 + n mod 10)]"
  by (simp add: show_nat.simps [of n])

lemma hd_show_nat: "hd (show_nat n) = CHR ''0'' \<longleftrightarrow> n = 0"
proof (induction n rule: show_nat.induct)
  case (1 n)
  show ?case
  proof (cases "n < 10")
    case True
    have "(char_of (48 + n) :: char) = CHR ''0'' \<longleftrightarrow> (of_char (char_of (48 + n) :: char) :: nat) = of_char (CHR ''0'')"
      by (simp only: of_char_eq_iff)
    with True show ?thesis by (simp add: show_nat_lt_10)
  next
    case False
    with 1 show ?thesis by (simp add: show_nat_ge_10)
  qed
qed

lemma length_show_nat_le_3: "n < 1000 \<Longrightarrow> length (show_nat n) \<le> 3"
proof -
  assume n: "n < 1000"
  consider "n < 10" | "\<not> n < 10" "n < 100" | "\<not> n < 100" by linarith
  then show ?thesis
  proof cases
    case 1
    then show ?thesis by (simp add: show_nat_lt_10)
  next
    case 2
    then have "n div 10 < 10" by auto
    with 2 show ?thesis by (simp add: show_nat_ge_10 show_nat_lt_10)
  next
    case 3
    then have "\<not> n < 10" "\<not> n div 10 < 10" "n div 10 div 10 < 10" using n by auto
    then show ?thesis by (simp add: show_nat_ge_10 show_nat_lt_10)
  qed
qed

lemma length_show_nat_1: "length (show_nat n) > 1 \<Longrightarrow> n \<noteq> 0"
  by (rule ccontr) (simp add: show_nat_lt_10)

lemma parse_octet_show: "n \<le> 255 \<Longrightarrow> parse_octet (show_nat n) = Some n"
  using length_show_nat_le_3 [of n] hd_show_nat [of n] length_show_nat_1 [of n]
  by (auto simp: parse_octet_def parse_show_nat)

lemma those_map_Some: "(\<And>x. x \<in> set xs \<Longrightarrow> f (g x) = Some x) \<Longrightarrow> those (map (f \<circ> g) xs) = Some xs"
  by (induction xs) auto

lemma octets4_bound: "b \<in> set (octets4 a) \<Longrightarrow> b \<le> 255"
  using le_bytes_bound [of b 4 "unat a"] by (auto simp: octets4_def)

lemma length_octets4 [simp]: "length (octets4 a) = 4"
  by (simp add: octets4_def del: le_bytes.simps)

lemma parse_ipv4_to_string [simp]: "parse_ipv4 (ipv4_to_string a) = Some a"
proof -
  have ne: "octets4 a \<noteq> []"
    using length_octets4 [of a] by (metis list.size(3) zero_neq_numeral)
  have "split_on dot (ipv4_to_string a) = map show_nat (octets4 a)"
    unfolding ipv4_to_string_def using ne by (intro split_join_with) (auto simp: show_nat_no_dot)
  moreover have "those (map (parse_octet \<circ> show_nat) (octets4 a)) = Some (octets4 a)"
    by (rule those_map_Some) (auto simp: parse_octet_show octets4_bound)
  ultimately show ?thesis
    by (simp add: parse_ipv4_def)
qed

lemma ipv4_to_string_inject [simp]: "ipv4_to_string a = ipv4_to_string b \<longleftrightarrow> a = b"
  by (metis option.inject parse_ipv4_to_string)

section \<open>Reverse names\<close>

definition hex_digit :: "nat \<Rightarrow> char" where
  "hex_digit d = (if d < 10 then char_of (48 + d) else if d < 16 then char_of (87 + d) else CHR ''0'')"

definition reverse_ptr_name :: "IpAddr \<Rightarrow> string" where
  "reverse_ptr_name ip =
     (case ip of
        V4 v4 \<Rightarrow>
          (let os = octets4 v4
           in show_nat (os ! 3) @ [dot] @ show_nat (os ! 2) @ [dot] @ show_nat (os ! 1) @ [dot]
              @ show_nat (os ! 0) @ ''.in-addr.arpa.'')
      | V6 v6 \<Rightarrow>
          concat (map (\<lambda>byte. [hex_digit (byte mod 16), dot, hex_digit (byte div 16), dot])
            (rev (octets6 v6))) @ ''ip6.arpa.'')"

definition hex_val :: "char \<Rightarrow> nat option" where
  "hex_val c =
     (let n = (of_char c :: nat)
      in if 48 \<le> n \<and> n \<le> 57 then Some (n - 48)
         else if 97 \<le> n \<and> n \<le> 102 then Some (n - 87)
         else if 65 \<le> n \<and> n \<le> 70 then Some (n - 55) else None)"

fun parse_hex_digits :: "nat \<Rightarrow> string \<Rightarrow> nat option" where
  "parse_hex_digits acc [] = Some acc"
| "parse_hex_digits acc (c # cs) =
     (case hex_val c of None \<Rightarrow> None | Some d \<Rightarrow> parse_hex_digits (acc * 16 + d) cs)"

text \<open>\<open>u8::from_str_radix(s, 16)\<close>.\<close>

definition parse_hex_u8 :: "string \<Rightarrow> nat option" where
  "parse_hex_u8 s =
     (let ds = (case s of [] \<Rightarrow> [] | c # cs \<Rightarrow> if c = CHR ''+'' then cs else s)
      in if ds = [] then None
         else (case parse_hex_digits 0 ds of
                 None \<Rightarrow> None
               | Some n \<Rightarrow> if n \<le> 255 then Some n else None))"

definition nibble_byte :: "string list \<Rightarrow> nat \<Rightarrow> nat option" where
  "nibble_byte nibbles i =
     (case parse_hex_u8 (nibbles ! (31 - i * 2)) of
        None \<Rightarrow> None
      | Some high \<Rightarrow>
          (case parse_hex_u8 (nibbles ! (31 - i * 2 - 1)) of
             None \<Rightarrow> None
           | Some low \<Rightarrow> Some (unat ((push_bit 4 (of_nat high) OR of_nat low) :: u8))))"

definition extract_ip_v6 :: "string \<Rightarrow> IpAddr option" where
  "extract_ip_v6 name =
     (case strip_suffix ''.ip6.arpa'' name of
        None \<Rightarrow> None
      | Some stripped \<Rightarrow>
          (let nibbles = split_on dot stripped
           in if length nibbles = 32
              then map_option (\<lambda>bytes. V6 (from_octets6 bytes)) (those (map (nibble_byte nibbles) [0..<16]))
              else None))"

definition extract_ip_from_name :: "string \<Rightarrow> IpAddr option" where
  "extract_ip_from_name nm =
     (let name = trim_end_dots nm
      in case strip_suffix ''.in-addr.arpa'' name of
           Some stripped \<Rightarrow>
             (let parts = split_on dot stripped;
                  octets = List.map_filter (parse_uint 255) (rev parts)
              in if length parts = 4 \<and> length octets = 4 then Some (V4 (from_octets4 octets))
                 else extract_ip_v6 name)
         | None \<Rightarrow> extract_ip_v6 name)"

lemma parse_uint_show: "n \<le> m \<Longrightarrow> parse_uint m (show_nat n) = Some n"
proof -
  assume n: "n \<le> m"
  obtain c cs where c: "show_nat n = c # cs"
    by (cases "show_nat n") auto
  have "is_digit c" using show_nat_digits [of c n] c by simp
  then have "c \<noteq> CHR ''+''" by (auto simp: is_digit_def)
  then show ?thesis
    using n parse_show_nat [of n] unfolding parse_uint_def c by (simp add: Let_def)
qed

lemma strip_suffix_append [simp]: "strip_suffix p (s @ p) = Some s"
  by (simp add: strip_suffix_def suffix_def)

lemma map_filter_Some_id:
  "(\<And>x. x \<in> set xs \<Longrightarrow> f (g x) = Some x) \<Longrightarrow> List.map_filter f (map g xs) = xs"
  by (induction xs) (auto simp: List.map_filter_simps)

lemma list_of_four: "length xs = 4 \<Longrightarrow> \<exists>w x y z. xs = [w, x, y, z]"
  by (auto simp: numeral_eq_Suc length_Suc_conv)

lemma extract_reverse_v4: "extract_ip_from_name (reverse_ptr_name (V4 a)) = Some (V4 a)"
proof -
  obtain w x y z where os: "octets4 a = [w, x, y, z]"
    using list_of_four [OF length_octets4] by blast
  let ?s = "join_with [dot] (map show_nat [z, y, x, w])"
  have name: "reverse_ptr_name (V4 a) = (?s @ ''.in-addr.arpa'') @ [dot]"
    by (simp add: reverse_ptr_name_def os)
  have "trim_end_dots (reverse_ptr_name (V4 a)) = ?s @ ''.in-addr.arpa''"
    unfolding name trim_end_dots_snoc by (simp add: trim_end_dots_id)
  moreover have "split_on dot ?s = map show_nat [z, y, x, w]"
    by (rule split_join_with) (auto simp: show_nat_no_dot)
  moreover have "List.map_filter (parse_uint 255) (map show_nat (octets4 a)) = octets4 a"
    by (rule map_filter_Some_id) (simp add: parse_uint_show octets4_bound)
  then have "List.map_filter (parse_uint 255) (rev (map show_nat [z, y, x, w])) = octets4 a"
    by (simp add: os)
  ultimately show ?thesis
    unfolding extract_ip_from_name_def Let_def by (simp add: os [symmetric] del: join_with.simps)
qed

lemma nth_concat_pairs:
  "j < length bs \<Longrightarrow> concat (map (\<lambda>b. [f b, g b]) bs) ! (2 * j) = f (bs ! j)"
  "j < length bs \<Longrightarrow> concat (map (\<lambda>b. [f b, g b]) bs) ! (2 * j + 1) = g (bs ! j)"
proof (induction bs arbitrary: j)
  case (Cons b bs)
  {
    case 1
    then show ?case using Cons.IH(1) by (cases j) auto
  next
    case 2
    then show ?case using Cons.IH(2) by (cases j) auto
  }
qed simp_all

lemma length_concat_pairs: "length (concat (map (\<lambda>b. [f b, g b]) bs)) = 2 * length bs"
  by (induction bs) auto

lemma hex_val_digit: "d < 16 \<Longrightarrow> hex_val (hex_digit d) = Some d"
  by (auto simp: hex_val_def hex_digit_def Let_def)

lemma hex_digit_neq: "hex_digit d \<noteq> dot" "hex_digit d \<noteq> CHR ''+''"
proof -
  have "(of_char (hex_digit d) :: nat) \<noteq> of_char dot" "(of_char (hex_digit d) :: nat) \<noteq> of_char (CHR ''+'')"
    by (auto simp: hex_digit_def)
  then show "hex_digit d \<noteq> dot" "hex_digit d \<noteq> CHR ''+''" by metis+
qed

lemma parse_hex_digit: "d < 16 \<Longrightarrow> parse_hex_u8 [hex_digit d] = Some d"
  by (simp add: parse_hex_u8_def hex_digit_neq hex_val_digit)

lemma nibble_or: "push_bit 4 (b div 16) OR b mod 16 = (b :: nat)"
proof -
  have "push_bit 4 (drop_bit 4 b) OR take_bit 4 b = b"
    by (rule bit_eqI) (auto simp: bit_or_iff bit_push_bit_iff bit_drop_bit_eq bit_take_bit_iff)
  then show ?thesis by (simp add: drop_bit_eq_div take_bit_eq_mod)
qed

lemma nibble_pack:
  assumes "b < 256"
  shows "unat ((push_bit 4 (of_nat (b div 16)) OR of_nat (b mod 16)) :: u8) = b"
proof -
  have "(push_bit 4 (of_nat (b div 16)) OR of_nat (b mod 16) :: u8) = of_nat (push_bit 4 (b div 16) OR b mod 16)"
    by (simp only: push_bit_of_nat of_nat_or_eq)
  also have "\<dots> = of_nat b" by (simp only: nibble_or)
  finally show ?thesis using assms by (simp add: unat_of_nat)
qed

lemma length_octets6 [simp]: "length (octets6 a) = 16"
  by (simp add: octets6_def del: le_bytes.simps)

lemma octets6_bound: "b \<in> set (octets6 a) \<Longrightarrow> b < 256"
  using le_bytes_bound [of b 16 "unat a"] by (auto simp: octets6_def simp del: le_bytes.simps)

definition nibble_labels :: "nat list \<Rightarrow> label list" where
  "nibble_labels bs = concat (map (\<lambda>b. [[hex_digit (b mod 16)], [hex_digit (b div 16)]]) bs)"

lemma nibble_byte_labels:
  assumes "i < 16"
  shows "nibble_byte (nibble_labels (rev (octets6 a))) i = Some (octets6 a ! i)"
proof -
  let ?bs = "rev (octets6 a)"
  have j: "15 - i < length ?bs" using assms by simp
  have b: "?bs ! (15 - i) = octets6 a ! i"
    using assms by (simp add: rev_nth)
  have lt: "octets6 a ! i < 256"
    using assms octets6_bound [of "octets6 a ! i" a] by simp
  have "31 - i * 2 = 2 * (15 - i) + 1" "31 - i * 2 - 1 = 2 * (15 - i)"
    using assms by auto
  then have "nibble_labels ?bs ! (31 - i * 2) = [hex_digit (octets6 a ! i div 16)]"
    "nibble_labels ?bs ! (31 - i * 2 - 1) = [hex_digit (octets6 a ! i mod 16)]"
    unfolding nibble_labels_def by (simp_all only: nth_concat_pairs [OF j] b)
  then show ?thesis
    using lt nibble_pack [OF lt] by (simp only: nibble_byte_def) (simp add: parse_hex_digit)
qed

lemma extract_reverse_v6: "extract_ip_from_name (reverse_ptr_name (V6 a)) = Some (V6 a)"
proof -
  let ?ls = "nibble_labels (rev (octets6 a))"
  have len: "length ?ls = 32"
    by (simp add: nibble_labels_def length_concat_pairs)
  then have ne: "?ls \<noteq> []" by auto
  have nodot: "\<forall>l\<in>set ?ls. dot \<notin> set l"
    by (auto simp: nibble_labels_def hex_digit_neq [symmetric] dest: sym)
  have "concat (map (\<lambda>byte. [hex_digit (byte mod 16), dot, hex_digit (byte div 16), dot]) bs)
      = fqdn (nibble_labels bs)" for bs
    by (induction bs) (auto simp: nibble_labels_def)
  then have name: "reverse_ptr_name (V6 a) = (join_with [dot] ?ls @ ''.ip6.arpa'') @ [dot]"
    using fqdn_join [OF ne] by (simp add: reverse_ptr_name_def)
  have trim: "trim_end_dots (reverse_ptr_name (V6 a)) = join_with [dot] ?ls @ ''.ip6.arpa''"
    unfolding name trim_end_dots_snoc by (simp add: trim_end_dots_id)
  have no4: "strip_suffix ''.in-addr.arpa'' (join_with [dot] ?ls @ ''.ip6.arpa'') = None"
    by (simp add: strip_suffix_def suffix_to_prefix)
  have "those (map (nibble_byte ?ls) [0..<16]) = Some (map ((!) (octets6 a)) [0..<16])"
    by (subst map_cong [OF refl nibble_byte_labels]) (auto simp: upt_rec)
  also have "map ((!) (octets6 a)) [0..<16] = octets6 a"
    using map_nth [of "octets6 a"] by simp
  finally have "those (map (nibble_byte ?ls) [0..<16]) = Some (octets6 a)" .
  then show ?thesis
    unfolding extract_ip_from_name_def trim Let_def no4 extract_ip_v6_def
    using len split_join_with [OF ne nodot] by simp
qed

section \<open>Properties\<close>

text \<open>
  C18: the reverse-lookup name built for an address, IPv4 or IPv6, reads back as that address.
\<close>

theorem reverse_name_roundtrip: "extract_ip_from_name (reverse_ptr_name ip) = Some ip"
  by (cases ip) (simp_all add: extract_reverse_v4 extract_reverse_v6)

end
