(* ===== verification/Record_Kinds.thy ===== *)
theory Record_Kinds
  imports Addresses
begin

text \<open>
  The enumeration \<open>RecordKind\<close> of \<open>src/src/db.rs\<close> with its four encodings: the text stored in the
  database, the parser for it, the wire type number and the number of the gRPC message.
\<close>

section \<open>Record kinds\<close>

datatype RecordKind =
    A | AAAA | CNAME | MX | TXT | NS
  | SOA | SRV | PTR | URI | SSHFP | DNAME
  | ANAME | ZONEMD | TLSA | DNSKEY | DS | RRSIG
  | NSEC | NSEC3 | NSEC3PARAM | CERT | SVCB | HTTPS

fun as_str :: "RecordKind \<Rightarrow> string" where
  "as_str A = ''A''"
| "as_str AAAA = ''AAAA''"
| "as_str CNAME = ''CNAME''"
| "as_str MX = ''MX''"
| "as_str TXT = ''TXT''"
| "as_str NS = ''NS''"
| "as_str SOA = ''SOA''"
| "as_str SRV = ''SRV''"
| "as_str PTR = ''PTR''"
| "as_str URI = ''URI''"
| "as_str SSHFP = ''SSHFP''"
| "as_str DNAME = ''DNAME''"
| "as_str ANAME = ''ANAME''"
| "as_str ZONEMD = ''ZONEMD''"
| "as_str TLSA = ''TLSA''"
| "as_str DNSKEY = ''DNSKEY''"
| "as_str DS = ''DS''"
| "as_str RRSIG = ''RRSIG''"
| "as_str NSEC = ''NSEC''"
| "as_str NSEC3 = ''NSEC3''"
| "as_str NSEC3PARAM = ''NSEC3PARAM''"
| "as_str CERT = ''CERT''"
| "as_str SVCB = ''SVCB''"
| "as_str HTTPS = ''HTTPS''"

definition kind_names :: "(string \<times> RecordKind) list" where
  "kind_names =
     [(''A'', A), (''AAAA'', AAAA), (''CNAME'', CNAME), (''MX'', MX),
      (''TXT'', TXT), (''NS'', NS), (''SOA'', SOA), (''SRV'', SRV),
      (''PTR'', PTR), (''URI'', URI), (''SSHFP'', SSHFP), (''DNAME'', DNAME),
      (''ANAME'', ANAME), (''ZONEMD'', ZONEMD), (''TLSA'', TLSA), (''DNSKEY'', DNSKEY),
      (''DS'', DS), (''RRSIG'', RRSIG), (''NSEC'', NSEC), (''NSEC3'', NSEC3),
      (''NSEC3PARAM'', NSEC3PARAM), (''CERT'', CERT), (''SVCB'', SVCB), (''HTTPS'', HTTPS)]"

definition kind_parse :: "string \<Rightarrow> RecordKind option" where
  "kind_parse s = map_of kind_names (upper s)"

fun wire_type :: "RecordKind \<Rightarrow> u16" where
  "wire_type A = 1"
| "wire_type NS = 2"
| "wire_type CNAME = 5"
| "wire_type SOA = 6"
| "wire_type PTR = 12"
| "wire_type MX = 15"
| "wire_type TXT = 16"
| "wire_type AAAA = 28"
| "wire_type SRV = 33"
| "wire_type CERT = 37"
| "wire_type DNAME = 39"
| "wire_type DS = 43"
| "wire_type SSHFP = 44"
| "wire_type RRSIG = 46"
| "wire_type NSEC = 47"
| "wire_type DNSKEY = 48"
| "wire_type NSEC3 = 50"
| "wire_type NSEC3PARAM = 51"
| "wire_type TLSA = 52"
| "wire_type ZONEMD = 63"
| "wire_type SVCB = 64"
| "wire_type HTTPS = 65"
| "wire_type URI = 256"
| "wire_type ANAME = 65305"

fun to_proto_i32 :: "RecordKind \<Rightarrow> int" where
  "to_proto_i32 A = 0"
| "to_proto_i32 AAAA = 1"
| "to_proto_i32 CNAME = 2"
| "to_proto_i32 MX = 3"
| "to_proto_i32 TXT = 4"
| "to_proto_i32 NS = 5"
| "to_proto_i32 SOA = 6"
| "to_proto_i32 SRV = 7"
| "to_proto_i32 PTR = 8"
| "to_proto_i32 URI = 9"
| "to_proto_i32 SSHFP = 10"
| "to_proto_i32 DNAME = 11"
| "to_proto_i32 ANAME = 12"
| "to_proto_i32 ZONEMD = 13"
| "to_proto_i32 TLSA = 14"
| "to_proto_i32 DNSKEY = 15"
| "to_proto_i32 DS = 16"
| "to_proto_i32 RRSIG = 17"
| "to_proto_i32 NSEC = 18"
| "to_proto_i32 NSEC3 = 19"
| "to_proto_i32 NSEC3PARAM = 20"
| "to_proto_i32 CERT = 21"
| "to_proto_i32 SVCB = 22"
| "to_proto_i32 HTTPS = 23"

definition proto_kinds :: "(int \<times> RecordKind) list" where
  "proto_kinds =
     [(0, A), (1, AAAA), (2, CNAME), (3, MX), (4, TXT), (5, NS),
      (6, SOA), (7, SRV), (8, PTR), (9, URI), (10, SSHFP), (11, DNAME),
      (12, ANAME), (13, ZONEMD), (14, TLSA), (15, DNSKEY), (16, DS), (17, RRSIG),
      (18, NSEC), (19, NSEC3), (20, NSEC3PARAM), (21, CERT), (22, SVCB), (23, HTTPS)]"

definition from_proto_i32 :: "int \<Rightarrow> RecordKind option" where
  "from_proto_i32 v = map_of proto_kinds v"

definition is_zone_content :: "RecordKind \<Rightarrow> bool" where
  "is_zone_content kind \<longleftrightarrow> \<not> (kind = DNSKEY \<or> kind = NSEC \<or> kind = RRSIG)"

lemma kind_parse_as_str [simp]: "kind_parse (as_str k) = Some k"
  by (cases k) (simp_all add: kind_parse_def kind_names_def upper_def upper_char_def)

lemma from_proto_to_proto [simp]: "from_proto_i32 (to_proto_i32 k) = Some k"
  by (cases k) (simp_all add: from_proto_i32_def proto_kinds_def)

lemma as_str_inject [simp]: "as_str j = as_str k \<longleftrightarrow> j = k"
  by (metis kind_parse_as_str option.inject)

lemma wire_type_inject [simp]: "wire_type j = wire_type k \<longleftrightarrow> j = k"
  by (cases j; cases k) simp_all

lemma upper_as_str: "upper (as_str k) = as_str k"
  by (cases k) (simp_all add: upper_def upper_char_def)

lemma kind_names_sound: "(s, k) \<in> set kind_names \<Longrightarrow> s = as_str k"
  by (auto simp: kind_names_def)

lemma proto_kinds_sound: "(v, k) \<in> set proto_kinds \<Longrightarrow> v = to_proto_i32 k"
  by (auto simp: proto_kinds_def)

section \<open>Properties\<close>

text \<open>
  C22: the codes of a record kind are faithful: a stored or typed name parses to a kind exactly when
  it is that kind's name up to case, a message number exactly when it is that kind's number, and no
  two kinds share a wire type.
\<close>

theorem record_kind_codes:
  "(kind_parse s = Some k \<longleftrightarrow> upper s = as_str k)
   \<and> (from_proto_i32 v = Some k \<longleftrightarrow> v = to_proto_i32 k)
   \<and> (wire_type j = wire_type k \<longleftrightarrow> j = k)"
proof -
  have name: "map_of kind_names (as_str k) = Some k"
    using kind_parse_as_str [of k] unfolding kind_parse_def upper_as_str .
  have num: "map_of proto_kinds (to_proto_i32 k) = Some k"
    using from_proto_to_proto [of k] unfolding from_proto_i32_def .
  have "kind_parse s = Some k \<longleftrightarrow> upper s = as_str k"
    by (auto simp: kind_parse_def name dest!: map_of_SomeD kind_names_sound)
  moreover have "from_proto_i32 v = Some k \<longleftrightarrow> v = to_proto_i32 k"
    by (auto simp: from_proto_i32_def num dest!: map_of_SomeD proto_kinds_sound)
  ultimately show ?thesis by simp
qed

end
