(* ===== verification/Records.thy ===== *)
theory Records
  imports Record_Kinds
begin

text \<open>
  The global record table of \<open>src/src/db.rs\<close>, the signing keys, and the in-memory sets kept beside
  them: the managed zones derived from stored names, the authoritative zones, and the signed zones
  with the marks of those that must be signed again.  A SQL statement is a list operation on the
  table; a table is a list of rows in the order of their row numbers.  The statements have no \<open>ORDER BY\<close>:
  their rows come in the order in which SQLite walks the table or the index the schema declares for the
  \<open>WHERE\<close> clause, which is insertion order except for the lookup of a name without a type.
  Failures of the SQLite connection itself are not modelled.
\<close>

section \<open>Records, rows and the database state\<close>

record dns_record =
  dr_id :: "int option"
  dr_name :: string
  dr_type :: RecordKind
  dr_value :: string
  dr_ttl :: u32
  dr_priority :: u32

record dns_row =
  row_id :: int
  row_name :: string
  row_type :: string
  row_value :: string
  row_ttl :: u32
  row_priority :: u32

record lookup_result =
  lr_exact :: "dns_record list"
  lr_wildcard :: "dns_record list"
  lr_cname :: "dns_record list"
  lr_aname :: "dns_record list"

text \<open>
  The part of \<open>Database\<close> that concerns global records: the table \<open>dns_records\<close> with its
  \<open>AUTOINCREMENT\<close> counter, the tables \<open>authoritative_zones\<close> and \<open>dnssec_keys\<close>, and the caches
  \<open>managed_zones_cache\<close>, \<open>authoritative_zones_cache\<close>, \<open>signed_zones_cache\<close>, \<open>resign_pending\<close> and
  \<open>resign_active\<close>.
\<close>

record dnssec_key =
  key_id :: int
  key_zone :: string
  key_scope :: "string option"
  key_algorithm :: string
  key_type :: string
  key_private :: "u8 list"
  key_public :: "u8 list"
  key_tag :: u16
  key_created_at :: int
  key_active :: bool

record records_db =
  dns_records :: "dns_row list"
  next_rowid :: int
  auth_rows :: "string list"
  dnssec_keys :: "dnssec_key list"
  next_keyid :: int
  managed_zones :: "string set"
  auth_zones :: "string set"
  signed_zones :: "string set"
  resign_pending :: "string set"
  resign_active :: "string set"

definition empty_records_db :: records_db where
  "empty_records_db =
     \<lparr>dns_records = [], next_rowid = 1, auth_rows = [], dnssec_keys = [],
      next_keyid = 1, managed_zones = {}, auth_zones = {},
      signed_zones = {}, resign_pending = {}, resign_active = {}\<rparr>"

definition row_mapper :: "dns_row \<Rightarrow> dns_record" where
  "row_mapper r =
     \<lparr>dr_id = Some (row_id r), dr_name = row_name r,
      dr_type = (case kind_parse (row_type r) of Some k \<Rightarrow> k | None \<Rightarrow> A),
      dr_value = row_value r, dr_ttl = row_ttl r, dr_priority = row_priority r\<rparr>"

section \<open>Signed-zone bookkeeping\<close>

definition mark_zone_resign_pending :: "string \<Rightarrow> 'a records_db_scheme \<Rightarrow> 'a records_db_scheme" where
  "mark_zone_resign_pending name db =
     (case find_signed_zone (signed_zones db) name of
        Some zone \<Rightarrow> db\<lparr>resign_pending := insert zone (resign_pending db)\<rparr>
      | None \<Rightarrow> db)"

definition zone_signatures_stale :: "'a records_db_scheme \<Rightarrow> string \<Rightarrow> bool" where
  "zone_signatures_stale db name =
     (case find_signed_zone (signed_zones db) name of
        Some zone \<Rightarrow> zone \<in> resign_pending db \<or> zone \<in> resign_active db
      | None \<Rightarrow> False)"

definition clear_zone_resign_pending :: "string \<Rightarrow> 'a records_db_scheme \<Rightarrow> 'a records_db_scheme" where
  "clear_zone_resign_pending zone db =
     db\<lparr>resign_pending := resign_pending db - {normalize_name zone}\<rparr>"

definition force_zone_resign_pending :: "string \<Rightarrow> 'a records_db_scheme \<Rightarrow> 'a records_db_scheme" where
  "force_zone_resign_pending zone db =
     db\<lparr>resign_pending := insert (normalize_name zone) (resign_pending db)\<rparr>"

definition mark_all_signed_zones_pending :: "'a records_db_scheme \<Rightarrow> 'a records_db_scheme" where
  "mark_all_signed_zones_pending db = db\<lparr>resign_pending := resign_pending db \<union> signed_zones db\<rparr>"

definition begin_zone_resign :: "string \<Rightarrow> 'a records_db_scheme \<Rightarrow> 'a records_db_scheme" where
  "begin_zone_resign zone db = db\<lparr>resign_active := insert (normalize_name zone) (resign_active db)\<rparr>"

definition end_zone_resign :: "string \<Rightarrow> 'a records_db_scheme \<Rightarrow> 'a records_db_scheme" where
  "end_zone_resign zone db = db\<lparr>resign_active := resign_active db - {normalize_name zone}\<rparr>"

section \<open>Signing keys\<close>

definition active_key_zones :: "dnssec_key list \<Rightarrow> string list" where
  "active_key_zones ks = map (\<lambda>k. normalize_name (key_zone k)) (filter key_active ks)"

definition refresh_signed_zones :: "'a records_db_scheme \<Rightarrow> 'a records_db_scheme" where
  "refresh_signed_zones db =
     (let zones = active_key_zones (dnssec_keys db);
          added = signed_zones db \<union> set zones
      in db\<lparr>signed_zones := Set.filter (\<lambda>z. z \<in> set zones) added\<rparr>)"

definition store_dnssec_key ::
  "int \<Rightarrow> string \<Rightarrow> string \<Rightarrow> string \<Rightarrow> string \<Rightarrow> u8 list \<Rightarrow> u8 list \<Rightarrow> u16
    \<Rightarrow> 'a records_db_scheme \<Rightarrow> int \<times> 'a records_db_scheme" where
  "store_dnssec_key now zone scope algorithm kt priv pub tag db =
     (let normalized = normalize_name zone;
          row = \<lparr>key_id = next_keyid db, key_zone = normalized,
                 key_scope = (if scope = [] then None else Some scope), key_algorithm = algorithm,
                 key_type = kt, key_private = priv, key_public = pub, key_tag = tag,
                 key_created_at = now, key_active = True\<rparr>
      in (next_keyid db,
          db\<lparr>dnssec_keys := dnssec_keys db @ [row], next_keyid := next_keyid db + 1,
             signed_zones := insert normalized (signed_zones db),
             resign_pending := insert normalized (resign_pending db)\<rparr>))"

definition list_dnssec_keys :: "'a records_db_scheme \<Rightarrow> string \<Rightarrow> dnssec_key list" where
  "list_dnssec_keys db zone = filter (\<lambda>k. key_zone k = normalize_name zone) (dnssec_keys db)"

definition get_active_keys :: "'a records_db_scheme \<Rightarrow> string \<Rightarrow> string \<Rightarrow> dnssec_key list" where
  "get_active_keys db zone kt =
     filter (\<lambda>k. key_zone k = normalize_name zone \<and> key_type k = kt \<and> key_active k) (dnssec_keys db)"

definition delete_dnssec_key :: "int \<Rightarrow> 'a records_db_scheme \<Rightarrow> bool \<times> 'a records_db_scheme" where
  "delete_dnssec_key i db =
     (let keep = filter (\<lambda>k. key_id k \<noteq> i) (dnssec_keys db);
          count = length (dnssec_keys db) - length keep;
          db1 = db\<lparr>dnssec_keys := keep\<rparr>
      in (count > 0,
          if count > 0 then mark_all_signed_zones_pending (refresh_signed_zones db1) else db1))"

section \<open>Adding and removing records\<close>

definition cache_managed_zone :: "string \<Rightarrow> string set \<Rightarrow> string set" where
  "cache_managed_zone name zones =
     (case extract_zone_from_name name of Some z \<Rightarrow> insert z zones | None \<Rightarrow> zones)"

definition add_record :: "dns_record \<Rightarrow> 'a records_db_scheme \<Rightarrow> int \<times> 'a records_db_scheme" where
  "add_record r db =
     (let normalized = normalize_name (dr_name r);
          row = \<lparr>row_id = next_rowid db, row_name = normalized, row_type = as_str (dr_type r),
                 row_value = dr_value r, row_ttl = dr_ttl r, row_priority = dr_priority r\<rparr>;
          db1 = db\<lparr>dns_records := dns_records db @ [row], next_rowid := next_rowid db + 1,
                   managed_zones := cache_managed_zone normalized (managed_zones db)\<rparr>;
          db2 = (if is_zone_content (dr_type r) then mark_zone_resign_pending normalized db1 else db1)
      in (next_rowid db, db2))"

definition zone_has_records_conn :: "dns_row list \<Rightarrow> string \<Rightarrow> bool" where
  "zone_has_records_conn rows zone =
     (let pattern = [dot] @ like_escape zone
      in list_ex (\<lambda>r. row_name r = zone
           \<or> sql_like (Some backslash) (CHR ''%'' # pattern) (row_name r)) rows)"

definition zone_has_records :: "'a records_db_scheme \<Rightarrow> string \<Rightarrow> bool" where
  "zone_has_records db zone = zone_has_records_conn (dns_records db) (normalize_name zone)"

text \<open>The \<open>WHERE\<close> clause of the four \<open>DELETE\<close> statements of \<open>remove_records\<close>.\<close>

definition delete_matches :: "string \<Rightarrow> RecordKind option \<Rightarrow> string \<Rightarrow> dns_row \<Rightarrow> bool" where
  "delete_matches normalized record_type val r =
     (case record_type of
        Some rt \<Rightarrow>
          if val = [] then row_name r = normalized \<and> row_type r = as_str rt
          else row_name r = normalized \<and> row_type r = as_str rt \<and> row_value r = val
      | None \<Rightarrow>
          if val = [] then row_name r = normalized
          else row_name r = normalized \<and> row_value r = val)"

definition remove_records ::
  "string \<Rightarrow> RecordKind option \<Rightarrow> string \<Rightarrow> 'a records_db_scheme \<Rightarrow> nat \<times> 'a records_db_scheme" where
  "remove_records name record_type val db =
     (let normalized = normalize_name name;
          keep = filter (\<lambda>r. \<not> delete_matches normalized record_type val r) (dns_records db);
          count = length (dns_records db) - length keep;
          db1 = db\<lparr>dns_records := keep\<rparr>;
          db2 = (if count > 0
                 then (case extract_zone_from_name normalized of
                         Some zone \<Rightarrow>
                           if \<not> zone_has_records_conn keep zone
                           then db1\<lparr>managed_zones := managed_zones db1 - {zone}\<rparr> else db1
                       | None \<Rightarrow> db1)
                 else db1);
          db3 = (if count > 0 \<and> (case record_type of Some rt \<Rightarrow> is_zone_content rt | None \<Rightarrow> True)
                 then mark_zone_resign_pending normalized db2 else db2)
      in (count, db3))"

section \<open>Lookups\<close>

text \<open>
  The rows of one name in the order of \<open>idx_dns_name_type\<close> on \<open>(name, record_type)\<close>: by the text of the type,
  rows of one type by row number.
\<close>

definition by_record_type :: "dns_row list \<Rightarrow> dns_row list" where
  "by_record_type rows = sort_key row_type rows"

definition lookup_exact :: "dns_row list \<Rightarrow> string \<Rightarrow> RecordKind option \<Rightarrow> dns_record list" where
  "lookup_exact rows normalized record_type =
     (case record_type of
        Some rt \<Rightarrow> map row_mapper (filter (\<lambda>r. row_name r = normalized \<and> row_type r = as_str rt) rows)
      | None \<Rightarrow> map row_mapper (by_record_type (filter (\<lambda>r. row_name r = normalized) rows)))"

definition lookup_no_wildcard :: "'a records_db_scheme \<Rightarrow> string \<Rightarrow> RecordKind option \<Rightarrow> dns_record list" where
  "lookup_no_wildcard db name record_type = lookup_exact (dns_records db) (normalize_name name) record_type"

definition lookup :: "'a records_db_scheme \<Rightarrow> string \<Rightarrow> RecordKind option \<Rightarrow> dns_record list" where
  "lookup db name record_type =
     (let normalized = normalize_name name;
          records = lookup_exact (dns_records db) normalized record_type
      in if records = []
         then (case make_wildcard_name normalized of
                 Some wildcard_name \<Rightarrow>
                   (let wildcard_records = lookup_exact (dns_records db) wildcard_name record_type
                    in if wildcard_records \<noteq> []
                       then map (\<lambda>r. r\<lparr>dr_name := normalized\<rparr>) wildcard_records
                       else records)
               | None \<Rightarrow> records)
         else records)"

definition lookup_with_fallbacks :: "'a records_db_scheme \<Rightarrow> string \<Rightarrow> RecordKind \<Rightarrow> lookup_result" where
  "lookup_with_fallbacks db name record_type =
     (let normalized = normalize_name name;
          wildcard_name = (case make_wildcard_name normalized of Some w \<Rightarrow> w | None \<Rightarrow> []);
          rows = dns_records db;
          sel = (\<lambda>n t. map row_mapper (filter (\<lambda>r. row_name r = n \<and> row_type r = t) rows))
      in \<lparr>lr_exact = sel normalized (as_str record_type),
          lr_wildcard = map (\<lambda>r. r\<lparr>dr_name := normalized\<rparr>) (sel wildcard_name (as_str record_type)),
          lr_cname = sel normalized ''CNAME'',
          lr_aname = sel normalized ''ANAME''\<rparr>)"

definition wildcard_owner_for :: "'a records_db_scheme \<Rightarrow> string \<Rightarrow> string option" where
  "wildcard_owner_for db name =
     (case make_wildcard_name (normalize_name name) of
        None \<Rightarrow> None
      | Some wildcard \<Rightarrow>
          if lookup_exact (dns_records db) wildcard None \<noteq> [] then Some wildcard else None)"

definition name_occupied :: "'a records_db_scheme \<Rightarrow> string \<Rightarrow> bool" where
  "name_occupied db name = zone_has_records_conn (dns_records db) (normalize_name name)"

definition closest_soa :: "'a records_db_scheme \<Rightarrow> string \<Rightarrow> dns_record list" where
  "closest_soa db name =
     (case find_map (\<lambda>candidate.
              (let found = lookup_exact (dns_records db) candidate (Some SOA)
               in if found \<noteq> [] then Some found else None))
            (ancestor_names (normalize_name name)) of
        Some found \<Rightarrow> found
      | None \<Rightarrow> [])"

definition zone_nsec_records :: "'a records_db_scheme \<Rightarrow> string \<Rightarrow> dns_record list" where
  "zone_nsec_records db zone =
     (let apex = normalize_name zone; pattern = ''%.'' @ like_escape apex
      in map row_mapper (filter (\<lambda>r. row_type r = ''NSEC''
           \<and> (row_name r = apex \<or> sql_like (Some backslash) pattern (row_name r))) (dns_records db)))"

text \<open>
  \<open>list_records\<close> with \<open>build_list_query\<close>: its \<open>LIKE\<close> has no \<open>ESCAPE\<close> clause and no leading dot.  Only the
  condition on an exact name goes through the index; the others scan the table.
\<close>

definition name_filter_matches :: "string \<Rightarrow> dns_row \<Rightarrow> bool" where
  "name_filter_matches name_filter r =
     (case strip_prefix ''*.'' name_filter of
        Some sfx \<Rightarrow> sql_like None (CHR ''%'' # normalize_name sfx) (row_name r)
      | None \<Rightarrow> row_name r = normalize_name name_filter)"

definition list_records :: "'a records_db_scheme \<Rightarrow> string \<Rightarrow> RecordKind option \<Rightarrow> dns_record list" where
  "list_records db name_filter record_type =
     (let rows = filter (\<lambda>r.
            (name_filter = [] \<or> name_filter_matches name_filter r)
            \<and> (case record_type of Some rt \<Rightarrow> row_type r = as_str rt | None \<Rightarrow> True)) (dns_records db)
      in map row_mapper
           (if name_filter = [] \<or> strip_prefix ''*.'' name_filter \<noteq> None then rows else by_record_type rows))"

section \<open>Authoritative zones\<close>

definition add_authoritative_zone :: "string \<Rightarrow> 'a records_db_scheme \<Rightarrow> 'a records_db_scheme" where
  "add_authoritative_zone zone db =
     (let normalized = normalize_name zone
      in db\<lparr>auth_rows := List.insert normalized (auth_rows db),
            auth_zones := insert normalized (auth_zones db)\<rparr>)"

definition remove_authoritative_zone :: "string \<Rightarrow> 'a records_db_scheme \<Rightarrow> bool \<times> 'a records_db_scheme" where
  "remove_authoritative_zone zone db =
     (let normalized = normalize_name zone;
          count = length (filter (\<lambda>z. z = normalized) (auth_rows db));
          db1 = db\<lparr>auth_rows := removeAll normalized (auth_rows db)\<rparr>
      in (count > 0, if count > 0 then db1\<lparr>auth_zones := auth_zones db1 - {normalized}\<rparr> else db1))"

definition find_managed_zone :: "'a records_db_scheme \<Rightarrow> string \<Rightarrow> string option" where
  "find_managed_zone db name = find_zone (managed_zones db) name"

definition find_authoritative_zone :: "'a records_db_scheme \<Rightarrow> string \<Rightarrow> string option" where
  "find_authoritative_zone db name = find_zone (auth_zones db) name"

definition is_authoritative_zone :: "'a records_db_scheme \<Rightarrow> string \<Rightarrow> bool" where
  "is_authoritative_zone db name =
     (let normalized = normalize_name name
      in matches_zone_suffix normalized (auth_zones db) \<or> matches_zone_suffix normalized (managed_zones db))"

text \<open>What \<open>load_caches_at_boot\<close> derives from the tables of this component.\<close>

definition boot_managed_zones :: "dns_row list \<Rightarrow> string set" where
  "boot_managed_zones rows =
     fold (\<lambda>name zones. cache_managed_zone name zones) (remdups (map row_name rows)) {}"

definition boot_records :: "'a records_db_scheme \<Rightarrow> 'a records_db_scheme" where
  "boot_records db =
     (let zones = active_key_zones (dnssec_keys db)
      in db\<lparr>auth_zones := set (auth_rows db), managed_zones := boot_managed_zones (dns_records db),
            signed_zones := set zones, resign_pending := set zones, resign_active := {}\<rparr>)"

section \<open>Operations as steps\<close>

datatype records_op =
    AddRecord dns_record
  | RemoveRecords string "RecordKind option" string
  | AddAuthoritativeZone string
  | RemoveAuthoritativeZone string
  | StoreKey int string string string string "u8 list" "u8 list" u16
  | DeleteKey int
  | ClearResignPending string
  | ForceResignPending string
  | MarkAllPending
  | BeginResign string
  | EndResign string

fun records_exec :: "records_op \<Rightarrow> 'a records_db_scheme \<Rightarrow> 'a records_db_scheme" where
  "records_exec (AddRecord r) db = snd (add_record r db)"
| "records_exec (RemoveRecords n t v) db = snd (remove_records n t v db)"
| "records_exec (AddAuthoritativeZone z) db = add_authoritative_zone z db"
| "records_exec (RemoveAuthoritativeZone z) db = snd (remove_authoritative_zone z db)"
| "records_exec (StoreKey now z sc a kt priv pub tag) db =
     snd (store_dnssec_key now z sc a kt priv pub tag db)"
| "records_exec (DeleteKey i) db = snd (delete_dnssec_key i db)"
| "records_exec (ClearResignPending z) db = clear_zone_resign_pending z db"
| "records_exec (ForceResignPending z) db = force_zone_resign_pending z db"
| "records_exec MarkAllPending db = mark_all_signed_zones_pending db"
| "records_exec (BeginResign z) db = begin_zone_resign z db"
| "records_exec (EndResign z) db = end_zone_resign z db"

abbreviation records_run :: "records_op list \<Rightarrow> 'a records_db_scheme \<Rightarrow> 'a records_db_scheme" where
  "records_run ops db \<equiv> fold records_exec ops db"

definition stored_rows :: "dns_row list \<Rightarrow> int \<Rightarrow> bool" where
  "stored_rows rows next \<longleftrightarrow>
     distinct (map row_id rows)
     \<and> (\<forall>r\<in>set rows. normalize_name (row_name r) = row_name r \<and> row_type r \<in> range as_str
          \<and> row_id r < next)"

definition records_inv :: "'a records_db_scheme \<Rightarrow> bool" where
  "records_inv db \<longleftrightarrow>
     stored_rows (dns_records db) (next_rowid db)
     \<and> distinct (auth_rows db) \<and> auth_zones db = set (auth_rows db)
     \<and> signed_zones db = set (active_key_zones (dnssec_keys db))"

lemmas records_op_defs =
  add_record_def remove_records_def add_authoritative_zone_def remove_authoritative_zone_def
  store_dnssec_key_def delete_dnssec_key_def clear_zone_resign_pending_def
  force_zone_resign_pending_def mark_all_signed_zones_pending_def begin_zone_resign_def
  end_zone_resign_def refresh_signed_zones_def mark_zone_resign_pending_def

lemma mark_zone_resign_pending_keeps [simp]:
  "dns_records (mark_zone_resign_pending n db) = dns_records db"
  "next_rowid (mark_zone_resign_pending n db) = next_rowid db"
  "auth_rows (mark_zone_resign_pending n db) = auth_rows db"
  "dnssec_keys (mark_zone_resign_pending n db) = dnssec_keys db"
  "next_keyid (mark_zone_resign_pending n db) = next_keyid db"
  "managed_zones (mark_zone_resign_pending n db) = managed_zones db"
  "auth_zones (mark_zone_resign_pending n db) = auth_zones db"
  "signed_zones (mark_zone_resign_pending n db) = signed_zones db"
  "resign_active (mark_zone_resign_pending n db) = resign_active db"
  by (simp_all add: mark_zone_resign_pending_def split: option.split)

lemma mark_zone_resign_pending_mono:
  "resign_pending db \<subseteq> resign_pending (mark_zone_resign_pending n db)"
  by (auto simp: mark_zone_resign_pending_def split: option.split)

lemma mark_zone_resign_pending_marks:
  "find_signed_zone (signed_zones db) n = Some z \<Longrightarrow>
    z \<in> resign_pending (mark_zone_resign_pending n db)"
  by (simp add: mark_zone_resign_pending_def)

lemma remove_records_keeps [simp]:
  "dns_records (snd (remove_records n t v db)) =
     filter (\<lambda>r. \<not> delete_matches (normalize_name n) t v r) (dns_records db)"
  "next_rowid (snd (remove_records n t v db)) = next_rowid db"
  "auth_rows (snd (remove_records n t v db)) = auth_rows db"
  "dnssec_keys (snd (remove_records n t v db)) = dnssec_keys db"
  "auth_zones (snd (remove_records n t v db)) = auth_zones db"
  "signed_zones (snd (remove_records n t v db)) = signed_zones db"
  by (simp_all add: remove_records_def Let_def split: option.split)

lemma remove_records_pending_mono:
  "resign_pending db \<subseteq> resign_pending (snd (remove_records n t v db))"
  using mark_zone_resign_pending_mono
  by (fastforce simp: remove_records_def Let_def split: option.split)

lemma add_record_keeps [simp]:
  "fst (add_record r db) = next_rowid db"
  "next_rowid (snd (add_record r db)) = next_rowid db + 1"
  "auth_rows (snd (add_record r db)) = auth_rows db"
  "dnssec_keys (snd (add_record r db)) = dnssec_keys db"
  "auth_zones (snd (add_record r db)) = auth_zones db"
  "signed_zones (snd (add_record r db)) = signed_zones db"
  "managed_zones (snd (add_record r db)) =
     cache_managed_zone (normalize_name (dr_name r)) (managed_zones db)"
  by (simp_all add: add_record_def Let_def)

lemma add_record_rows [simp]:
  "dns_records (snd (add_record r db)) = dns_records db @
     [\<lparr>row_id = next_rowid db, row_name = normalize_name (dr_name r), row_type = as_str (dr_type r),
       row_value = dr_value r, row_ttl = dr_ttl r, row_priority = dr_priority r\<rparr>]"
  by (simp add: add_record_def Let_def)

lemma add_record_pending_mono: "resign_pending db \<subseteq> resign_pending (snd (add_record r db))"
  using mark_zone_resign_pending_mono by (fastforce simp: add_record_def Let_def)

lemma stored_rows_append:
  "stored_rows rows n \<Longrightarrow> normalize_name (row_name r) = row_name r \<Longrightarrow> row_type r \<in> range as_str \<Longrightarrow>
    row_id r = n \<Longrightarrow> stored_rows (rows @ [r]) (n + 1)"
  by (fastforce simp: stored_rows_def)

lemma stored_rows_filter: "stored_rows rows n \<Longrightarrow> stored_rows (filter P rows) n"
  by (auto simp: stored_rows_def distinct_map_filter)

lemma records_inv_empty: "records_inv empty_records_db"
  by (simp add: records_inv_def stored_rows_def empty_records_db_def active_key_zones_def)

lemma length_filter_eq_iff: "length (filter P xs) = length xs \<longleftrightarrow> (\<forall>x\<in>set xs. P x)"
  by (metis filter_True filter_id_conv length_filter_less nat_neq_iff)

lemma delete_dnssec_key_simps [simp]:
  "dnssec_keys (snd (delete_dnssec_key i db)) = filter (\<lambda>k. key_id k \<noteq> i) (dnssec_keys db)"
  "dns_records (snd (delete_dnssec_key i db)) = dns_records db"
  "next_rowid (snd (delete_dnssec_key i db)) = next_rowid db"
  "auth_rows (snd (delete_dnssec_key i db)) = auth_rows db"
  "auth_zones (snd (delete_dnssec_key i db)) = auth_zones db"
  "managed_zones (snd (delete_dnssec_key i db)) = managed_zones db"
  by (simp_all add: delete_dnssec_key_def refresh_signed_zones_def mark_all_signed_zones_pending_def Let_def)

lemma delete_dnssec_key_signed:
  assumes "signed_zones db = set (active_key_zones (dnssec_keys db))"
  shows "signed_zones (snd (delete_dnssec_key i db)) =
    set (active_key_zones (filter (\<lambda>k. key_id k \<noteq> i) (dnssec_keys db)))"
proof (cases "\<forall>k\<in>set (dnssec_keys db). key_id k \<noteq> i")
  case True
  then have "filter (\<lambda>k. key_id k \<noteq> i) (dnssec_keys db) = dnssec_keys db" by simp
  then show ?thesis
    using assms by (simp add: delete_dnssec_key_def Let_def)
next
  case False
  then have "length (filter (\<lambda>k. key_id k \<noteq> i) (dnssec_keys db)) < length (dnssec_keys db)"
    by (auto intro: length_filter_less)
  then show ?thesis
    by (auto simp: delete_dnssec_key_def refresh_signed_zones_def mark_all_signed_zones_pending_def
        Let_def)
qed

lemma records_inv_exec:
  assumes "records_inv db"
  shows "records_inv (records_exec op db)"
proof (cases op)
  case (AddRecord r)
  then show ?thesis
    using assms by (auto simp: records_inv_def intro!: stored_rows_append)
next
  case (RemoveRecords n t v)
  then show ?thesis
    using assms by (auto simp: records_inv_def stored_rows_filter)
next
  case (DeleteKey i)
  then show ?thesis
    using assms by (auto simp: records_inv_def delete_dnssec_key_signed)
qed (use assms in \<open>auto simp: records_inv_def records_op_defs active_key_zones_def Let_def
       distinct_removeAll filter_empty_conv\<close>)

lemma records_inv_run: "records_inv db \<Longrightarrow> records_inv (records_run ops db)"
  by (induction ops arbitrary: db) (auto simp: records_inv_exec)

section \<open>Signatures after a mutation\<close>

text \<open>Only \<open>clear_zone_resign_pending\<close> takes a mark away.\<close>

definition clears :: "string \<Rightarrow> records_op \<Rightarrow> bool" where
  "clears z op = (case op of ClearResignPending y \<Rightarrow> normalize_name y = z | _ \<Rightarrow> False)"

lemma pending_exec:
  assumes "z \<in> resign_pending db" "\<not> clears z op"
  shows "z \<in> resign_pending (records_exec op db)"
proof (cases op)
  case (AddRecord r)
  then show ?thesis using assms add_record_pending_mono [of db r] by auto
next
  case (RemoveRecords n t v)
  then show ?thesis using assms remove_records_pending_mono [of db n t v] by auto
qed (use assms in \<open>auto simp: records_op_defs clears_def Let_def\<close>)

lemma pending_run:
  "z \<in> resign_pending db \<Longrightarrow> list_all (\<lambda>op. \<not> clears z op) ops \<Longrightarrow>
    z \<in> resign_pending (records_run ops db)"
  by (induction ops arbitrary: db) (auto simp: pending_exec)

lemma add_record_marks:
  assumes "is_zone_content (dr_type r)" "find_signed_zone (signed_zones db) (dr_name r) = Some z"
  shows "z \<in> resign_pending (snd (add_record r db))"
proof -
  have "find_signed_zone (signed_zones db) (normalize_name (dr_name r)) = Some z"
    using assms(2) by (simp add: find_signed_zone_def)
  then show ?thesis
    using assms(1) by (auto simp: add_record_def Let_def intro: mark_zone_resign_pending_marks)
qed

lemma remove_records_marks:
  assumes "fst (remove_records n t v db) > 0"
    and "case t of Some rt \<Rightarrow> is_zone_content rt | None \<Rightarrow> True"
    and "find_signed_zone (signed_zones db) n = Some z"
  shows "z \<in> resign_pending (snd (remove_records n t v db))"
proof -
  have "find_signed_zone (signed_zones db) (normalize_name n) = Some z"
    using assms(3) by (simp add: find_signed_zone_def)
  then show ?thesis
    using assms(1,2)
    by (auto simp: remove_records_def Let_def intro!: mark_zone_resign_pending_marks split: option.splits)
qed

section \<open>The managed-zone cache\<close>

lemma cache_managed_zone_eq:
  "cache_managed_zone n zones = zones \<union> {z. extract_zone_from_name n = Some z}"
  by (auto simp: cache_managed_zone_def split: option.splits)

lemma boot_managed_zones_eq:
  "boot_managed_zones rows = {z. \<exists>r\<in>set rows. extract_zone_from_name (row_name r) = Some z}"
proof -
  have "fold cache_managed_zone ns zs = zs \<union> {z. \<exists>n\<in>set ns. extract_zone_from_name n = Some z}"
    for ns zs
    by (induction ns arbitrary: zs) (auto simp: cache_managed_zone_eq)
  then show ?thesis by (auto simp: boot_managed_zones_def)
qed

text \<open>Names every label of which is non-empty, with at least \<open>k\<close> labels.\<close>

definition proper_name :: "nat \<Rightarrow> string \<Rightarrow> bool" where
  "proper_name k n \<longleftrightarrow>
     wf_labels (name_labels (normalize_name n)) \<and> length (name_labels (normalize_name n)) \<ge> k
     \<and> fqdn (name_labels (normalize_name n)) = normalize_name n"

lemma proper_name_labels:
  assumes "proper_name k n"
  obtains ls where "wf_labels ls" "length ls \<ge> k" "map lower ls = ls" "normalize_name n = fqdn ls"
proof -
  let ?ls = "name_labels (normalize_name n)"
  have p: "wf_labels ?ls" "length ?ls \<ge> k" "fqdn ?ls = normalize_name n"
    using assms by (auto simp: proper_name_def)
  have "fqdn (map lower ?ls) = fqdn ?ls"
    unfolding p(3) lower_fqdn [symmetric] by simp
  moreover have "wf_labels (map lower ?ls)"
    using p(1) by (auto simp: wf_labels_def)
  ultimately have "map lower ?ls = ?ls"
    using name_labels_fqdn p(1) by metis
  then show ?thesis using that p by metis
qed

lemma zone_has_records_conn_iff:
  assumes "\<forall>r\<in>set rows. normalize_name (row_name r) = row_name r"
    and "normalize_name z = z" "z \<noteq> [dot]"
  shows "zone_has_records_conn rows z \<longleftrightarrow> (\<exists>r\<in>set rows. name_in_zone (row_name r) z)"
  using assms
  by (auto simp: zone_has_records_conn_def list_ex_iff sql_like_name_in_zone)

lemma extract_zone_normal: "extract_zone_from_name (normalize_name n) = extract_zone_from_name n"
  by (simp add: extract_zone_from_name_def)

lemma extract_zone_proper:
  assumes "wf_labels ls" "map lower ls = ls" "extract_zone_from_name (fqdn ls) = Some z"
  obtains zs where "z = fqdn zs" "wf_labels zs" "map lower zs = zs" "zs = drop (length ls - 2) ls"
    "\<not> reverse_labels ls"
proof -
  have "z = fqdn (drop (length ls - 2) ls)" "\<not> reverse_labels ls"
    using assms by (auto simp: extract_zone_labels Let_def split: if_splits)
  moreover have "wf_labels (drop (length ls - 2) ls)"
    using wf_labels_suffix [OF assms(1) suffix_drop] drop_last_two_neq wf_labels_ne [OF assms(1)]
    by blast
  moreover have "map lower (drop (length ls - 2) ls) = drop (length ls - 2) ls"
    using assms(2) by (simp add: drop_map [symmetric])
  ultimately show ?thesis using that by blast
qed

lemma drop_two_unique:
  assumes "suffix zs ls" "length zs = 2"
  shows "drop (length ls - 2) ls = zs"
  using assms by (auto simp: suffix_def)

text \<open>Below a two-label zone, and only there, does the heuristic yield that zone.\<close>

lemma extract_zone_iff:
  assumes ls: "wf_labels ls" "map lower ls = ls"
    and ms: "wf_labels ms" "map lower ms = ms" "length ms \<ge> 2"
    and z: "extract_zone_from_name (fqdn ls) = Some z" "length ls \<ge> 2"
  shows "extract_zone_from_name (fqdn ms) = Some z \<longleftrightarrow> name_in_zone (fqdn ms) z"
proof -
  obtain zs where zs: "z = fqdn zs" "wf_labels zs" "map lower zs = zs" "zs = drop (length ls - 2) ls"
    "\<not> reverse_labels ls"
    using extract_zone_proper [OF ls z(1)] .
  have len: "length zs = 2" using zs(4) z(2) by simp
  show ?thesis
  proof
    assume "extract_zone_from_name (fqdn ms) = Some z"
    then show "name_in_zone (fqdn ms) z" using ms(1) extract_zone_encloses by blast
  next
    assume "name_in_zone (fqdn ms) z"
    then have suf: "suffix zs ms"
      using name_in_zone_labels [OF ms(1) zs(2)] ms(2) zs(1,3) by simp
    have d: "drop (length ms - 2) ms = zs" by (rule drop_two_unique [OF suf len])
    have "\<not> reverse_labels ms"
    proof
      assume "reverse_labels ms"
      then have "zs = rev_in_addr \<or> zs = rev_ip6"
        unfolding reverse_labels_def using d drop_two_unique [of rev_in_addr ms] drop_two_unique [of rev_ip6 ms]
        by (auto simp: rev_in_addr_def rev_ip6_def)
      moreover have "suffix zs ls" unfolding zs(4) by (rule suffix_drop)
      ultimately show False using zs(5) by (auto simp: reverse_labels_def)
    qed
    then show "extract_zone_from_name (fqdn ms) = Some z"
      using ms d zs(1) by (simp add: extract_zone_labels Let_def)
  qed
qed

definition managed_exact :: "'a records_db_scheme \<Rightarrow> bool" where
  "managed_exact db \<longleftrightarrow>
     managed_zones db = boot_managed_zones (dns_records db)
     \<and> (\<forall>r\<in>set (dns_records db). proper_name 2 (row_name r))"

lemma delete_matches_name: "delete_matches n t v r \<Longrightarrow> row_name r = n"
  by (auto simp: delete_matches_def split: option.splits if_splits)

lemma remove_records_managed:
  "managed_zones (snd (remove_records n t v db)) =
    (let keep = filter (\<lambda>r. \<not> delete_matches (normalize_name n) t v r) (dns_records db)
     in managed_zones db -
          {z. length keep < length (dns_records db) \<and> extract_zone_from_name n = Some z
              \<and> \<not> zone_has_records_conn keep z})"
  by (auto simp: remove_records_def Let_def extract_zone_normal split: option.splits)

lemma proper_name_normal: "proper_name k (normalize_name n) = proper_name k n"
  by (simp add: proper_name_def)

lemma boot_managed_keep:
  assumes "\<forall>r\<in>set rows. normalize_name (row_name r) = row_name r \<and> proper_name 2 (row_name r)"
    and "q \<in> set rows" "row_name q = normalize_name n" "extract_zone_from_name n = Some z"
  shows "zone_has_records_conn (filter P rows) z \<longleftrightarrow> z \<in> boot_managed_zones (filter P rows)"
proof -
  have "proper_name 2 (normalize_name n)"
    using assms(1,2,3) by auto
  then obtain ls where ls: "wf_labels ls" "length ls \<ge> 2" "map lower ls = ls" "normalize_name n = fqdn ls"
    using proper_name_labels unfolding proper_name_normal by blast
  have ez: "extract_zone_from_name (fqdn ls) = Some z"
    using assms(4) ls(4) extract_zone_normal by metis
  obtain zs where zs: "z = fqdn zs" "wf_labels zs" "map lower zs = zs"
    using extract_zone_proper [OF ls(1,3) ez] by metis
  have root: "z \<noteq> [dot]"
    using zs(1,2) by (cases zs) (auto simp: wf_labels_def append_eq_Cons_conv)
  have nz: "normalize_name z = z"
    using zs wf_labels_ne normalize_name_fqdn by metis
  have each: "extract_zone_from_name (row_name r) = Some z \<longleftrightarrow> name_in_zone (row_name r) z"
    if "r \<in> set rows" for r
  proof -
    have r: "normalize_name (row_name r) = row_name r" "proper_name 2 (row_name r)"
      using assms(1) that by auto
    obtain ms where "wf_labels ms" "length ms \<ge> 2" "map lower ms = ms" "row_name r = fqdn ms"
      using proper_name_labels [OF r(2)] unfolding r(1) by metis
    then show ?thesis
      using extract_zone_iff [OF ls(1,3) _ _ _ ez ls(2)] by metis
  qed
  have "zone_has_records_conn (filter P rows) z \<longleftrightarrow>
      (\<exists>r\<in>set (filter P rows). name_in_zone (row_name r) z)"
    using assms(1) nz root by (intro zone_has_records_conn_iff) auto
  then show ?thesis using each by (auto simp: boot_managed_zones_eq)
qed

lemma managed_exact_remove:
  assumes "records_inv db" "managed_exact db"
  shows "managed_exact (snd (remove_records n t v db))"
proof -
  let ?rows = "dns_records db" and ?P = "\<lambda>r. \<not> delete_matches (normalize_name n) t v r"
  have rows: "\<forall>r\<in>set ?rows. normalize_name (row_name r) = row_name r \<and> proper_name 2 (row_name r)"
    using assms by (auto simp: records_inv_def stored_rows_def managed_exact_def)
  have "managed_zones db -
      {z. length (filter ?P ?rows) < length ?rows \<and> extract_zone_from_name n = Some z
          \<and> \<not> zone_has_records_conn (filter ?P ?rows) z} = boot_managed_zones (filter ?P ?rows)"
  proof (cases "\<exists>q\<in>set ?rows. \<not> ?P q")
    case False
    then have "filter ?P ?rows = ?rows" by simp
    then show ?thesis using assms(2) by (simp add: managed_exact_def)
  next
    case True
    then obtain q where q: "q \<in> set ?rows" "\<not> ?P q" by blast
    then have name: "row_name q = normalize_name n" using delete_matches_name by blast
    have less: "length (filter ?P ?rows) < length ?rows"
      using q by (auto intro: length_filter_less)
    have gone: "extract_zone_from_name (row_name r) = extract_zone_from_name n" if "\<not> ?P r" for r
      using that delete_matches_name [of "normalize_name n" t v r] extract_zone_normal by auto
    have "z \<in> boot_managed_zones ?rows \<longleftrightarrow>
        z \<in> boot_managed_zones (filter ?P ?rows) \<or> extract_zone_from_name n = Some z" for z
      using q gone by (auto simp: boot_managed_zones_eq intro: bexI [of _ q])
    then show ?thesis
      using assms(2) less boot_managed_keep [OF rows q(1) name, of _ ?P]
      by (auto simp: managed_exact_def)
  qed
  then show ?thesis
    using rows by (simp add: managed_exact_def remove_records_managed Let_def)
qed

definition multi_label_op :: "records_op \<Rightarrow> bool" where
  "multi_label_op op = (case op of AddRecord r \<Rightarrow> proper_name 2 (dr_name r) | _ \<Rightarrow> True)"

lemma managed_exact_exec:
  assumes "records_inv db" "managed_exact db" "multi_label_op op"
  shows "managed_exact (records_exec op db)"
proof (cases op)
  case (AddRecord r)
  then show ?thesis
    using assms
    by (auto simp: managed_exact_def multi_label_op_def proper_name_normal cache_managed_zone_eq
        boot_managed_zones_eq)
next
  case (RemoveRecords n t v)
  then show ?thesis using assms managed_exact_remove by simp
qed (use assms in \<open>auto simp: managed_exact_def records_op_defs Let_def\<close>)

lemma managed_exact_run:
  "records_inv db \<Longrightarrow> managed_exact db \<Longrightarrow> list_all multi_label_op ops \<Longrightarrow>
    managed_exact (records_run ops db)"
  by (induction ops arbitrary: db) (auto simp: managed_exact_exec records_inv_exec)

section \<open>The table as a list of typed records\<close>

text \<open>
  The contract of the record table, over the records it stores rather than over rows of text:
  what a lookup selects, what an insertion adds and what a removal takes away.
\<close>

definition record_abs :: "'a records_db_scheme \<Rightarrow> dns_record list" where
  "record_abs db = map row_mapper (dns_records db)"

definition selects :: "string \<Rightarrow> RecordKind option \<Rightarrow> string \<Rightarrow> dns_record \<Rightarrow> bool" where
  "selects name record_type val r \<longleftrightarrow>
     dr_name r = normalize_name name \<and> (record_type = None \<or> record_type = Some (dr_type r))
     \<and> (val = [] \<or> dr_value r = val)"

lemma row_mapper_simps [simp]:
  "dr_name (row_mapper r) = row_name r" "dr_value (row_mapper r) = row_value r"
  "dr_id (row_mapper r) = Some (row_id r)" "dr_ttl (row_mapper r) = row_ttl r"
  "dr_priority (row_mapper r) = row_priority r"
  by (simp_all add: row_mapper_def)

lemma row_mapper_type:
  "row_type r \<in> range as_str \<Longrightarrow> row_type r = as_str k \<longleftrightarrow> dr_type (row_mapper r) = k"
  by (auto simp: row_mapper_def kind_parse_as_str as_str_inject)

lemma delete_matches_selects:
  "row_type r \<in> range as_str \<Longrightarrow>
    delete_matches (normalize_name n) t v r \<longleftrightarrow> selects n t v (row_mapper r)"
  by (auto simp: delete_matches_def selects_def row_mapper_type split: option.splits)

lemma filter_map_cong:
  "(\<And>x. x \<in> set xs \<Longrightarrow> P x = Q (f x)) \<Longrightarrow> map f (filter P xs) = filter Q (map f xs)"
  by (induction xs) auto

text \<open>Records in the order a lookup returns them: as stored, or by type where the type is not given.\<close>

definition lookup_order :: "RecordKind option \<Rightarrow> dns_record list \<Rightarrow> dns_record list" where
  "lookup_order record_type rs = (if record_type = None then sort_key (\<lambda>r. as_str (dr_type r)) rs else rs)"

lemma lookup_order_simps [simp]:
  "lookup_order (Some k) rs = rs" "set (lookup_order t rs) = set rs" "lookup_order t [] = []"
  by (simp_all add: lookup_order_def)

lemma by_record_type_mapped:
  assumes "\<forall>r\<in>set rows. row_type r \<in> range as_str"
  shows "map row_mapper (by_record_type rows) = lookup_order None (map row_mapper rows)"
proof -
  have "\<forall>r\<in>set rows. row_type r = as_str (dr_type (row_mapper r))"
    using assms row_mapper_type by blast
  then show ?thesis
    unfolding by_record_type_def lookup_order_def sort_key_map
    using sort_key_cong [of rows row_type "\<lambda>r. as_str (dr_type (row_mapper r))"] by simp
qed

lemma lookup_exact_selects:
  assumes "\<forall>r\<in>set rows. row_type r \<in> range as_str"
  shows "lookup_exact rows (normalize_name n) t = lookup_order t (filter (selects n t []) (map row_mapper rows))"
proof (cases t)
  case None
  have "map row_mapper (filter (\<lambda>r. row_name r = normalize_name n) rows) = filter (selects n t []) (map row_mapper rows)"
    by (rule filter_map_cong) (simp add: selects_def None)
  then show ?thesis
    using assms by (simp add: lookup_exact_def None by_record_type_mapped)
next
  case (Some k)
  then show ?thesis
    using assms by (auto simp: lookup_exact_def selects_def row_mapper_type intro!: filter_map_cong)
qed

lemma lookup_no_wildcard_abs:
  "records_inv db \<Longrightarrow> lookup_no_wildcard db n t = lookup_order t (filter (selects n t []) (record_abs db))"
  by (auto simp: records_inv_def stored_rows_def lookup_no_wildcard_def record_abs_def
      intro: lookup_exact_selects)

lemma add_record_abs:
  "record_abs (snd (add_record r db)) =
    record_abs db @ [r\<lparr>dr_id := Some (next_rowid db), dr_name := normalize_name (dr_name r)\<rparr>]"
  by (simp add: record_abs_def row_mapper_def kind_parse_as_str)

lemma remove_records_abs:
  assumes "records_inv db"
  shows "record_abs (snd (remove_records n t v db)) =
      filter (\<lambda>r. \<not> selects n t v r) (record_abs db)"
    and "fst (remove_records n t v db) = length (filter (selects n t v) (record_abs db))"
proof -
  let ?D = "delete_matches (normalize_name n) t v"
  have ty: "row_type r \<in> range as_str" if "r \<in> set (dns_records db)" for r
    using assms that by (auto simp: records_inv_def stored_rows_def)
  show "record_abs (snd (remove_records n t v db)) =
      filter (\<lambda>r. \<not> selects n t v r) (record_abs db)"
    unfolding record_abs_def using ty
    by (auto intro!: filter_map_cong simp: delete_matches_selects)
  have "fst (remove_records n t v db) =
      length (dns_records db) - length (filter (\<lambda>r. \<not> ?D r) (dns_records db))"
    by (simp add: remove_records_def Let_def)
  also have "\<dots> = length (filter ?D (dns_records db))"
    using sum_length_filter_compl [of ?D "dns_records db"] by linarith
  also have "\<dots> = length (map row_mapper (filter ?D (dns_records db)))"
    by simp
  also have "map row_mapper (filter ?D (dns_records db)) = filter (selects n t v) (record_abs db)"
    unfolding record_abs_def using ty by (intro filter_map_cong) (simp add: delete_matches_selects)
  finally show "fst (remove_records n t v db) = length (filter (selects n t v) (record_abs db))" .
qed

section \<open>A source of records with wildcards\<close>

lemma find_map_split:
  assumes "find P (map f cs) = Some a"
  shows "\<exists>xs c ys. cs = xs @ c # ys \<and> a = f c \<and> (\<forall>x\<in>set xs. \<not> P (f x))"
  using assms
proof (induction cs)
  case (Cons c cs)
  then show ?case
  proof (cases "P (f c)")
    case True
    then show ?thesis using Cons by (intro exI [of _ "[]"]) auto
  next
    case False
    then obtain xs d ys where "cs = xs @ d # ys" "a = f d" "\<forall>x\<in>set xs. \<not> P (f x)"
      using Cons by auto
    then show ?thesis using False by (intro exI [of _ "c # xs"]) auto
  qed
qed simp

lemma find_case_Nil:
  "(case find (\<lambda>a. f a \<noteq> []) xs of Some a \<Rightarrow> f a | None \<Rightarrow> []) = [] \<longleftrightarrow>
    find (\<lambda>a. f a \<noteq> []) xs = None"
  by (induction xs) auto

text \<open>
  The global table and the records of a network scope are searched in the same way: an exact
  lookup, then the wildcard one label up with the owner replaced, and for negative answers the
  nearest ancestor that holds an SOA.
\<close>

locale record_source =
  fixes exact :: "string \<Rightarrow> RecordKind option \<Rightarrow> dns_record list"
    and look :: "string \<Rightarrow> RecordKind option \<Rightarrow> dns_record list"
    and soa :: "string \<Rightarrow> dns_record list"
  assumes look_exact: "exact (normalize_name n) t \<noteq> [] \<Longrightarrow> look n t = exact (normalize_name n) t"
    and look_none: "exact (normalize_name n) t = [] \<Longrightarrow> make_wildcard_name (normalize_name n) = None \<Longrightarrow>
      look n t = []"
    and look_wildcard: "exact (normalize_name n) t = [] \<Longrightarrow>
      make_wildcard_name (normalize_name n) = Some w \<Longrightarrow>
      look n t = map (\<lambda>r. r\<lparr>dr_name := normalize_name n\<rparr>) (exact w t)"
    and soa_ancestors: "soa n =
      (case find (\<lambda>a. exact a (Some SOA) \<noteq> []) (ancestor_names (normalize_name n)) of
         Some a \<Rightarrow> exact a (Some SOA) | None \<Rightarrow> [])"
begin

lemma look_labels:
  assumes "wf_labels (l # ls)" "map lower (l # ls) = l # ls"
  shows "look (fqdn (l # ls)) t =
    (if exact (fqdn (l # ls)) t \<noteq> [] then exact (fqdn (l # ls)) t
     else if ls = [] then []
     else map (\<lambda>r. r\<lparr>dr_name := fqdn (l # ls)\<rparr>) (exact (fqdn (''*'' # ls)) t))"
proof -
  have n: "normalize_name (fqdn (l # ls)) = fqdn (l # ls)"
    using assms(2) normalize_name_fqdn [of "l # ls"] by simp
  show ?thesis
    using look_exact [of "fqdn (l # ls)" t] look_none [of "fqdn (l # ls)" t]
      look_wildcard [of "fqdn (l # ls)" t] make_wildcard_name_labels [OF assms(1)]
    unfolding n by auto
qed

lemma look_owner:
  assumes "\<And>a u r. r \<in> set (exact a u) \<Longrightarrow> dr_name r = a" "r \<in> set (look n t)"
  shows "dr_name r = normalize_name n"
proof (cases "exact (normalize_name n) t = []")
  case False
  then show ?thesis using assms look_exact by metis
next
  case True
  then show ?thesis
    using assms(2) look_none [OF True] look_wildcard [OF True]
    by (cases "make_wildcard_name (normalize_name n)") auto
qed

lemma soa_nearest:
  assumes "wf_labels ls" "map lower ls = ls"
  shows "soa (fqdn ls) = [] \<longleftrightarrow> (\<forall>ms. ms \<noteq> [] \<and> suffix ms ls \<longrightarrow> exact (fqdn ms) (Some SOA) = [])"
    and "soa (fqdn ls) \<noteq> [] \<Longrightarrow>
      \<exists>ms. ms \<noteq> [] \<and> suffix ms ls \<and> soa (fqdn ls) = exact (fqdn ms) (Some SOA)
        \<and> (\<forall>ks. suffix ks ls \<and> length ms < length ks \<longrightarrow> exact (fqdn ks) (Some SOA) = [])"
proof -
  let ?cs = "ls # proper_tails ls"
  have ne: "ls \<noteq> []" by (rule wf_labels_ne [OF assms(1)])
  have n: "normalize_name (fqdn ls) = fqdn ls"
    using assms(2) normalize_name_fqdn [OF ne] by simp
  have cand: "set ?cs = {ms. ms \<noteq> [] \<and> suffix ms ls}"
    using ne by (auto simp: set_proper_tails strict_suffix_def)
  have soa_eq: "soa (fqdn ls) =
      (case find (\<lambda>a. exact a (Some SOA) \<noteq> []) (map fqdn ?cs) of
         Some a \<Rightarrow> exact a (Some SOA) | None \<Rightarrow> [])"
    unfolding soa_ancestors n ancestor_names_labels [OF assms(1)] ..
  have none: "find (\<lambda>a. exact a (Some SOA) \<noteq> []) (map fqdn ?cs) = None \<longleftrightarrow>
      (\<forall>ms. ms \<noteq> [] \<and> suffix ms ls \<longrightarrow> exact (fqdn ms) (Some SOA) = [])"
    unfolding find_None_iff set_map cand by blast
  show "soa (fqdn ls) = [] \<longleftrightarrow> (\<forall>ms. ms \<noteq> [] \<and> suffix ms ls \<longrightarrow> exact (fqdn ms) (Some SOA) = [])"
    unfolding none [symmetric] soa_eq find_case_Nil ..
  assume "soa (fqdn ls) \<noteq> []"
  then obtain a where a: "find (\<lambda>a. exact a (Some SOA) \<noteq> []) (map fqdn ?cs) = Some a"
    unfolding soa_eq by (auto split: option.splits)
  obtain xs ms ys where c: "?cs = xs @ ms # ys" "a = fqdn ms"
    "\<forall>x\<in>set xs. exact (fqdn x) (Some SOA) = []"
    using find_map_split [OF a] unfolding not_not by blast
  have "ms \<in> set ?cs" unfolding c(1) by simp
  then have ms: "ms \<noteq> [] \<and> suffix ms ls"
    unfolding cand by blast
  have "exact (fqdn ks) (Some SOA) = []" if ks: "suffix ks ls" "length ms < length ks" for ks
  proof -
    have "ks \<in> set ?cs"
      unfolding cand using ks by auto
    then have "ks \<in> set (xs @ ms # ys)"
      unfolding c(1) .
    moreover have "sorted_wrt (\<lambda>a b. length b < length a) (xs @ ms # ys)"
      using sorted_proper_tails [of ls] unfolding c(1) [symmetric] .
    ultimately have "ks \<in> set xs"
      using ks(2) by (auto simp: sorted_wrt_append)
    then show ?thesis using c(3) by simp
  qed
  moreover have "soa (fqdn ls) = exact (fqdn ms) (Some SOA)"
    unfolding soa_eq a using c(2) by simp
  ultimately show "\<exists>ms. ms \<noteq> [] \<and> suffix ms ls \<and> soa (fqdn ls) = exact (fqdn ms) (Some SOA)
      \<and> (\<forall>ks. suffix ks ls \<and> length ms < length ks \<longrightarrow> exact (fqdn ks) (Some SOA) = [])"
    using ms by blast
qed

end

lemma find_map_found:
  "find_map (\<lambda>a. if f a \<noteq> [] then Some (f a) else None) xs = map_option f (find (\<lambda>a. f a \<noteq> []) xs)"
  by (induction xs) auto

interpretation global_records: record_source "lookup_exact (dns_records db)" "lookup db" "closest_soa db"
  for db :: "'a records_db_scheme"
  by unfold_locales
    (auto simp: lookup_def closest_soa_def find_map_found Let_def split: option.splits)

lemma lookup_exact_owner: "r \<in> set (lookup_exact rows a u) \<Longrightarrow> dr_name r = a"
  by (auto simp: lookup_exact_def by_record_type_def split: option.splits)

lemma lookup_with_fallbacks_eq:
  assumes "records_inv db"
  shows "lookup db n (Some rt) =
      (let lr = lookup_with_fallbacks db n rt
       in if lr_exact lr \<noteq> [] then lr_exact lr else lr_wildcard lr)"
    and "lr_exact (lookup_with_fallbacks db n rt) = lookup_no_wildcard db n (Some rt)"
    and "lr_cname (lookup_with_fallbacks db n rt) = lookup_no_wildcard db n (Some CNAME)"
    and "lr_aname (lookup_with_fallbacks db n rt) = lookup_no_wildcard db n (Some ANAME)"
proof -
  have "\<forall>r\<in>set (dns_records db). row_name r \<noteq> []"
    using assms unfolding records_inv_def stored_rows_def by (metis normalize_name_neq_Nil)
  then have no: "filter (\<lambda>r. row_name r = [] \<and> row_type r = as_str rt) (dns_records db) = []"
    by (auto simp: filter_empty_conv)
  show "lookup db n (Some rt) =
      (let lr = lookup_with_fallbacks db n rt
       in if lr_exact lr \<noteq> [] then lr_exact lr else lr_wildcard lr)"
    using no by (auto simp: lookup_def lookup_with_fallbacks_def lookup_exact_def Let_def split: option.split)
qed (simp_all add: lookup_with_fallbacks_def lookup_no_wildcard_def lookup_exact_def Let_def)

section \<open>Properties\<close>

text \<open>Sample rows for the examples below.\<close>

definition host_record :: "string \<Rightarrow> string \<Rightarrow> dns_record" where
  "host_record n v = \<lparr>dr_id = None, dr_name = n, dr_type = A, dr_value = v, dr_ttl = 300, dr_priority = 0\<rparr>"

text \<open>
  C4: the record table implements a list of typed records.  An insertion appends the record with
  its name normalised and a fresh identifier, a removal drops exactly the records with that name,
  type and value and reports how many, and a lookup returns exactly the records of that name and
  type, in the order of insertion; a lookup without a type returns all records of the name, ordered by
  the text of their type and, within a type, by insertion.
\<close>

theorem record_table_refines:
  assumes "records_inv db"
  shows "record_abs (snd (add_record r db)) =
      record_abs db @ [r\<lparr>dr_id := Some (fst (add_record r db)), dr_name := normalize_name (dr_name r)\<rparr>]
    \<and> (\<forall>q\<in>set (record_abs db). dr_id q \<noteq> Some (fst (add_record r db)))
    \<and> record_abs (snd (remove_records n t v db)) = filter (\<lambda>q. \<not> selects n t v q) (record_abs db)
    \<and> fst (remove_records n t v db) = length (filter (selects n t v) (record_abs db))
    \<and> lookup_no_wildcard db n t =
        (case t of Some _ \<Rightarrow> filter (selects n t []) (record_abs db)
         | None \<Rightarrow> sort_key (\<lambda>q. as_str (dr_type q)) (filter (selects n None []) (record_abs db)))"
proof -
  have "dr_id q \<noteq> Some (next_rowid db)" if "q \<in> set (record_abs db)" for q
    using assms that by (auto simp: record_abs_def records_inv_def stored_rows_def)
  then show ?thesis
    using assms by (simp add: add_record_abs remove_records_abs lookup_no_wildcard_abs lookup_order_def split: option.split)
qed

theorem record_table_refines_witness:
  "fst (remove_records ''WWW.Example.com'' (Some A) []
     (records_run [AddRecord (host_record ''www.example.com'' ''192.0.2.1''),
                   AddRecord (host_record ''mail.example.com'' ''192.0.2.2'')] empty_records_db)) = 1"
proof -
  let ?db = "records_run [AddRecord (host_record ''www.example.com'' ''192.0.2.1''),
      AddRecord (host_record ''mail.example.com'' ''192.0.2.2'')] empty_records_db"
  have inv: "records_inv ?db" by (rule records_inv_run [OF records_inv_empty])
  have "length (filter (selects ''WWW.Example.com'' (Some A) []) (record_abs ?db)) = 1"
    by code_simp
  then show ?thesis
    using record_table_refines [OF inv, of _ "''WWW.Example.com''" "Some A" "[]"] by simp
qed

text \<open>
  C14: whatever sequence of record, zone, key and signing operations runs, the table keeps
  well-formed rows with distinct identifiers, and the caches of authoritative and of signed zones
  hold exactly what the tables hold.
\<close>

theorem records_invariant: "records_inv (records_run ops empty_records_db)"
  by (rule records_inv_run [OF records_inv_empty])

text \<open>
  C7: if every added name has at least two labels, then after any sequence of operations the
  managed-zone cache is exactly the set that a restart would derive from the table.
\<close>

theorem managed_zone_cache_exact:
  assumes "list_all multi_label_op ops"
  shows "managed_zones (records_run ops empty_records_db) =
    managed_zones (boot_records (records_run ops empty_records_db))"
proof -
  have "managed_exact empty_records_db"
    by (simp add: managed_exact_def empty_records_db_def boot_managed_zones_def)
  then have "managed_exact (records_run ops empty_records_db)"
    using assms records_inv_empty managed_exact_run by blast
  then show ?thesis
    by (simp add: managed_exact_def boot_records_def Let_def)
qed

theorem managed_zone_cache_exact_witness:
  "managed_zones (records_run [AddRecord (host_record ''www.example.com'' ''192.0.2.1''),
      AddRecord (host_record ''ns.example.org'' ''192.0.2.2''),
      RemoveRecords ''ns.example.org'' None []] empty_records_db) = {''example.com.''}"
proof -
  let ?ops = "[AddRecord (host_record ''www.example.com'' ''192.0.2.1''),
      AddRecord (host_record ''ns.example.org'' ''192.0.2.2''),
      RemoveRecords ''ns.example.org'' None []]"
  have ok: "list_all multi_label_op ?ops" by code_simp
  have "managed_zones (boot_records (records_run ?ops empty_records_db)) = {''example.com.''}"
    by code_simp
  then show ?thesis unfolding managed_zone_cache_exact [OF ok] .
qed

text \<open>
  With single-label names the cache does go stale.  Adding \<open>home.\<close> and \<open>dns.home.\<close> and removing
  them in that order leaves an empty table and \<open>home.\<close> in the cache, so that every name below
  \<open>home.\<close> still counts as managed; a restart would drop it.
\<close>

theorem managed_zone_cache_stale:
  "let db = records_run [AddRecord (host_record ''home'' ''192.0.2.1''),
              AddRecord (host_record ''dns.home'' ''192.0.2.2''),
              RemoveRecords ''home'' None [], RemoveRecords ''dns.home'' None []] empty_records_db
   in dns_records db = [] \<and> find_managed_zone db ''printer.home'' = Some ''home.''
      \<and> find_managed_zone (boot_records db) ''printer.home'' = None"
  by code_simp

text \<open>
  C1: a change to the content of a signed zone, by insertion or by a removal that removes something,
  makes the zone's signatures stale for every name of the zone, and they stay stale whatever
  happens next until a signing pass of that zone clears the mark, as long as the zone is signed.
\<close>

theorem mutation_withholds_signatures:
  assumes zone: "find_signed_zone (signed_zones db) n = Some z"
    and mutation: "op = AddRecord r \<and> dr_name r = n \<and> is_zone_content (dr_type r)
      \<or> op = RemoveRecords n t v \<and> fst (remove_records n t v db) > 0
        \<and> (case t of Some rt \<Rightarrow> is_zone_content rt | None \<Rightarrow> True)"
    and later: "list_all (\<lambda>op. \<not> clears z op) ops"
    and query: "find_signed_zone (signed_zones (records_run (op # ops) db)) m = Some z"
  shows "zone_signatures_stale (records_run (op # ops) db) m"
proof -
  have "z \<in> resign_pending (records_exec op db)"
    using mutation zone add_record_marks [of r db z] remove_records_marks [of n t v db z] by auto
  then have "z \<in> resign_pending (records_run (op # ops) db)"
    using pending_run [OF _ later] by simp
  then show ?thesis
    unfolding zone_signatures_stale_def query by simp
qed

theorem mutation_withholds_signatures_witness:
  "zone_signatures_stale
     (records_run [AddRecord (host_record ''www.example.com'' ''192.0.2.1''), ClearResignPending ''example.org'']
       (records_run [StoreKey 0 ''example.com'' [] ''ECDSAP256SHA256'' ''ZSK'' [] [] 7, ClearResignPending ''example.com'']
          empty_records_db)) ''mail.example.com''"
proof -
  let ?db = "records_run [StoreKey 0 ''example.com'' [] ''ECDSAP256SHA256'' ''ZSK'' [] [] 7,
      ClearResignPending ''example.com''] empty_records_db"
    and ?r = "host_record ''www.example.com'' ''192.0.2.1''"
  have 1: "find_signed_zone (signed_zones ?db) ''www.example.com'' = Some ''example.com.''"
    by code_simp
  have 2: "AddRecord ?r = AddRecord ?r \<and> dr_name ?r = ''www.example.com'' \<and> is_zone_content (dr_type ?r)"
    by code_simp
  have 3: "list_all (\<lambda>op. \<not> clears ''example.com.'' op) [ClearResignPending ''example.org'']"
    by code_simp
  have 4: "find_signed_zone (signed_zones (records_run (AddRecord ?r # [ClearResignPending ''example.org'']) ?db))
      ''mail.example.com'' = Some ''example.com.''"
    by code_simp
  show ?thesis
    by (rule mutation_withholds_signatures [OF 1 disjI1 [OF 2] 3 4])
qed

text \<open>
  C10: the single combined query of \<open>lookup_with_fallbacks\<close> answers what the separate lookups answer:
  its exact part if there is one and its wildcard part otherwise is \<open>lookup\<close>, and its other two
  parts are the CNAME and ANAME records of the name.
\<close>

theorem lookup_with_fallbacks_equiv:
  assumes "records_inv db"
  shows "lookup db n (Some rt) =
      (let lr = lookup_with_fallbacks db n rt
       in if lr_exact lr \<noteq> [] then lr_exact lr else lr_wildcard lr)
    \<and> lr_cname (lookup_with_fallbacks db n rt) = lookup_no_wildcard db n (Some CNAME)
    \<and> lr_aname (lookup_with_fallbacks db n rt) = lookup_no_wildcard db n (Some ANAME)"
  using lookup_with_fallbacks_eq [OF assms] by blast

theorem lookup_with_fallbacks_equiv_witness:
  "map dr_name (lookup (records_run [AddRecord (host_record ''*.example.com'' ''192.0.2.1'')] empty_records_db)
     ''WWW.example.com'' (Some A)) = [''www.example.com.'']"
proof -
  let ?db = "records_run [AddRecord (host_record ''*.example.com'' ''192.0.2.1'')] empty_records_db"
  have inv: "records_inv ?db" by (rule records_inv_run [OF records_inv_empty])
  have "lr_exact (lookup_with_fallbacks ?db ''WWW.example.com'' A) = []
    \<and> map dr_name (lr_wildcard (lookup_with_fallbacks ?db ''WWW.example.com'' A)) = [''www.example.com.'']"
    by code_simp
  then show ?thesis
    using lookup_with_fallbacks_equiv [OF inv, of "''WWW.example.com''" A] by (simp add: Let_def)
qed

text \<open>
  C17: \<open>closest_soa\<close> reads the SOA of the closest enclosing zone: it is empty only if no ancestor of
  the name holds an SOA, and otherwise the SOA of the longest one that does.
\<close>

theorem closest_soa_nearest:
  assumes "wf_labels ls" "map lower ls = ls"
  shows "if \<exists>ms. ms \<noteq> [] \<and> suffix ms ls \<and> lookup_exact (dns_records db) (fqdn ms) (Some SOA) \<noteq> []
    then \<exists>ms. ms \<noteq> [] \<and> suffix ms ls
           \<and> closest_soa db (fqdn ls) = lookup_exact (dns_records db) (fqdn ms) (Some SOA)
           \<and> (\<forall>ks. suffix ks ls \<and> length ms < length ks \<longrightarrow>
                lookup_exact (dns_records db) (fqdn ks) (Some SOA) = [])
    else closest_soa db (fqdn ls) = []"
  using global_records.soa_nearest [OF assms, of db] by (simp split: if_split) blast

theorem closest_soa_nearest_witness:
  "closest_soa empty_records_db (fqdn [''dns'', ''home'']) = []"
proof -
  have "wf_labels [''dns'', ''home'']" "map lower [''dns'', ''home''] = [''dns'', ''home'']"
    by code_simp+
  from closest_soa_nearest [OF this, of empty_records_db] show ?thesis
    by (simp add: empty_records_db_def lookup_exact_def)
qed

text \<open>
  C12: \<open>name_occupied\<close>, which separates NXDOMAIN from NODATA, holds exactly when some stored record
  sits at the name or beneath it on a label boundary, wildcards of SQL notwithstanding.
\<close>

theorem name_occupied_exact:
  assumes "records_inv db" "normalize_name n \<noteq> [dot]"
  shows "name_occupied db n \<longleftrightarrow> (\<exists>r\<in>set (record_abs db). name_in_zone (dr_name r) n)"
proof -
  have "zone_has_records_conn (dns_records db) (normalize_name n) \<longleftrightarrow>
      (\<exists>r\<in>set (dns_records db). name_in_zone (row_name r) (normalize_name n))"
    using assms by (intro zone_has_records_conn_iff) (auto simp: records_inv_def stored_rows_def)
  then show ?thesis by (simp add: name_occupied_def record_abs_def)
qed

theorem name_occupied_exact_witness:
  "let db = records_run [AddRecord (host_record ''_https._tcp.example.com'' ''192.0.2.1'')] empty_records_db
   in name_occupied db ''_tcp.example.com'' \<and> \<not> name_occupied db ''xtcp.example.com''"
proof -
  let ?db = "records_run [AddRecord (host_record ''_https._tcp.example.com'' ''192.0.2.1'')] empty_records_db"
  have inv: "records_inv ?db" by (rule records_inv_run [OF records_inv_empty])
  have n: "normalize_name ''_tcp.example.com'' \<noteq> [dot]" "normalize_name ''xtcp.example.com'' \<noteq> [dot]"
    by code_simp+
  show ?thesis
    unfolding Let_def name_occupied_exact [OF inv n(1)] name_occupied_exact [OF inv n(2)]
    by code_simp
qed

end
