(* ===== verification/Cidr.thy ===== *)
theory Cidr
  imports Addresses
begin

text \<open>
  The address parser of the Rust standard library, as far as the program relies on it, and the
  CIDR blocks of \<open>src/src/cidr.rs\<close> that classify the source address of a query.
\<close>

unbundle bit_operations_syntax

section \<open>Parsing addresses\<close>

text \<open>
  The address parser of the standard library: \<open>read_number\<close> takes a run of digits of bounded length,
  \<open>read_sep\<close> the separator before every group but the first, and \<open>read_groups\<close> up to \<open>k\<close> groups of an
  IPv6 address, the last two of which may be written as an IPv4 address.
\<close>

definition radix_digit :: "nat \<Rightarrow> char \<Rightarrow> bool" where
  "radix_digit radix c = (case hex_val c of Some v \<Rightarrow> v < radix | None \<Rightarrow> False)"

definition digits_value :: "nat \<Rightarrow> string \<Rightarrow> nat" where
  "digits_value radix ds = foldl (\<lambda>acc c. acc * radix + (case hex_val c of Some v \<Rightarrow> v | None \<Rightarrow> 0)) 0 ds"

definition read_number :: "nat \<Rightarrow> nat option \<Rightarrow> bool \<Rightarrow> nat \<Rightarrow> string \<Rightarrow> (nat \<times> string) option" where
  "read_number radix max_digits allow_zero_prefix mx s =
     (let ds = takeWhile (radix_digit radix) s; v = digits_value radix ds
      in if ds = [] then None
         else if (case max_digits of Some m \<Rightarrow> length ds > m | None \<Rightarrow> False) then None
         else if \<not> allow_zero_prefix \<and> hd ds = CHR ''0'' \<and> length ds > 1 then None
         else if v > mx then None
         else Some (v, dropWhile (radix_digit radix) s))"

fun read_given :: "char \<Rightarrow> string \<Rightarrow> string option" where
  "read_given c [] = None"
| "read_given c (x # xs) = (if x = c then Some xs else None)"

definition read_sep :: "char \<Rightarrow> nat \<Rightarrow> string \<Rightarrow> string option" where
  "read_sep c i s = (if i = 0 then Some s else read_given c s)"

fun read_octets :: "nat \<Rightarrow> nat \<Rightarrow> string \<Rightarrow> (nat list \<times> string) option" where
  "read_octets 0 i s = Some ([], s)"
| "read_octets (Suc k) i s =
     (case Option.bind (read_sep dot i s) (read_number 10 (Some 3) False 255) of
        None \<Rightarrow> None
      | Some (b, rest) \<Rightarrow> map_option (\<lambda>(bs, r). (b # bs, r)) (read_octets k (Suc i) rest))"

definition read_ipv4_addr :: "string \<Rightarrow> (ipv4 \<times> string) option" where
  "read_ipv4_addr s = map_option (\<lambda>(bs, r). (from_octets4 bs, r)) (read_octets 4 0 s)"

fun read_groups :: "nat \<Rightarrow> nat \<Rightarrow> string \<Rightarrow> nat list \<times> bool \<times> string" where
  "read_groups 0 i s = ([], False, s)"
| "read_groups (Suc k) i s =
     (case (if k > 0 then Option.bind (read_sep (CHR '':'') i s) (read_octets 4 0) else None) of
        Some (bs, rest) \<Rightarrow> ([bs ! 0 * 256 + bs ! 1, bs ! 2 * 256 + bs ! 3], True, rest)
      | None \<Rightarrow>
          (case Option.bind (read_sep (CHR '':'') i s) (read_number 16 (Some 4) True 65535) of
             None \<Rightarrow> ([], False, s)
           | Some (g, rest) \<Rightarrow>
               (let (gs, v4, r) = read_groups k (Suc i) rest in (g # gs, v4, r))))"

definition from_groups :: "nat list \<Rightarrow> ipv6" where
  "from_groups gs = word_of_nat (foldl (\<lambda>acc g. acc * 65536 + g) 0 gs)"

definition read_ipv6_addr :: "string \<Rightarrow> (ipv6 \<times> string) option" where
  "read_ipv6_addr s =
     (let (hd_groups, head_ipv4, rest) = read_groups 8 0 s; head_size = length hd_groups
      in if head_size = 8 then Some (from_groups hd_groups, rest)
         else if head_ipv4 then None
         else (case Option.bind (read_given (CHR '':'') rest) (read_given (CHR '':'')) of
                 None \<Rightarrow> None
               | Some rest' \<Rightarrow>
                   (let (tl_groups, _, r) = read_groups (8 - (head_size + 1)) 0 rest';
                        zeros = replicate (8 - head_size - length tl_groups) 0
                    in Some (from_groups (hd_groups @ zeros @ tl_groups), r))))"

definition parse_ip :: "string \<Rightarrow> IpAddr option" where
  "parse_ip s =
     (case (case read_ipv4_addr s of
              Some (a, r) \<Rightarrow> Some (V4 a, r)
            | None \<Rightarrow> map_option (\<lambda>(a, r). (V6 a, r)) (read_ipv6_addr s)) of
        Some (ip, []) \<Rightarrow> Some ip
      | _ \<Rightarrow> None)"

section \<open>CIDR blocks\<close>

record IpCidr =
  base :: IpAddr
  cidr_prefix :: nat

definition mask_ip :: "IpAddr \<Rightarrow> nat \<Rightarrow> IpAddr" where
  "mask_ip ip pre =
     (case ip of
        V4 v4 \<Rightarrow> (let m = (if pre = 0 then 0 else push_bit (32 - pre) (- 1)) in V4 (v4 AND m))
      | V6 v6 \<Rightarrow> (let m = (if pre = 0 then 0 else push_bit (128 - pre) (- 1)) in V6 (v6 AND m)))"

datatype cidr_error = MissingPrefix | InvalidIp | InvalidPrefix | PrefixTooLong

definition cidr_parse :: "string \<Rightarrow> cidr_error + IpCidr" where
  "cidr_parse s =
     (case split_once (CHR ''/'') s of
        None \<Rightarrow> Inl MissingPrefix
      | Some (addr_str, len_str) \<Rightarrow>
          (case parse_ip (trim addr_str) of
             None \<Rightarrow> Inl InvalidIp
           | Some b \<Rightarrow>
               (case parse_uint 255 (trim len_str) of
                  None \<Rightarrow> Inl InvalidPrefix
                | Some p \<Rightarrow>
                    (let mx = (case b of V4 _ \<Rightarrow> 32 | V6 _ \<Rightarrow> 128)
                     in if p > mx then Inl PrefixTooLong
                        else Inr \<lparr>base = mask_ip b p, cidr_prefix = p\<rparr>))))"

definition cidr_contains :: "IpCidr \<Rightarrow> IpAddr \<Rightarrow> bool" where
  "cidr_contains net ip =
     (case (base net, ip) of
        (V4 _, V4 _) \<Rightarrow> mask_ip ip (cidr_prefix net) = base net
      | (V6 _, V6 _) \<Rightarrow> mask_ip ip (cidr_prefix net) = base net
      | _ \<Rightarrow> False)"

text \<open>Two addresses share their \<open>p\<close> leading bits.\<close>

definition same_prefix :: "nat \<Rightarrow> IpAddr \<Rightarrow> IpAddr \<Rightarrow> bool" where
  "same_prefix p a b \<longleftrightarrow>
     (case (a, b) of
        (V4 x, V4 y) \<Rightarrow> drop_bit (32 - p) x = drop_bit (32 - p) y
      | (V6 x, V6 y) \<Rightarrow> drop_bit (128 - p) x = drop_bit (128 - p) y
      | _ \<Rightarrow> False)"

lemma mask_and_eq_iff:
  fixes x y :: "'a::len word"
  shows "x AND push_bit n (- 1) = y AND push_bit n (- 1) \<longleftrightarrow> drop_bit n x = drop_bit n y"
proof
  assume h: "x AND push_bit n (- 1) = y AND push_bit n (- 1)"
  show "drop_bit n x = drop_bit n y"
  proof (rule bit_word_eqI)
    fix i assume i: "i < LENGTH('a)"
    show "bit (drop_bit n x) i = bit (drop_bit n y) i"
    proof (cases "n + i < LENGTH('a)")
      case True
      have "bit (x AND push_bit n (- 1)) (n + i) = bit (y AND push_bit n (- 1)) (n + i)"
        using h by simp
      with True i show ?thesis by (simp add: bit_simps)
    next
      case False
      then show ?thesis by (simp add: bit_simps bit_imp_le_length not_less)
        (metis False bit_imp_le_length)
    qed
  qed
next
  assume h: "drop_bit n x = drop_bit n y"
  show "x AND push_bit n (- 1) = y AND push_bit n (- 1)"
  proof (rule bit_word_eqI)
    fix i assume i: "i < LENGTH('a)"
    have "bit (drop_bit n x) (i - n) = bit (drop_bit n y) (i - n)"
      using h by simp
    with i show "bit (x AND push_bit n (- 1)) i = bit (y AND push_bit n (- 1)) i"
      by (auto simp: bit_simps)
  qed
qed

lemma mask_ip_eq_iff:
  assumes "p \<le> (case a of V4 _ \<Rightarrow> 32 | V6 _ \<Rightarrow> 128)"
  shows "mask_ip b p = mask_ip a p \<longleftrightarrow> same_prefix p a b"
proof -
  have full4: "drop_bit 32 (x :: ipv4) = 0" and full6: "drop_bit 128 (y :: ipv6) = 0" for x y
    by (rule bit_word_eqI, simp add: bit_simps bit_word.rep_eq)+
  show ?thesis
    using mask_and_eq_iff [of _ "32 - p" "_ :: ipv4"] mask_and_eq_iff [of _ "128 - p" "_ :: ipv6"] full4 full6
    by (cases a; cases b) (auto simp: mask_ip_def same_prefix_def Let_def)
qed

lemma mask_ip_family: "(case mask_ip a p of V4 _ \<Rightarrow> True | V6 _ \<Rightarrow> False) = (case a of V4 _ \<Rightarrow> True | V6 _ \<Rightarrow> False)"
  by (cases a) (auto simp: mask_ip_def Let_def)

lemma cidr_contains_same_prefix:
  assumes "p \<le> (case a of V4 _ \<Rightarrow> 32 | V6 _ \<Rightarrow> 128)"
  shows "cidr_contains \<lparr>base = mask_ip a p, cidr_prefix = p\<rparr> ip \<longleftrightarrow> same_prefix p a ip"
  using mask_ip_eq_iff [OF assms, of ip] mask_ip_family [of a p]
  by (cases a; cases ip) (auto simp: cidr_contains_def same_prefix_def mask_ip_def Let_def)


section \<open>Text of an address\<close>

lemma is_digit_radix: "is_digit c \<Longrightarrow> radix_digit 10 c \<and> hex_val c = Some (of_char c - 48)"
  by (auto simp: radix_digit_def hex_val_def is_digit_def Let_def)

lemma digits_value_decimal:
  "\<forall>c\<in>set ds. is_digit c \<Longrightarrow>
    parse_digits acc ds =
      Some (foldl (\<lambda>a c. a * 10 + (case hex_val c of Some v \<Rightarrow> v | None \<Rightarrow> 0)) acc ds)"
  by (induction ds arbitrary: acc) (auto simp: is_digit_radix digit_val_def)

lemma digits_value_show: "digits_value 10 (show_nat n) = n"
  using digits_value_decimal [of "show_nat n" 0] show_nat_digits parse_show_nat [of n]
  by (auto simp: digits_value_def)

lemma read_number_show:
  assumes "n \<le> mx" "n < 1000" "rest = [] \<or> \<not> radix_digit 10 (hd rest)"
  shows "read_number 10 (Some 3) False mx (show_nat n @ rest) = Some (n, rest)"
proof -
  have all: "\<forall>c\<in>set (show_nat n). radix_digit 10 c"
    using show_nat_digits is_digit_radix by blast
  have t: "takeWhile (radix_digit 10) (show_nat n @ rest) = show_nat n"
    "dropWhile (radix_digit 10) (show_nat n @ rest) = rest"
    using all assms(3) by (cases rest; simp add: takeWhile_append dropWhile_append)+
  show ?thesis
    unfolding read_number_def Let_def t digits_value_show
    using assms(1,2) hd_show_nat [of n] length_show_nat_1 [of n] length_show_nat_le_3 [of n] by auto
qed

lemma read_ipv4_addr_show:
  assumes "rest = [] \<or> \<not> radix_digit 10 (hd rest)"
  shows "read_ipv4_addr (ipv4_to_string a @ rest) = Some (a, rest)"
proof -
  obtain w x y z where os: "octets4 a = [w, x, y, z]"
    using list_of_four [OF length_octets4] by blast
  have b: "w \<le> 255" "x \<le> 255" "y \<le> 255" "z \<le> 255"
    using octets4_bound [of _ a] os by auto
  have nd: "\<not> radix_digit 10 dot" by (simp add: radix_digit_def hex_val_def)
  have "read_octets (Suc (Suc (Suc (Suc 0)))) 0 (ipv4_to_string a @ rest) = Some ([w, x, y, z], rest)"
    using b nd assms by (simp add: ipv4_to_string_def os read_sep_def read_number_show)
  moreover have "from_octets4 [w, x, y, z] = a"
    using octets4_inverse [of a] os by simp
  ultimately show ?thesis by (simp add: read_ipv4_addr_def eval_nat_numeral)
qed

lemma parse_ip_v4 [simp]: "parse_ip (ipv4_to_string a) = Some (V4 a)"
  using read_ipv4_addr_show [of "[]" a] by (simp add: parse_ip_def)

lemma trim_no_ws: "\<forall>c\<in>set s. \<not> is_ws c \<Longrightarrow> trim s = s"
  by (auto simp: trim_def dropWhile_eq_self_iff rev_swap hd_rev)

lemma digit_not_ws: "is_digit c \<Longrightarrow> \<not> is_ws c" "is_digit c \<Longrightarrow> c \<noteq> CHR ''/''"
  by (auto simp: is_digit_def is_ws_def)

lemma ipv4_to_string_chars: "c \<in> set (ipv4_to_string a) \<Longrightarrow> is_digit c \<or> c = dot"
proof -
  have "c \<in> set (join_with [dot] (map show_nat bs)) \<Longrightarrow> is_digit c \<or> c = dot" for bs
    by (induction bs rule: induct_list012) (auto dest: show_nat_digits)
  then show "c \<in> set (ipv4_to_string a) \<Longrightarrow> is_digit c \<or> c = dot"
    by (simp add: ipv4_to_string_def)
qed

lemma trim_ipv4 [simp]: "trim (ipv4_to_string a) = ipv4_to_string a"
  by (rule trim_no_ws) (auto dest!: ipv4_to_string_chars dest: digit_not_ws(1) simp: is_ws_def [of dot])

lemma trim_show_nat [simp]: "trim (show_nat n) = show_nat n"
  by (rule trim_no_ws) (auto dest!: show_nat_digits dest: digit_not_ws(1))

lemma split_slash_ipv4:
  "split_once (CHR ''/'') (ipv4_to_string a @ ''/'' @ s) = Some (ipv4_to_string a, s)"
  by (auto simp: split_once_Some dest!: ipv4_to_string_chars dest: digit_not_ws(2))

lemma cidr_parse_v4:
  assumes "p \<le> 255"
  shows "cidr_parse (ipv4_to_string a @ ''/'' @ show_nat p) =
    (if p > 32 then Inl PrefixTooLong else Inr \<lparr>base = mask_ip (V4 a) p, cidr_prefix = p\<rparr>)"
  unfolding cidr_parse_def split_slash_ipv4 using assms by (simp add: parse_uint_show)

section \<open>Properties\<close>

text \<open>
  C19: the text of an IPv4 network \<open>a.b.c.d/p\<close> parses for every prefix length up to 32, whatever the
  host bits are, and the block then contains exactly the IPv4 addresses that share the \<open>p\<close> leading
  bits with \<open>a.b.c.d\<close>; a longer prefix is refused.
\<close>

theorem cidr_v4_semantics:
  assumes "p \<le> 255"
  shows "if p \<le> 32
    then \<exists>net. cidr_parse (ipv4_to_string a @ ''/'' @ show_nat p) = Inr net
           \<and> (\<forall>ip. cidr_contains net ip \<longleftrightarrow> same_prefix p (V4 a) ip)
    else cidr_parse (ipv4_to_string a @ ''/'' @ show_nat p) = Inl PrefixTooLong"
  using cidr_parse_v4 [OF assms, of a] cidr_contains_same_prefix [of p "V4 a"] by simp

theorem cidr_v4_semantics_witness:
  "\<exists>net. cidr_parse (ipv4_to_string 0x0A400501 @ ''/'' @ show_nat 10) = Inr net
     \<and> cidr_contains net (V4 0x0A7F0000) \<and> \<not> cidr_contains net (V4 0x0A800000)"
proof -
  obtain net where net: "cidr_parse (ipv4_to_string 0x0A400501 @ ''/'' @ show_nat 10) = Inr net"
    "\<forall>ip. cidr_contains net ip \<longleftrightarrow> same_prefix 10 (V4 0x0A400501) ip"
    using cidr_v4_semantics [of 10 "0x0A400501"] by auto
  moreover have "same_prefix 10 (V4 0x0A400501) (V4 0x0A7F0000)"
    "\<not> same_prefix 10 (V4 0x0A400501) (V4 0x0A800000)"
    by code_simp+
  ultimately show ?thesis by blast
qed

end
