(* ===== verification/Scopes.thy ===== *)
theory Scopes
  imports Records Cidr
begin

text \<open>
  Network scopes of \<open>src/src/db.rs\<close>: the scopes and the zones (TLDs) they own, the association of
  client addresses with scopes, the records of a scope, and the caches that the query path reads.
  An \<open>Instant\<close> is a number of nanoseconds; the wall clock is a number of seconds.  The iteration
  order of a concurrent map, which the source leaves open, is the order of the association list.
  The textual column \<open>listen_ip\<close> of \<open>tld_listeners\<close> holds the address itself.

  An operation is defined from the point where it holds the database lock.  A panic while the lock is held
  poisons it, after which every operation that asks for it fails and changes nothing; the step function
  \<open>scopes_exec\<close> says so.  The one panic of these operations is the addition of a time to live to an \<open>Instant\<close>.
\<close>

section \<open>State\<close>

record network_scope =
  ns_name :: string
  ns_home :: string

record assoc_row =
  as_ip :: string
  as_scope :: string
  as_ttl :: int
  as_created :: int

record assoc_entry =
  ae_scope :: string
  ae_expires :: nat

record scoped_row =
  sr_scope :: string
  sr_row :: dns_row

type_synonym socket_addr = "IpAddr \<times> nat"

record scopes_db = records_db +
  network_scopes :: "network_scope list"
  scoped_rows :: "scoped_row list"
  next_scoped_id :: int
  assoc_rows :: "assoc_row list"
  tld_rows :: "(string \<times> string) list"
  forwarder_rows :: "(string \<times> string \<times> string) list"
  listener_rows :: "((string \<times> string) \<times> IpAddr) list"
  scope_count :: nat
  scoped_cache :: "(string, dns_record list) table"
  assoc_cache :: "(string, assoc_entry) table"
  tld_owner :: "(string, string) table"
  forwarder_cache :: "(string, socket_addr list) table"
  ingress_cache :: "(string, IpAddr) table"
  lock_poisoned :: bool

definition empty_scopes_db :: scopes_db where
  "empty_scopes_db = records_db.extend empty_records_db
     \<lparr>network_scopes = [], scoped_rows = [], next_scoped_id = 1, assoc_rows = [], tld_rows = [],
      forwarder_rows = [], listener_rows = [], scope_count = 0, scoped_cache = [], assoc_cache = [],
      tld_owner = [], forwarder_cache = [], ingress_cache = [], lock_poisoned = False\<rparr>"

datatype scope_error =
    TldConflict string string
  | UniqueViolation
  | EmptyTld
  | NoSuchScope string
  | RemovesHomeDomain string string
  | TldOwnedByOther string string string
  | TldNotOwned string string
  | InvalidForwarder string

definition tld_fwd_key :: "string \<Rightarrow> string \<Rightarrow> string" where
  "tld_fwd_key scope tld_norm = scope @ [CHR 0x00] @ tld_norm"

definition scoped_record_cache_key :: "string \<Rightarrow> string \<Rightarrow> RecordKind option \<Rightarrow> string" where
  "scoped_record_cache_key scope_name normalized_name record_type =
     (case record_type of
        Some rt \<Rightarrow> scope_name @ '':'' @ normalized_name @ '':'' @ as_str rt
      | None \<Rightarrow> scope_name @ '':'' @ normalized_name @ '':*'')"

section \<open>Scopes and the zones they own\<close>

definition get_network_scope :: "'a scopes_db_scheme \<Rightarrow> string \<Rightarrow> network_scope option" where
  "get_network_scope db name = find (\<lambda>s. ns_name s = name) (network_scopes db)"

text \<open>The shared guard \<open>tld_owner_cache.get(tld)\<close> with a value other than the scope.\<close>

definition other_owner :: "'a scopes_db_scheme \<Rightarrow> string \<Rightarrow> string \<Rightarrow> string option" where
  "other_owner db tld scope_name =
     (case map_of (tld_owner db) tld of
        Some owner \<Rightarrow> if owner \<noteq> scope_name then Some owner else None
      | None \<Rightarrow> None)"

definition create_network_scope ::
  "network_scope \<Rightarrow> 'a scopes_db_scheme \<Rightarrow> scope_error + 'a scopes_db_scheme" where
  "create_network_scope scope db =
     (let home_domain = normalize_name (ns_home scope)
      in case other_owner db home_domain (ns_name scope) of
           Some existing \<Rightarrow> Inl (TldConflict home_domain existing)
         | None \<Rightarrow>
             if list_ex (\<lambda>s. ns_name s = ns_name scope \<or> ns_home s = home_domain) (network_scopes db)
             then Inl UniqueViolation
             else Inr (db\<lparr>network_scopes := network_scopes db @ [\<lparr>ns_name = ns_name scope, ns_home = home_domain\<rparr>],
                          scope_count := scope_count db + 1,
                          tld_owner := AList.update home_domain (ns_name scope) (tld_owner db)\<rparr>))"

definition delete_network_scope :: "string \<Rightarrow> 'a scopes_db_scheme \<Rightarrow> bool \<times> 'a scopes_db_scheme" where
  "delete_network_scope name db =
     (let keep = filter (\<lambda>s. ns_name s \<noteq> name) (network_scopes db);
          count = length (network_scopes db) - length keep;
          fwd_prefix = name @ [CHR 0x00]
      in (count > 0,
          db\<lparr>scoped_rows := filter (\<lambda>r. sr_scope r \<noteq> name) (scoped_rows db),
             assoc_rows := filter (\<lambda>a. as_scope a \<noteq> name) (assoc_rows db),
             forwarder_rows := filter (\<lambda>(s, _, _). s \<noteq> name) (forwarder_rows db),
             tld_rows := filter (\<lambda>(s, _). s \<noteq> name) (tld_rows db),
             network_scopes := keep,
             scoped_cache := retain (\<lambda>key _. \<not> starts_with key (name @ '':'')) (scoped_cache db),
             assoc_cache := retain (\<lambda>_ e. ae_scope e \<noteq> name) (assoc_cache db),
             tld_owner := retain (\<lambda>_ owner. owner \<noteq> name) (tld_owner db),
             forwarder_cache := retain (\<lambda>key _. \<not> starts_with key fwd_prefix) (forwarder_cache db),
             scope_count := (if count > 0 then scope_count db - 1 else scope_count db)\<rparr>))"

definition add_scope_tld :: "string \<Rightarrow> string \<Rightarrow> 'a scopes_db_scheme \<Rightarrow> scope_error + 'a scopes_db_scheme" where
  "add_scope_tld scope_name tld db =
     (let normalized = normalize_name tld
      in if normalized = [] \<or> normalized = [dot] then Inl EmptyTld
         else (case other_owner db normalized scope_name of
                 Some existing \<Rightarrow> Inl (TldConflict normalized existing)
               | None \<Rightarrow>
                   if get_network_scope db scope_name = None then Inl (NoSuchScope scope_name)
                   else Inr (db\<lparr>tld_rows := (if \<exists>s\<in>set (tld_rows db). snd s = normalized then tld_rows db
                                              else tld_rows db @ [(scope_name, normalized)]),
                                tld_owner := AList.update normalized scope_name (tld_owner db)\<rparr>)))"

definition remove_scope_tld ::
  "string \<Rightarrow> string \<Rightarrow> 'a scopes_db_scheme \<Rightarrow> scope_error + (bool \<times> 'a scopes_db_scheme)" where
  "remove_scope_tld scope_name tld db =
     (let normalized = normalize_name tld
      in if (case get_network_scope db scope_name of
               Some scope \<Rightarrow> normalize_name (ns_home scope) = normalized
             | None \<Rightarrow> False)
         then Inl (RemovesHomeDomain normalized scope_name)
         else (let keep = filter (\<lambda>r. r \<noteq> (scope_name, normalized)) (tld_rows db);
                   count = length (tld_rows db) - length keep;
                   db1 = db\<lparr>tld_rows := keep,
                            forwarder_rows := filter (\<lambda>(s, t, _). \<not> (s = scope_name \<and> t = normalized)) (forwarder_rows db),
                            listener_rows := filter (\<lambda>(k, _). k \<noteq> (scope_name, normalized)) (listener_rows db)\<rparr>
               in Inr (count > 0,
                    if count > 0
                    then db1\<lparr>tld_owner := AList.delete normalized (tld_owner db1),
                             forwarder_cache := AList.delete (tld_fwd_key scope_name normalized) (forwarder_cache db1),
                             ingress_cache := AList.delete normalized (ingress_cache db1)\<rparr>
                    else db1)))"

definition set_tld_listener ::
  "string \<Rightarrow> string \<Rightarrow> IpAddr \<Rightarrow> 'a scopes_db_scheme \<Rightarrow> scope_error + 'a scopes_db_scheme" where
  "set_tld_listener scope_name tld listen_ip db =
     (let normalized = normalize_name tld
      in case map_of (tld_owner db) normalized of
           Some owner \<Rightarrow>
             if owner = scope_name
             then Inr (db\<lparr>listener_rows := AList.update (scope_name, normalized) listen_ip (listener_rows db),
                          ingress_cache := AList.update normalized listen_ip (ingress_cache db)\<rparr>)
             else Inl (TldOwnedByOther normalized owner scope_name)
         | None \<Rightarrow> Inl (TldNotOwned normalized scope_name))"

definition remove_tld_listener :: "string \<Rightarrow> string \<Rightarrow> 'a scopes_db_scheme \<Rightarrow> bool \<times> 'a scopes_db_scheme" where
  "remove_tld_listener scope_name tld db =
     (let normalized = normalize_name tld;
          keep = filter (\<lambda>(k, _). k \<noteq> (scope_name, normalized)) (listener_rows db);
          count = length (listener_rows db) - length keep;
          db1 = db\<lparr>listener_rows := keep\<rparr>
      in (count > 0,
          if count > 0 then db1\<lparr>ingress_cache := AList.delete normalized (ingress_cache db1)\<rparr> else db1))"

definition get_tld_ingress :: "'a scopes_db_scheme \<Rightarrow> string \<Rightarrow> IpAddr option" where
  "get_tld_ingress db tld = map_of (ingress_cache db) (normalize_name tld)"

definition scope_for_ingress_ip :: "'a scopes_db_scheme \<Rightarrow> IpAddr \<Rightarrow> string option" where
  "scope_for_ingress_ip db ip =
     find_map (\<lambda>(tld, listen). if listen = ip then map_of (tld_owner db) tld else None) (ingress_cache db)"

definition list_scope_tlds :: "'a scopes_db_scheme \<Rightarrow> string \<Rightarrow> string list" where
  "list_scope_tlds db scope_name = sort (map snd (filter (\<lambda>r. fst r = scope_name) (tld_rows db)))"

definition push_new :: "'a list \<Rightarrow> 'a \<Rightarrow> 'a list" where
  "push_new xs x = (if x \<in> set xs then xs else xs @ [x])"

definition list_all_owned_tlds :: "'a scopes_db_scheme \<Rightarrow> string \<Rightarrow> string list" where
  "list_all_owned_tlds db scope_name =
     foldl push_new
       (case get_network_scope db scope_name of
          Some scope \<Rightarrow> [normalize_name (ns_home scope)]
        | None \<Rightarrow> [])
       (list_scope_tlds db scope_name)"

definition find_tld_owner :: "'a scopes_db_scheme \<Rightarrow> string \<Rightarrow> (string \<times> string) option" where
  "find_tld_owner db qname = find_owner (tld_owner db) qname"

section \<open>Peer forwarders\<close>

text \<open>\<open>SocketAddr::from_str\<close>: \<open>a.b.c.d:port\<close> or \<open>[v6]:port\<close>, the latter with an optional \<open>%scope\<close>.\<close>

definition read_port :: "string \<Rightarrow> (nat \<times> string) option" where
  "read_port s = Option.bind (read_given (CHR '':'') s) (read_number 10 None True 65535)"

definition skip_scope_id :: "string \<Rightarrow> string" where
  "skip_scope_id s =
     (case Option.bind (read_given (CHR ''%'') s) (read_number 10 None True (2 ^ 32 - 1)) of
        Some (_, r) \<Rightarrow> r
      | None \<Rightarrow> s)"

definition read_socket_v4 :: "string \<Rightarrow> (socket_addr \<times> string) option" where
  "read_socket_v4 s =
     Option.bind (read_ipv4_addr s) (\<lambda>(a, r). map_option (\<lambda>(p, r'). ((V4 a, p), r')) (read_port r))"

definition read_socket_v6 :: "string \<Rightarrow> (socket_addr \<times> string) option" where
  "read_socket_v6 s =
     Option.bind (read_given (CHR ''['') s) (\<lambda>s1.
     Option.bind (read_ipv6_addr s1) (\<lambda>(a, s2).
     Option.bind (read_given (CHR '']'') (skip_scope_id s2)) (\<lambda>s3.
     map_option (\<lambda>(p, r). ((V6 a, p), r)) (read_port s3))))"

definition parse_socket_addr :: "string \<Rightarrow> socket_addr option" where
  "parse_socket_addr s =
     (case (case read_socket_v4 s of Some x \<Rightarrow> Some x | None \<Rightarrow> read_socket_v6 s) of
        Some (sa, []) \<Rightarrow> Some sa
      | _ \<Rightarrow> None)"

fun parse_forwarders :: "string list \<Rightarrow> scope_error + socket_addr list" where
  "parse_forwarders [] = Inr []"
| "parse_forwarders (addr # rest) =
     (case parse_socket_addr addr of
        None \<Rightarrow> Inl (InvalidForwarder addr)
      | Some sa \<Rightarrow> (case parse_forwarders rest of Inl e \<Rightarrow> Inl e | Inr sas \<Rightarrow> Inr (sa # sas)))"

definition set_scope_tld_forwarders ::
  "string \<Rightarrow> string \<Rightarrow> string list \<Rightarrow> 'a scopes_db_scheme \<Rightarrow> scope_error + 'a scopes_db_scheme" where
  "set_scope_tld_forwarders scope_name tld forwarders db =
     (let normalized = normalize_name tld
      in case parse_forwarders forwarders of
           Inl e \<Rightarrow> Inl e
         | Inr parsed \<Rightarrow>
             (let cleared = filter (\<lambda>(s, t, _). \<not> (s = scope_name \<and> t = normalized)) (forwarder_rows db);
                  key = tld_fwd_key scope_name normalized;
                  updated = db\<lparr>forwarder_rows :=
                                 foldl (\<lambda>rows addr. push_new rows (scope_name, normalized, addr)) cleared forwarders,
                               forwarder_cache :=
                                 (if parsed = [] then AList.delete key (forwarder_cache db)
                                  else AList.update key parsed (forwarder_cache db))\<rparr>
              in case other_owner db normalized scope_name of
                   Some owner \<Rightarrow> Inl (TldConflict normalized owner)
                 | None \<Rightarrow> Inr updated))"

definition get_tld_forwarders_cached :: "'a scopes_db_scheme \<Rightarrow> string \<Rightarrow> string \<Rightarrow> socket_addr list" where
  "get_tld_forwarders_cached db scope_name tld =
     (case map_of (forwarder_cache db) (tld_fwd_key scope_name tld) of Some sas \<Rightarrow> sas | None \<Rightarrow> [])"

section \<open>Associations of clients with scopes\<close>

definition nanos :: "nat \<Rightarrow> nat" where
  "nanos secs = secs * 1000000000"

text \<open>
  \<open>Instant + Duration\<close>: the seconds of an \<open>Instant\<close> are a signed 64-bit number, and the addition panics where
  their sum leaves it.
\<close>

datatype panic = InstantOverflow

definition instant_add :: "nat \<Rightarrow> nat \<Rightarrow> nat option" where
  "instant_add now secs = (if now div 1000000000 + secs < 2 ^ 63 then Some (now + nanos secs) else None)"

definition join_network ::
  "int \<Rightarrow> nat \<Rightarrow> string \<Rightarrow> string \<Rightarrow> u64 \<Rightarrow> 'a scopes_db_scheme \<Rightarrow> (panic + unit) \<times> 'a scopes_db_scheme" where
  "join_network wall now ip scope_name ttl db =
     (let db1 = db\<lparr>assoc_rows := filter (\<lambda>a. as_ip a \<noteq> ip) (assoc_rows db) @
            [\<lparr>as_ip = ip, as_scope = scope_name, as_ttl = sint ttl, as_created = wall\<rparr>]\<rparr>
      in case instant_add now (unat ttl) of
           None \<Rightarrow> (Inl InstantOverflow, db1\<lparr>lock_poisoned := True\<rparr>)
         | Some expires_at \<Rightarrow>
             (Inr (), db1\<lparr>assoc_cache :=
                AList.update ip \<lparr>ae_scope = scope_name, ae_expires = expires_at\<rparr> (assoc_cache db1)\<rparr>))"

definition leave_network :: "string \<Rightarrow> 'a scopes_db_scheme \<Rightarrow> bool \<times> 'a scopes_db_scheme" where
  "leave_network ip db =
     (list_ex (\<lambda>a. as_ip a = ip) (assoc_rows db),
      db\<lparr>assoc_rows := filter (\<lambda>a. as_ip a \<noteq> ip) (assoc_rows db),
         assoc_cache := AList.delete ip (assoc_cache db)\<rparr>)"

definition get_scope_for_ip :: "nat \<Rightarrow> string \<Rightarrow> 'a scopes_db_scheme \<Rightarrow> string option \<times> 'a scopes_db_scheme" where
  "get_scope_for_ip now ip db =
     (case map_of (assoc_cache db) ip of
        Some entry \<Rightarrow>
          if ae_expires entry > now then (Some (ae_scope entry), db)
          else (None, db\<lparr>assoc_cache := AList.delete ip (assoc_cache db)\<rparr>)
      | None \<Rightarrow> (None, db))"

text \<open>Loading the associations at startup, which panics as well where a remaining time to live does not fit.\<close>

fun load_assoc_rows ::
  "int \<Rightarrow> nat \<Rightarrow> assoc_row list \<Rightarrow> (string, assoc_entry) table \<Rightarrow> panic + (string, assoc_entry) table" where
  "load_assoc_rows wall now [] cache = Inr cache"
| "load_assoc_rows wall now (a # as) cache =
     (let elapsed = wall - as_created a
      in if elapsed < as_ttl a
         then (case instant_add now (nat (as_ttl a - elapsed)) of
                 None \<Rightarrow> Inl InstantOverflow
               | Some expires_at \<Rightarrow>
                   load_assoc_rows wall now as
                     (AList.update (as_ip a) \<lparr>ae_scope = as_scope a, ae_expires = expires_at\<rparr> cache))
         else load_assoc_rows wall now as cache)"

definition load_associations_into_cache :: "int \<Rightarrow> nat \<Rightarrow> 'a scopes_db_scheme \<Rightarrow> panic + 'a scopes_db_scheme" where
  "load_associations_into_cache wall now db =
     (case load_assoc_rows wall now (assoc_rows db) (assoc_cache db) of
        Inl e \<Rightarrow> Inl e
      | Inr cache \<Rightarrow> Inr (db\<lparr>assoc_cache := cache\<rparr>))"

definition get_search_domains :: "nat \<Rightarrow> string \<Rightarrow> 'a scopes_db_scheme \<Rightarrow> string list \<times> 'a scopes_db_scheme" where
  "get_search_domains now ip db =
     (case get_scope_for_ip now ip db of
        (None, db1) \<Rightarrow> ([], db1)
      | (Some scope_name, db1) \<Rightarrow>
          (case get_network_scope db1 scope_name of
             None \<Rightarrow> ([], db1)
           | Some scope \<Rightarrow> (foldl push_new [ns_home scope] (list_scope_tlds db1 scope_name), db1)))"

section \<open>Records of a scope\<close>

text \<open>\<open>scoped_record_cache.entry(key).and_modify(push).or_insert(vec![record])\<close>.\<close>

definition cache_push :: "string \<Rightarrow> dns_record \<Rightarrow> (string, dns_record list) table \<Rightarrow> (string, dns_record list) table" where
  "cache_push key r cache =
     AList.update key (case map_of cache key of Some rs \<Rightarrow> rs @ [r] | None \<Rightarrow> [r]) cache"

definition add_scoped_record :: "string \<Rightarrow> dns_record \<Rightarrow> 'a scopes_db_scheme \<Rightarrow> int \<times> 'a scopes_db_scheme" where
  "add_scoped_record scope_name r db =
     (let normalized = normalize_name (dr_name r);
          i = next_scoped_id db;
          row = \<lparr>row_id = i, row_name = normalized, row_type = as_str (dr_type r), row_value = dr_value r,
                 row_ttl = dr_ttl r, row_priority = dr_priority r\<rparr>;
          cached = \<lparr>dr_id = Some i, dr_name = normalized, dr_type = dr_type r, dr_value = dr_value r,
                    dr_ttl = dr_ttl r, dr_priority = dr_priority r\<rparr>;
          key = scoped_record_cache_key scope_name normalized (Some (dr_type r))
      in (i, db\<lparr>scoped_rows := scoped_rows db @ [\<lparr>sr_scope = scope_name, sr_row = row\<rparr>],
                next_scoped_id := i + 1,
                scoped_cache := cache_push key cached (scoped_cache db)\<rparr>))"

definition remove_scoped_records ::
  "string \<Rightarrow> string \<Rightarrow> RecordKind option \<Rightarrow> string \<Rightarrow> 'a scopes_db_scheme \<Rightarrow> nat \<times> 'a scopes_db_scheme" where
  "remove_scoped_records scope_name name record_type val db =
     (let normalized = normalize_name name;
          keep = filter (\<lambda>r. \<not> (sr_scope r = scope_name \<and> delete_matches normalized record_type val (sr_row r)))
                   (scoped_rows db)
      in (length (scoped_rows db) - length keep,
          db\<lparr>scoped_rows := keep,
             scoped_cache := retain (\<lambda>key _. \<not> starts_with key (scope_name @ '':'' @ normalized)) (scoped_cache db)\<rparr>))"

definition lookup_scoped_exact ::
  "(string, dns_record list) table \<Rightarrow> string \<Rightarrow> string \<Rightarrow> RecordKind option \<Rightarrow> dns_record list" where
  "lookup_scoped_exact cache scope_name normalized record_type =
     (case record_type of
        Some rt \<Rightarrow>
          (case map_of cache (scoped_record_cache_key scope_name normalized (Some rt)) of
             Some rs \<Rightarrow> rs
           | None \<Rightarrow> [])
      | None \<Rightarrow>
          (let pre = scope_name @ '':'' @ normalized @ '':''
           in concat (map snd (filter (\<lambda>(key, _). starts_with key pre) cache))))"

definition lookup_scoped_no_wildcard ::
  "'a scopes_db_scheme \<Rightarrow> string \<Rightarrow> string \<Rightarrow> RecordKind option \<Rightarrow> dns_record list" where
  "lookup_scoped_no_wildcard db scope_name name record_type =
     lookup_scoped_exact (scoped_cache db) scope_name (normalize_name name) record_type"

definition lookup_scoped :: "'a scopes_db_scheme \<Rightarrow> string \<Rightarrow> string \<Rightarrow> RecordKind option \<Rightarrow> dns_record list" where
  "lookup_scoped db scope_name name record_type =
     (let normalized = normalize_name name;
          records = lookup_scoped_exact (scoped_cache db) scope_name normalized record_type
      in if records = []
         then (case make_wildcard_name normalized of
                 Some wildcard_name \<Rightarrow>
                   (let wildcard_records = lookup_scoped_exact (scoped_cache db) scope_name wildcard_name record_type
                    in if wildcard_records \<noteq> []
                       then map (\<lambda>r. r\<lparr>dr_name := normalized\<rparr>) wildcard_records
                       else records)
               | None \<Rightarrow> records)
         else records)"

definition closest_scoped_soa :: "'a scopes_db_scheme \<Rightarrow> string \<Rightarrow> string \<Rightarrow> dns_record list" where
  "closest_scoped_soa db scope_name name =
     (case find_map (\<lambda>candidate.
              (let found = lookup_scoped_no_wildcard db scope_name candidate (Some SOA)
               in if found \<noteq> [] then Some found else None))
            (ancestor_names (normalize_name name)) of
        Some found \<Rightarrow> found
      | None \<Rightarrow> [])"

definition scoped_wildcard_owner_for :: "'a scopes_db_scheme \<Rightarrow> string \<Rightarrow> string \<Rightarrow> string option" where
  "scoped_wildcard_owner_for db scope_name name =
     (case make_wildcard_name (normalize_name name) of
        None \<Rightarrow> None
      | Some wildcard \<Rightarrow>
          if lookup_scoped_no_wildcard db scope_name wildcard None \<noteq> [] then Some wildcard else None)"

definition rsplit_once :: "char \<Rightarrow> string \<Rightarrow> (string \<times> string) option" where
  "rsplit_once c s = map_option (\<lambda>(a, b). (rev b, rev a)) (split_once c (rev s))"

definition scoped_name_occupied :: "'a scopes_db_scheme \<Rightarrow> string \<Rightarrow> string \<Rightarrow> bool" where
  "scoped_name_occupied db scope_name name =
     (let normalized = normalize_name name;
          at = scope_name @ '':'' @ normalized @ '':'';
          scope_prefix = scope_name @ '':'';
          beneath = [dot] @ normalized
      in list_ex (\<lambda>(key, _).
             if starts_with key at then True
             else (case strip_prefix scope_prefix key of
                     None \<Rightarrow> False
                   | Some rest \<Rightarrow>
                       (case rsplit_once (CHR '':'') rest of
                          None \<Rightarrow> False
                        | Some (record_name, _) \<Rightarrow> ends_with record_name beneath)))
           (scoped_cache db))"

text \<open>\<open>load_scoped_records_into_cache\<close> forgets the row identifiers.\<close>

definition load_scoped_records_into_cache :: "'a scopes_db_scheme \<Rightarrow> 'a scopes_db_scheme" where
  "load_scoped_records_into_cache db =
     db\<lparr>scoped_cache :=
       foldl (\<lambda>cache r.
           let rec = (row_mapper (sr_row r))\<lparr>dr_id := None\<rparr>
           in cache_push (scoped_record_cache_key (sr_scope r) (dr_name rec) (Some (dr_type rec))) rec cache)
         (scoped_cache db) (scoped_rows db)\<rparr>"

text \<open>
  Listing goes through \<open>idx_scoped_dns_name_type\<close> on \<open>(scope_name, name, record_type)\<close> and so by name, then type,
  then row number; with an exact name the rows come by row number.
\<close>

definition list_scoped_records :: "'a scopes_db_scheme \<Rightarrow> string \<Rightarrow> string \<Rightarrow> RecordKind option \<Rightarrow> dns_record list" where
  "list_scoped_records db scope_name name_filter record_type =
     (let rows = map sr_row (filter (\<lambda>r.
            sr_scope r = scope_name
            \<and> (name_filter = [] \<or> name_filter_matches name_filter (sr_row r))
            \<and> (case record_type of Some rt \<Rightarrow> row_type (sr_row r) = as_str rt | None \<Rightarrow> True)) (scoped_rows db))
      in map row_mapper
           (if name_filter = [] \<or> strip_prefix ''*.'' name_filter \<noteq> None
            then sort_key row_name (by_record_type rows) else rows))"

section \<open>Operations as steps\<close>

datatype scope_op =
    CreateScope network_scope
  | DeleteScope string
  | AddTld string string
  | RemoveTld string string
  | SetListener string string IpAddr
  | RemoveListener string string
  | SetForwarders string string "string list"
  | Join int nat string string u64
  | Leave string
  | ScopeForIp nat string
  | AddScoped string dns_record
  | RemoveScoped string string "RecordKind option" string

fun scope_step :: "scope_op \<Rightarrow> 'a scopes_db_scheme \<Rightarrow> 'a scopes_db_scheme" where
  "scope_step (CreateScope s) db = (case create_network_scope s db of Inr db' \<Rightarrow> db' | Inl _ \<Rightarrow> db)"
| "scope_step (DeleteScope n) db = snd (delete_network_scope n db)"
| "scope_step (AddTld s t) db = (case add_scope_tld s t db of Inr db' \<Rightarrow> db' | Inl _ \<Rightarrow> db)"
| "scope_step (RemoveTld s t) db = (case remove_scope_tld s t db of Inr (_, db') \<Rightarrow> db' | Inl _ \<Rightarrow> db)"
| "scope_step (SetListener s t ip) db = (case set_tld_listener s t ip db of Inr db' \<Rightarrow> db' | Inl _ \<Rightarrow> db)"
| "scope_step (RemoveListener s t) db = snd (remove_tld_listener s t db)"
| "scope_step (SetForwarders s t fs) db = (case set_scope_tld_forwarders s t fs db of Inr db' \<Rightarrow> db' | Inl _ \<Rightarrow> db)"
| "scope_step (Join w now ip s ttl) db = snd (join_network w now ip s ttl db)"
| "scope_step (Leave ip) db = snd (leave_network ip db)"
| "scope_step (ScopeForIp now ip) db = snd (get_scope_for_ip now ip db)"
| "scope_step (AddScoped s r) db = snd (add_scoped_record s r db)"
| "scope_step (RemoveScoped s n t v) db = snd (remove_scoped_records s n t v db)"

text \<open>A poisoned lock turns every operation but the lookup in the association cache into an error.\<close>

definition takes_lock :: "scope_op \<Rightarrow> bool" where
  "takes_lock op = (case op of ScopeForIp _ _ \<Rightarrow> False | _ \<Rightarrow> True)"

definition scopes_exec :: "scope_op \<Rightarrow> 'a scopes_db_scheme \<Rightarrow> 'a scopes_db_scheme" where
  "scopes_exec op db = (if lock_poisoned db \<and> takes_lock op then db else scope_step op db)"

abbreviation scopes_run :: "scope_op list \<Rightarrow> 'a scopes_db_scheme \<Rightarrow> 'a scopes_db_scheme" where
  "scopes_run ops db \<equiv> fold scopes_exec ops db"

text \<open>What \<open>load_caches_at_boot\<close> derives from the tables of this component.\<close>

definition boot_tld_owner :: "'a scopes_db_scheme \<Rightarrow> (string, string) table" where
  "boot_tld_owner db =
     foldl (\<lambda>m (scope, tld). AList.update (normalize_name tld) scope m)
       (foldl (\<lambda>m s. AList.update (normalize_name (ns_home s)) (ns_name s) m) [] (network_scopes db))
       (tld_rows db)"

definition boot_ingress :: "'a scopes_db_scheme \<Rightarrow> (string, IpAddr) table" where
  "boot_ingress db =
     foldl (\<lambda>m ((_, tld), ip). AList.update (normalize_name tld) ip m) [] (listener_rows db)"

section \<open>Ownership of zones\<close>

definition owned_pairs :: "'a scopes_db_scheme \<Rightarrow> (string \<times> string) set" where
  "owned_pairs db = set (map (\<lambda>s. (ns_name s, ns_home s)) (network_scopes db)) \<union> set (tld_rows db)"

definition tld_inv :: "'a scopes_db_scheme \<Rightarrow> bool" where
  "tld_inv db \<longleftrightarrow>
     wf_table (tld_owner db)
     \<and> (\<forall>s t. map_of (tld_owner db) t = Some s \<longleftrightarrow> (s, t) \<in> owned_pairs db)
     \<and> distinct (map ns_name (network_scopes db))
     \<and> (\<forall>(s, t)\<in>owned_pairs db. normalize_name t = t)
     \<and> fst ` set (tld_rows db) \<subseteq> ns_name ` set (network_scopes db)
     \<and> distinct (tld_rows db)
     \<and> scope_count db = length (network_scopes db)"

lemma tld_inv_empty: "tld_inv empty_scopes_db"
  by (simp add: tld_inv_def empty_scopes_db_def records_db.defs owned_pairs_def wf_table_def keys_def)

lemma tld_inv_wf: "tld_inv db \<Longrightarrow> wf_table (tld_owner db)"
  by (simp add: tld_inv_def)

lemma other_owner_None:
  "other_owner db t s = None \<longleftrightarrow> map_of (tld_owner db) t = None \<or> map_of (tld_owner db) t = Some s"
  by (auto simp: other_owner_def split: option.splits)

lemma tld_inv_cong:
  "network_scopes db' = network_scopes db \<Longrightarrow> tld_rows db' = tld_rows db \<Longrightarrow>
    tld_owner db' = tld_owner db \<Longrightarrow> scope_count db' = scope_count db \<Longrightarrow> tld_inv db' = tld_inv db"
  by (simp add: tld_inv_def owned_pairs_def)

lemma tld_inv_create:
  assumes "tld_inv db" "create_network_scope scope db = Inr db'"
  shows "tld_inv db'"
proof -
  let ?h = "normalize_name (ns_home scope)"
  have owner: "other_owner db ?h (ns_name scope) = None"
    and fresh: "\<forall>s\<in>set (network_scopes db). ns_name s \<noteq> ns_name scope"
    and db': "db' = db\<lparr>network_scopes := network_scopes db @ [\<lparr>ns_name = ns_name scope, ns_home = ?h\<rparr>],
        scope_count := scope_count db + 1, tld_owner := AList.update ?h (ns_name scope) (tld_owner db)\<rparr>"
    using assms(2)
    by (auto simp: create_network_scope_def Let_def list_ex_iff split: option.splits if_splits)
  have "owned_pairs db' = insert (ns_name scope, ?h) (owned_pairs db)"
    by (auto simp: db' owned_pairs_def)
  moreover have "s = ns_name scope" if "(s, ?h) \<in> owned_pairs db" for s
    using owner that assms(1) unfolding other_owner_None tld_inv_def by (metis option.distinct(1) option.inject)
  ultimately show ?thesis
    using assms(1) fresh unfolding tld_inv_def by (auto simp: db' wf_table_update)
qed

lemma tld_inv_add:
  assumes "tld_inv db" "add_scope_tld scope tld db = Inr db'"
  shows "tld_inv db'"
proof -
  let ?t = "normalize_name tld"
  have owner: "other_owner db ?t scope = None" and ex: "get_network_scope db scope \<noteq> None"
    and db': "db' = db\<lparr>tld_rows := (if \<exists>s\<in>set (tld_rows db). snd s = ?t then tld_rows db
        else tld_rows db @ [(scope, ?t)]), tld_owner := AList.update ?t scope (tld_owner db)\<rparr>"
    using assms(2) by (auto simp: add_scope_tld_def Let_def split: option.splits if_splits)
  have same: "s = scope" if "(s, ?t) \<in> owned_pairs db" for s
    using owner that assms(1) unfolding other_owner_None tld_inv_def by (metis option.distinct(1) option.inject)
  then have "owned_pairs db' = insert (scope, ?t) (owned_pairs db)"
    by (force simp: db' owned_pairs_def)
  moreover have "scope \<in> ns_name ` set (network_scopes db)"
    using ex by (auto simp: get_network_scope_def find_None_iff)
  ultimately show ?thesis
    using assms(1) same unfolding tld_inv_def by (auto simp: db' wf_table_update)
qed

lemma tld_inv_remove:
  assumes "tld_inv db" "remove_scope_tld scope tld db = Inr (b, db')"
  shows "tld_inv db'"
proof -
  let ?t = "normalize_name tld"
  let ?keep = "filter (\<lambda>r. r \<noteq> (scope, ?t)) (tld_rows db)"
  have home: "ns_home s \<noteq> ?t" if "s \<in> set (network_scopes db)" "ns_name s = scope" for s
  proof -
    have "get_network_scope db scope = Some s"
      using that assms(1) unfolding get_network_scope_def tld_inv_def
      by (auto intro!: find_unique_key)
    then show ?thesis
      using assms(2) by (auto simp: remove_scope_tld_def Let_def split: if_splits)
  qed
  show ?thesis
  proof (cases "(scope, ?t) \<in> set (tld_rows db)")
    case True
    then have less: "length ?keep < length (tld_rows db)"
      by (auto intro: length_filter_less)
    then have tables: "tld_rows db' = ?keep" "network_scopes db' = network_scopes db"
      "scope_count db' = scope_count db" "tld_owner db' = AList.delete ?t (tld_owner db)"
      using assms(2) by (auto simp: remove_scope_tld_def Let_def split: if_splits)
    have pairs: "owned_pairs db' = owned_pairs db - {(scope, ?t)}"
      by (auto simp: owned_pairs_def tables dest: home)
    have same: "s = scope" if "(s, ?t) \<in> owned_pairs db" for s
    proof -
      have "(scope, ?t) \<in> owned_pairs db" using True by (simp add: owned_pairs_def)
      then show ?thesis using that assms(1) unfolding tld_inv_def by (metis option.inject)
    qed
    show ?thesis
      using assms(1) same unfolding tld_inv_def pairs tables
      by (auto simp: wf_table_delete)
  next
    case False
    then have "?keep = tld_rows db" by (auto simp: filter_id_conv)
    then have "tld_rows db' = tld_rows db" "network_scopes db' = network_scopes db"
      "scope_count db' = scope_count db" "tld_owner db' = tld_owner db"
      using assms(2) by (auto simp: remove_scope_tld_def Let_def split: if_splits)
    then show ?thesis using assms(1) tld_inv_cong by blast
  qed
qed

lemma tld_inv_delete:
  assumes "tld_inv db"
  shows "tld_inv (snd (delete_network_scope name db))"
proof -
  let ?db' = "snd (delete_network_scope name db)"
  let ?keep = "filter (\<lambda>s. ns_name s \<noteq> name) (network_scopes db)"
  have tables: "network_scopes ?db' = ?keep" "tld_rows ?db' = filter (\<lambda>(s, _). s \<noteq> name) (tld_rows db)"
    "tld_owner ?db' = retain (\<lambda>_ owner. owner \<noteq> name) (tld_owner db)"
    by (simp_all add: delete_network_scope_def Let_def)
  have pairs: "owned_pairs ?db' = {(s, t) \<in> owned_pairs db. s \<noteq> name}"
    by (auto simp: owned_pairs_def tables)
  have map: "map_of (tld_owner ?db') t = Some s \<longleftrightarrow> map_of (tld_owner db) t = Some s \<and> s \<noteq> name" for s t
    using tld_inv_wf [OF assms] unfolding tables by (auto simp: map_of_retain split: option.splits if_splits)
  have count: "scope_count ?db' = length ?keep"
  proof -
    have "distinct (map ns_name (network_scopes db))" using assms by (simp add: tld_inv_def)
    from length_filter_key [OF this, of name] show ?thesis
      using assms sum_length_filter_compl [of "\<lambda>s. ns_name s = name" "network_scopes db"]
      by (auto simp: delete_network_scope_def Let_def tld_inv_def)
  qed
  have "distinct (map ns_name ?keep)"
    using assms by (auto simp: tld_inv_def distinct_map_filter)
  then show ?thesis
    using assms map count unfolding tld_inv_def pairs
    by (auto simp: tables wf_table_retain)
qed

lemma set_forwarders_keeps:
  assumes "set_scope_tld_forwarders s t fs db = Inr db'"
  shows "network_scopes db' = network_scopes db" "tld_rows db' = tld_rows db"
    "tld_owner db' = tld_owner db" "scope_count db' = scope_count db"
    "scoped_rows db' = scoped_rows db" "scoped_cache db' = scoped_cache db"
  using assms by (auto simp: set_scope_tld_forwarders_def Let_def split: sum.splits option.splits)

lemmas scope_op_defs =
  set_tld_listener_def remove_tld_listener_def join_network_def leave_network_def
  get_scope_for_ip_def add_scoped_record_def remove_scoped_records_def

lemma tld_inv_step:
  assumes "tld_inv db"
  shows "tld_inv (scope_step op db)"
proof (cases op)
  case (CreateScope s)
  then show ?thesis using assms by (auto intro: tld_inv_create split: sum.split)
next
  case (DeleteScope n)
  then show ?thesis using assms tld_inv_delete by simp
next
  case (AddTld s t)
  then show ?thesis using assms by (auto intro: tld_inv_add split: sum.split)
next
  case (RemoveTld s t)
  then show ?thesis using assms by (auto intro: tld_inv_remove split: sum.split)
next
  case (SetForwarders s t fs)
  then show ?thesis
  proof (cases "set_scope_tld_forwarders s t fs db")
    case (Inr db')
    then show ?thesis
      using assms SetForwarders tld_inv_cong [OF set_forwarders_keeps(1-4) [OF Inr]] by simp
  qed (use assms SetForwarders in simp)
qed (use assms in \<open>auto simp: scope_op_defs Let_def tld_inv_def owned_pairs_def split: option.splits sum.splits\<close>)

lemma tld_inv_run: "tld_inv db \<Longrightarrow> tld_inv (scopes_run ops db)"
  by (induction ops arbitrary: db) (auto simp: scopes_exec_def tld_inv_step)

lemma map_of_foldl_update:
  "map_of (foldl (\<lambda>m x. AList.update (f x) (g x) m) m0 xs) = map_of m0 ++ map_of (map (\<lambda>x. (f x, g x)) (rev xs))"
  by (induction xs arbitrary: m0) (auto simp: map_add_def fun_eq_iff split: option.splits)

lemma map_of_graph:
  assumes "\<And>t s. m t = Some s \<longleftrightarrow> (t, s) \<in> set xs"
  shows "map_of xs = m"
proof (rule ext)
  fix t
  show "map_of xs t = m t"
  proof (cases "map_of xs t")
    case None
    then have "(t, s) \<notin> set xs" for s by (metis weak_map_of_SomeI option.distinct(1))
    then have "m t \<noteq> Some s" for s using assms by simp
    then show ?thesis using None by (cases "m t") auto
  next
    case (Some s)
    then have "m t = Some s" using assms map_of_SomeD by metis
    then show ?thesis using Some by simp
  qed
qed

text \<open>A restart rebuilds the ownership table that the operations maintained.\<close>

lemma boot_tld_owner_eq:
  assumes "tld_inv db"
  shows "map_of (boot_tld_owner db) = map_of (tld_owner db)"
proof -
  let ?A = "map (\<lambda>s. (normalize_name (ns_home s), ns_name s)) (rev (network_scopes db))"
  let ?B = "map (\<lambda>p. (normalize_name (snd p), fst p)) (rev (tld_rows db))"
  have nA: "normalize_name (ns_home x) = ns_home x" if "x \<in> set (network_scopes db)" for x
    using assms that by (auto simp: tld_inv_def owned_pairs_def)
  have nB: "normalize_name (snd p) = snd p" if "p \<in> set (tld_rows db)" for p
    using assms that by (cases p) (auto simp: tld_inv_def owned_pairs_def)
  have A: "(t, s) \<in> set ?A \<longleftrightarrow> (\<exists>x\<in>set (network_scopes db). ns_home x = t \<and> ns_name x = s)" for t s
    using nA by (auto simp: image_iff)
  have B: "(t, s) \<in> set ?B \<longleftrightarrow> (s, t) \<in> set (tld_rows db)" for t s
    using nB by (force simp: image_iff)
  have "(t, s) \<in> set (?B @ ?A) \<longleftrightarrow> (s, t) \<in> owned_pairs db" for t s
    unfolding set_append Un_iff A B by (auto simp: owned_pairs_def)
  moreover have "map_of (tld_owner db) t = Some s \<longleftrightarrow> (s, t) \<in> owned_pairs db" for t s
    using assms by (simp add: tld_inv_def)
  ultimately have "map_of (?B @ ?A) = map_of (tld_owner db)"
    by (intro map_of_graph) blast
  then show ?thesis
    unfolding boot_tld_owner_def split_def map_of_foldl_update map_of_append by simp
qed

section \<open>Records of a scope\<close>

lemma append_colon_inject:
  assumes "CHR '':'' \<notin> set s" "CHR '':'' \<notin> set s'"
  shows "s @ CHR '':'' # a = s' @ CHR '':'' # b \<longleftrightarrow> s = s' \<and> a = b"
proof
  assume eq: "s @ CHR '':'' # a = s' @ CHR '':'' # b"
  have "split_once (CHR '':'') (s @ CHR '':'' # a) = Some (s, a)"
    using assms by (simp add: split_once_Some)
  moreover have "split_once (CHR '':'') (s' @ CHR '':'' # b) = Some (s', b)"
    using assms by (simp add: split_once_Some)
  ultimately show "s = s' \<and> a = b" unfolding eq by simp
qed simp

lemma append_colon_inject_last:
  assumes "CHR '':'' \<notin> set b" "CHR '':'' \<notin> set b'"
  shows "a @ CHR '':'' # b = a' @ CHR '':'' # b' \<longleftrightarrow> a = a' \<and> b = b'"
proof -
  have "a @ CHR '':'' # b = a' @ CHR '':'' # b' \<longleftrightarrow>
      rev b @ CHR '':'' # rev a = rev b' @ CHR '':'' # rev a'"
    by (metis (no_types, lifting) append.assoc append_Cons append_Nil rev.simps(2) rev_append rev_rev_ident)
  also have "\<dots> \<longleftrightarrow> rev b = rev b' \<and> rev a = rev a'"
    using assms by (intro append_colon_inject) auto
  finally show ?thesis by auto
qed

lemma as_str_no_colon: "CHR '':'' \<notin> set (as_str k)"
  by (cases k) auto

lemma cache_key_inject:
  assumes "CHR '':'' \<notin> set s" "CHR '':'' \<notin> set s'"
  shows "scoped_record_cache_key s n (Some t) = scoped_record_cache_key s' n' (Some t') \<longleftrightarrow>
    s = s' \<and> n = n' \<and> t = t'"
  unfolding scoped_record_cache_key_def
  using append_colon_inject [OF assms] append_colon_inject_last [OF as_str_no_colon as_str_no_colon]
  by simp

lemma starts_with_append [simp]: "starts_with (p @ s) p"
  by (simp add: starts_with_def)

lemma cache_key_prefix:
  "scoped_record_cache_key s n (Some t) = s @ '':'' @ n @ '':'' @ as_str t"
  by (simp add: scoped_record_cache_key_def)

definition sr_key :: "scoped_row \<Rightarrow> string" where
  "sr_key q = scoped_record_cache_key (sr_scope q) (row_name (sr_row q)) (Some (dr_type (row_mapper (sr_row q))))"

definition same_record :: "dns_record \<Rightarrow> scoped_row \<Rightarrow> bool" where
  "same_record r q \<longleftrightarrow> r\<lparr>dr_id := Some (row_id (sr_row q))\<rparr> = row_mapper (sr_row q)"

text \<open>Everything cached is a row of the table, under the key of that row.\<close>

definition scoped_sound :: "'a scopes_db_scheme \<Rightarrow> bool" where
  "scoped_sound db \<longleftrightarrow>
     wf_table (scoped_cache db)
     \<and> (\<forall>K rs. map_of (scoped_cache db) K = Some rs \<longrightarrow>
          (\<forall>r\<in>set rs. \<exists>q\<in>set (scoped_rows db). same_record r q \<and> K = sr_key q))
     \<and> (\<forall>q\<in>set (scoped_rows db). row_type (sr_row q) \<in> range as_str)"

lemma scoped_sound_empty: "scoped_sound empty_scopes_db"
  by (simp add: scoped_sound_def empty_scopes_db_def records_db.defs)

lemma scoped_sound_shrink:
  assumes "scoped_sound db"
    and rows: "\<And>q. q \<in> set (scoped_rows db') \<Longrightarrow> q \<in> set (scoped_rows db)"
    and cache: "scoped_cache db' = retain (\<lambda>K _. P K) (scoped_cache db)"
    and gone: "\<And>q. q \<in> set (scoped_rows db) \<Longrightarrow> P (sr_key q) \<Longrightarrow> q \<in> set (scoped_rows db')"
  shows "scoped_sound db'"
proof -
  have wf: "wf_table (scoped_cache db)" using assms(1) by (simp add: scoped_sound_def)
  have get: "map_of (scoped_cache db') K = Some rs \<longleftrightarrow> map_of (scoped_cache db) K = Some rs \<and> P K" for K rs
    using wf unfolding cache by (auto simp: map_of_retain split: option.splits if_splits)
  show ?thesis
    unfolding scoped_sound_def get
  proof (intro conjI allI impI ballI)
    show "wf_table (scoped_cache db')" using wf by (simp add: cache)
  next
    fix K rs r
    assume "map_of (scoped_cache db) K = Some rs \<and> P K" "r \<in> set rs"
    then show "\<exists>q\<in>set (scoped_rows db'). same_record r q \<and> K = sr_key q"
      using assms(1) gone unfolding scoped_sound_def by metis
  next
    fix q assume "q \<in> set (scoped_rows db')"
    then show "row_type (sr_row q) \<in> range as_str"
      using assms(1) rows by (auto simp: scoped_sound_def)
  qed
qed

lemma map_of_cache_push:
  "map_of (cache_push key r cache) K =
    (if K = key then Some ((case map_of cache key of Some rs \<Rightarrow> rs | None \<Rightarrow> []) @ [r]) else map_of cache K)"
  by (auto simp: cache_push_def split: option.splits)

lemma scoped_sound_push:
  assumes "scoped_sound db" "same_record r q" "row_type (sr_row q) \<in> range as_str"
    and "scoped_rows db' = scoped_rows db @ [q]" "scoped_cache db' = cache_push (sr_key q) r (scoped_cache db)"
  shows "scoped_sound db'"
  unfolding scoped_sound_def assms(4,5)
proof (intro conjI allI impI ballI)
  show "wf_table (cache_push (sr_key q) r (scoped_cache db))"
    using assms(1) by (simp add: scoped_sound_def cache_push_def)
next
  fix K rs x
  assume K: "map_of (cache_push (sr_key q) r (scoped_cache db)) K = Some rs" and x: "x \<in> set rs"
  show "\<exists>q'\<in>set (scoped_rows db @ [q]). same_record x q' \<and> K = sr_key q'"
  proof (cases "K = sr_key q \<and> x = r")
    case True
    then show ?thesis using assms(2) by auto
  next
    case False
    then obtain rs' where "map_of (scoped_cache db) K = Some rs'" "x \<in> set rs'"
      using K x by (auto simp: map_of_cache_push split: if_splits option.splits)
    then show ?thesis using assms(1) unfolding scoped_sound_def by fastforce
  qed
next
  fix q' assume "q' \<in> set (scoped_rows db @ [q])"
  then show "row_type (sr_row q') \<in> range as_str"
    using assms(1,3) by (auto simp: scoped_sound_def)
qed

lemma scoped_sound_add:
  assumes "scoped_sound db"
  shows "scoped_sound (snd (add_scoped_record s r db))"
  by (rule scoped_sound_push [OF assms, where q = "\<lparr>sr_scope = s, sr_row = \<lparr>row_id = next_scoped_id db,
        row_name = normalize_name (dr_name r), row_type = as_str (dr_type r), row_value = dr_value r,
        row_ttl = dr_ttl r, row_priority = dr_priority r\<rparr>\<rparr>"
      and r = "\<lparr>dr_id = Some (next_scoped_id db), dr_name = normalize_name (dr_name r), dr_type = dr_type r,
        dr_value = dr_value r, dr_ttl = dr_ttl r, dr_priority = dr_priority r\<rparr>"])
    (simp_all add: add_scoped_record_def Let_def same_record_def row_mapper_def sr_key_def)

lemma sr_key_prefix: "row_name (sr_row q) = n \<Longrightarrow> starts_with (sr_key q) (sr_scope q @ '':'' @ n)"
  by (simp add: sr_key_def cache_key_prefix starts_with_def)

lemma sr_key_scope: "starts_with (sr_key q) (sr_scope q @ '':'')"
  by (simp add: sr_key_def cache_key_prefix starts_with_def)

lemma scoped_sound_remove:
  assumes "scoped_sound db"
  shows "scoped_sound (snd (remove_scoped_records s n t v db))"
  by (rule scoped_sound_shrink [OF assms, where P = "\<lambda>K. \<not> starts_with K (s @ '':'' @ normalize_name n)"])
    (auto simp: remove_scoped_records_def Let_def dest!: delete_matches_name dest: sr_key_prefix)

lemma scoped_sound_delete:
  assumes "scoped_sound db"
  shows "scoped_sound (snd (delete_network_scope s db))"
  using sr_key_scope
  by (intro scoped_sound_shrink [OF assms, where P = "\<lambda>K. \<not> starts_with K (s @ '':'')"])
    (auto simp: delete_network_scope_def Let_def)

lemma scoped_sound_cong:
  "scoped_rows db' = scoped_rows db \<Longrightarrow> scoped_cache db' = scoped_cache db \<Longrightarrow> scoped_sound db' = scoped_sound db"
  by (simp add: scoped_sound_def)

lemma scoped_unchanged:
  assumes "\<forall>n. op \<noteq> DeleteScope n" "\<forall>s r. op \<noteq> AddScoped s r" "\<forall>s n t v. op \<noteq> RemoveScoped s n t v"
  shows "scoped_rows (scope_step op db) = scoped_rows db" "scoped_cache (scope_step op db) = scoped_cache db"
    "next_scoped_id (scope_step op db) = next_scoped_id db"
  using assms
  by (cases op; auto simp: create_network_scope_def add_scope_tld_def remove_scope_tld_def
      set_scope_tld_forwarders_def scope_op_defs Let_def split: option.splits sum.splits)+

lemma scoped_sound_step:
  assumes "scoped_sound db"
  shows "scoped_sound (scope_step op db)"
proof -
  consider n where "op = DeleteScope n" | s r where "op = AddScoped s r"
    | s n t v where "op = RemoveScoped s n t v"
    | "\<forall>n. op \<noteq> DeleteScope n" "\<forall>s r. op \<noteq> AddScoped s r" "\<forall>s n t v. op \<noteq> RemoveScoped s n t v"
    by blast
  then show ?thesis
  proof cases
    case 1
    then show ?thesis using scoped_sound_delete [OF assms] by simp
  next
    case 2
    then show ?thesis using scoped_sound_add [OF assms] by simp
  next
    case 3
    then show ?thesis using scoped_sound_remove [OF assms] by simp
  next
    case 4
    then show ?thesis using assms scoped_sound_cong [OF scoped_unchanged(1,2) [where db = db, OF 4]] by simp
  qed
qed

lemma scoped_sound_run: "scoped_sound db \<Longrightarrow> scoped_sound (scopes_run ops db)"
  by (induction ops arbitrary: db) (auto simp: scopes_exec_def scoped_sound_step)

text \<open>Without removals and with colon-free scope names, the cache holds exactly the table.\<close>

definition scoped_exact :: "'a scopes_db_scheme \<Rightarrow> bool" where
  "scoped_exact db \<longleftrightarrow>
     wf_table (scoped_cache db)
     \<and> (\<forall>q\<in>set (scoped_rows db). row_type (sr_row q) \<in> range as_str \<and> CHR '':'' \<notin> set (sr_scope q))
     \<and> (\<forall>K. (case map_of (scoped_cache db) K of Some rs \<Rightarrow> rs | None \<Rightarrow> []) =
          map (\<lambda>q. row_mapper (sr_row q)) (filter (\<lambda>q. sr_key q = K) (scoped_rows db)))"

definition plain_scope_op :: "scope_op \<Rightarrow> bool" where
  "plain_scope_op op =
     (case op of
        RemoveScoped _ _ _ _ \<Rightarrow> False
      | AddScoped s _ \<Rightarrow> CHR '':'' \<notin> set s
      | DeleteScope s \<Rightarrow> CHR '':'' \<notin> set s
      | _ \<Rightarrow> True)"

lemma scoped_exact_add:
  assumes "scoped_exact db" "CHR '':'' \<notin> set s"
  shows "scoped_exact (snd (add_scoped_record s r db))"
proof -
  define q where "q = \<lparr>sr_scope = s, sr_row = \<lparr>row_id = next_scoped_id db,
      row_name = normalize_name (dr_name r), row_type = as_str (dr_type r), row_value = dr_value r,
      row_ttl = dr_ttl r, row_priority = dr_priority r\<rparr>\<rparr>"
  let ?db' = "snd (add_scoped_record s r db)"
  have rows: "scoped_rows ?db' = scoped_rows db @ [q]"
    by (simp add: add_scoped_record_def Let_def q_def)
  have cache: "scoped_cache ?db' = cache_push (sr_key q) (row_mapper (sr_row q)) (scoped_cache db)"
    by (simp add: add_scoped_record_def Let_def q_def sr_key_def row_mapper_def)
  have "wf_table (cache_push (sr_key q) (row_mapper (sr_row q)) (scoped_cache db))"
    using assms(1) by (simp add: scoped_exact_def cache_push_def)
  moreover have "row_type (sr_row q) \<in> range as_str" "sr_scope q = s"
    by (simp_all add: q_def)
  ultimately show ?thesis
    using assms unfolding scoped_exact_def rows cache map_of_cache_push by auto
qed

lemma sr_key_starts:
  assumes "CHR '':'' \<notin> set (sr_scope q)" "CHR '':'' \<notin> set s"
  shows "starts_with (sr_key q) (s @ '':'') \<longleftrightarrow> sr_scope q = s"
proof
  assume "starts_with (sr_key q) (s @ '':'')"
  then obtain z where "s @ CHR '':'' # z = sr_scope q @ CHR '':'' # (row_name (sr_row q) @ '':'' @
      as_str (dr_type (row_mapper (sr_row q))))"
    by (auto simp: starts_with_def prefix_def sr_key_def cache_key_prefix)
  then show "sr_scope q = s" using append_colon_inject [OF assms(2,1)] by metis
next
  assume "sr_scope q = s"
  then show "starts_with (sr_key q) (s @ '':'')" using sr_key_scope [of q] by simp
qed

lemma scoped_exact_delete:
  assumes "scoped_exact db" "CHR '':'' \<notin> set s"
  shows "scoped_exact (snd (delete_network_scope s db))"
proof -
  let ?db' = "snd (delete_network_scope s db)" and ?P = "\<lambda>K. \<not> starts_with K (s @ '':'')"
  have wf: "wf_table (scoped_cache db)" using assms(1) by (simp add: scoped_exact_def)
  have rows: "scoped_rows ?db' = filter (\<lambda>q. ?P (sr_key q)) (scoped_rows db)"
    using assms sr_key_starts
    by (auto simp: delete_network_scope_def Let_def scoped_exact_def intro!: filter_cong)
  have cache: "scoped_cache ?db' = retain (\<lambda>K _. ?P K) (scoped_cache db)"
    by (simp add: delete_network_scope_def Let_def)
  have "(case map_of (scoped_cache ?db') K of Some rs \<Rightarrow> rs | None \<Rightarrow> []) =
      map (\<lambda>q. row_mapper (sr_row q)) (filter (\<lambda>q. sr_key q = K) (scoped_rows ?db'))" for K
  proof (cases "?P K")
    case True
    then have "filter (\<lambda>q. sr_key q = K) (scoped_rows ?db') = filter (\<lambda>q. sr_key q = K) (scoped_rows db)"
      unfolding rows by (auto simp: intro!: filter_cong)
    moreover have "(case map_of (scoped_cache ?db') K of Some rs \<Rightarrow> rs | None \<Rightarrow> []) =
        (case map_of (scoped_cache db) K of Some rs \<Rightarrow> rs | None \<Rightarrow> [])"
      using True unfolding cache map_of_retain [OF wf] by (simp split: option.split)
    ultimately show ?thesis
      using assms(1) by (simp only: scoped_exact_def)
  next
    case False
    then show ?thesis
      unfolding cache map_of_retain [OF wf] rows by (auto simp: filter_empty_conv split: option.splits)
  qed
  then show ?thesis
    using assms(1) wf unfolding scoped_exact_def by (auto simp: rows cache)
qed

lemma scoped_exact_run:
  "scoped_exact db \<Longrightarrow> list_all plain_scope_op ops \<Longrightarrow> scoped_exact (scopes_run ops db)"
proof (induction ops arbitrary: db)
  case (Cons op ops)
  have "scoped_exact (scope_step op db)"
  proof -
    consider n where "op = DeleteScope n" | s r where "op = AddScoped s r"
      | "\<forall>n. op \<noteq> DeleteScope n" "\<forall>s r. op \<noteq> AddScoped s r" "\<forall>s n t v. op \<noteq> RemoveScoped s n t v"
      using Cons(3) by (cases op) (auto simp: plain_scope_op_def)
    then show ?thesis
    proof cases
      case 1
      then have "CHR '':'' \<notin> set n" using Cons(3) by (simp add: plain_scope_op_def)
      then show ?thesis using 1 scoped_exact_delete [OF Cons(2)] by simp
    next
      case 2
      then have "CHR '':'' \<notin> set s" using Cons(3) by (simp add: plain_scope_op_def)
      then show ?thesis using 2 scoped_exact_add [OF Cons(2)] by simp
    next
      case 3
      then show ?thesis
        using Cons(2) scoped_unchanged(1,2) [where db = db, OF 3] by (simp add: scoped_exact_def)
    qed
  qed
  with Cons show ?case by (simp add: scopes_exec_def)
qed simp

lemma lookup_scoped_exact_table:
  assumes "scoped_exact db" "CHR '':'' \<notin> set s"
  shows "lookup_scoped_exact (scoped_cache db) s n (Some t) =
    map (\<lambda>q. row_mapper (sr_row q)) (filter (\<lambda>q. sr_scope q = s \<and> row_name (sr_row q) = n
      \<and> row_type (sr_row q) = as_str t) (scoped_rows db))"
proof -
  have "sr_key q = scoped_record_cache_key s n (Some t) \<longleftrightarrow>
      sr_scope q = s \<and> row_name (sr_row q) = n \<and> row_type (sr_row q) = as_str t"
    if "q \<in> set (scoped_rows db)" for q
    using assms that cache_key_inject [of "sr_scope q" s] row_mapper_type [of "sr_row q" t]
    by (auto simp: sr_key_def scoped_exact_def)
  then have "filter (\<lambda>q. sr_key q = scoped_record_cache_key s n (Some t)) (scoped_rows db) =
      filter (\<lambda>q. sr_scope q = s \<and> row_name (sr_row q) = n \<and> row_type (sr_row q) = as_str t) (scoped_rows db)"
    by (intro filter_cong) auto
  then show ?thesis
    using assms(1) by (simp add: lookup_scoped_exact_def scoped_exact_def)
qed

lemma same_record_name: "same_record r q \<Longrightarrow> dr_name r = row_name (sr_row q)"
  unfolding same_record_def by (drule arg_cong [of _ _ dr_name]) simp

lemma same_record_value: "same_record r q \<Longrightarrow> dr_value r = row_value (sr_row q)"
  unfolding same_record_def by (drule arg_cong [of _ _ dr_value]) simp

lemma scoped_exact_isolated:
  assumes "scoped_sound db" "\<forall>q\<in>set (scoped_rows db). CHR '':'' \<notin> set (sr_scope q)" "CHR '':'' \<notin> set s"
    and "r \<in> set (lookup_scoped_exact (scoped_cache db) s n t)"
  shows "\<exists>q\<in>set (scoped_rows db). sr_scope q = s \<and> same_record r q
    \<and> (\<forall>k. t = Some k \<longrightarrow> row_name (sr_row q) = n \<and> row_type (sr_row q) = as_str k)"
proof -
  obtain K rs where K: "map_of (scoped_cache db) K = Some rs" "r \<in> set rs"
      "starts_with K (s @ '':'')" "\<forall>k. t = Some k \<longrightarrow> K = scoped_record_cache_key s n (Some k)"
    using assms(1,4) by (cases t)
      (auto simp: lookup_scoped_exact_def cache_key_prefix scoped_sound_def starts_with_def prefix_def
         wf_table_def split: option.splits)
  then obtain q where q: "q \<in> set (scoped_rows db)" "same_record r q" "K = sr_key q"
    using assms(1) unfolding scoped_sound_def by metis
  have colon: "CHR '':'' \<notin> set (sr_scope q)" "row_type (sr_row q) \<in> range as_str"
    using q(1) assms(1,2) by (auto simp: scoped_sound_def)
  have "row_name (sr_row q) = n \<and> row_type (sr_row q) = as_str k" if "t = Some k" for k
    using K(4) that q(3) cache_key_inject [OF colon(1) assms(3)] row_mapper_type [OF colon(2), of k]
    by (auto simp: sr_key_def)
  then show ?thesis
    using q K(3) sr_key_starts [OF colon(1) assms(3)] by (intro bexI [OF _ q(1)]) auto
qed

section \<open>A scope as a source of records\<close>

lemma ancestor_loop_normal:
  "lower s = s \<Longrightarrow> a \<in> set (ancestor_loop s) \<Longrightarrow> normalize_name a = a"
proof (induction s rule: ancestor_loop.induct)
  case (1 s)
  show ?case
  proof (cases "split_once dot s")
    case None
    then show ?thesis using 1(3) by (simp add: ancestor_loop.simps [of s])
  next
    case (Some xp)
    then obtain x p where xp: "split_once dot s = Some (x, p)" by (cases xp) auto
    then have low: "lower p = p" using 1(2) by (auto simp: split_once_Some)
    show ?thesis
      using 1(1) [OF xp refl] 1(3) xp low
      by (auto simp: ancestor_loop.simps [of s] normalize_name_def ends_with_def split: if_splits)
  qed
qed

lemma trim_lower: "lower s = s \<Longrightarrow> lower (trim_end_dots s) = trim_end_dots s"
proof -
  have "lower (trim_end_dots s) = trim_end_dots (lower s)"
    by (simp add: trim_end_dots_def lower_def rev_map dropWhile_map comp_def)
  then show "lower s = s \<Longrightarrow> ?thesis" by simp
qed

lemma ancestor_names_normal:
  assumes "a \<in> set (ancestor_names (normalize_name n))"
  shows "normalize_name a = a"
proof -
  have low: "lower (trim_end_dots (normalize_name n)) = trim_end_dots (normalize_name n)"
    by (rule trim_lower) simp
  show ?thesis
    using assms low ancestor_loop_normal [OF low]
    by (auto simp: ancestor_names_def Let_def normalize_name_def [of "_ @ [dot]"] ends_with_def split: if_splits)
qed

lemma find_map_cong: "(\<And>x. x \<in> set xs \<Longrightarrow> f x = g x) \<Longrightarrow> find_map f xs = find_map g xs"
  by (induction xs) (auto split: option.splits)

lemma closest_scoped_soa_eq:
  "closest_scoped_soa db s n =
    (case find (\<lambda>a. lookup_scoped_exact (scoped_cache db) s a (Some SOA) \<noteq> []) (ancestor_names (normalize_name n)) of
       Some a \<Rightarrow> lookup_scoped_exact (scoped_cache db) s a (Some SOA) | None \<Rightarrow> [])"
proof -
  let ?f = "\<lambda>a. lookup_scoped_exact (scoped_cache db) s a (Some SOA)"
  have "find_map (\<lambda>c. let found = lookup_scoped_no_wildcard db s c (Some SOA)
          in if found \<noteq> [] then Some found else None) (ancestor_names (normalize_name n)) =
      find_map (\<lambda>a. if ?f a \<noteq> [] then Some (?f a) else None) (ancestor_names (normalize_name n))"
    by (intro find_map_cong) (simp add: lookup_scoped_no_wildcard_def ancestor_names_normal Let_def)
  then show ?thesis
    unfolding closest_scoped_soa_def find_map_found by (simp split: option.split)
qed

interpretation scope_records: record_source "lookup_scoped_exact (scoped_cache db) s" "lookup_scoped db s"
    "closest_scoped_soa db s"
  for db :: "'a scopes_db_scheme" and s :: string
  by unfold_locales
    (auto simp: lookup_scoped_def closest_scoped_soa_eq Let_def split: option.splits)

section \<open>Associations over time\<close>






lemma find_owner_zone:
  "find_owner tbl q = map_option (\<lambda>z. (the (map_of tbl z), z)) (find_zone (dom (map_of tbl)) q)"
proof -
  have "find_map (\<lambda>z. map_option (\<lambda>w. (w, z)) (map_of tbl z)) xs =
      map_option (\<lambda>z. (the (map_of tbl z), z)) (find_map (\<lambda>z. if z \<in> dom (map_of tbl) then Some z else None) xs)"
    for xs
    by (induction xs) (auto split: option.splits simp: domIff)
  then show ?thesis
    by (auto simp: find_owner_def find_zone_def Let_def walk_suffixes_ancestors split: option.split)
qed

section \<open>Properties\<close>

text \<open>
  C2: zone ownership is a partition.  After any sequence of scope operations, the ownership cache
  that the query path reads maps a zone to a scope exactly when the tables give the zone to that
  scope (so no zone has two owners), a restart rebuilds the same cache, and the scope counter
  counts the scopes.
\<close>

theorem tld_ownership_partition:
  "(map_of (tld_owner (scopes_run ops empty_scopes_db)) t = Some s \<longleftrightarrow>
      (s, t) \<in> owned_pairs (scopes_run ops empty_scopes_db))
   \<and> map_of (boot_tld_owner (scopes_run ops empty_scopes_db)) = map_of (tld_owner (scopes_run ops empty_scopes_db))
   \<and> scope_count (scopes_run ops empty_scopes_db) = length (network_scopes (scopes_run ops empty_scopes_db))"
proof -
  have "tld_inv (scopes_run ops empty_scopes_db)"
    by (rule tld_inv_run [OF tld_inv_empty])
  then show ?thesis
    using boot_tld_owner_eq [of "scopes_run ops empty_scopes_db"] by (simp add: tld_inv_def)
qed

text \<open>
  C11: \<open>find_tld_owner\<close> sends a name to the owner of the most specific owned zone that encloses it,
  and to nobody only if no owned zone encloses it.
\<close>

theorem find_tld_owner_most_specific:
  assumes "tld_inv db" "wf_labels ls" "canonical_zones (snd ` owned_pairs db)"
  shows "case find_tld_owner db (fqdn ls) of
      None \<Rightarrow> \<forall>(s, t)\<in>owned_pairs db. \<not> name_in_zone (fqdn ls) t
    | Some (s, t) \<Rightarrow> (s, t) \<in> owned_pairs db \<and> name_in_zone (fqdn ls) t
        \<and> (\<forall>(s', t')\<in>owned_pairs db. name_in_zone (fqdn ls) t' \<longrightarrow> name_in_zone t t')"
proof -
  have own: "map_of (tld_owner db) t = Some s \<longleftrightarrow> (s, t) \<in> owned_pairs db" for s t
    using assms(1) by (simp add: tld_inv_def)
  then have dom: "dom (map_of (tld_owner db)) = snd ` owned_pairs db"
    by (force simp: dom_def)
  show ?thesis
  proof (cases "find_zone (snd ` owned_pairs db) (fqdn ls)")
    case None
    then have "find_tld_owner db (fqdn ls) = None"
      by (simp add: find_tld_owner_def find_owner_zone dom)
    then show ?thesis using None find_zone_iff_enclosing [OF assms(2,3)] by auto
  next
    case (Some z)
    then have spec: "z \<in> snd ` owned_pairs db" "name_in_zone (fqdn ls) z"
      "\<forall>z'\<in>snd ` owned_pairs db. name_in_zone (fqdn ls) z' \<longrightarrow> name_in_zone z z'"
      using find_zone_most_specific [OF assms(2,3)] by blast+
    then obtain s where s: "map_of (tld_owner db) z = Some s" unfolding dom [symmetric] by blast
    then have "find_tld_owner db (fqdn ls) = Some (s, z)"
      using Some by (simp add: find_tld_owner_def find_owner_zone dom)
    then show ?thesis using spec own s by force
  qed
qed

theorem find_tld_owner_most_specific_witness:
  "find_tld_owner (scopes_run [CreateScope \<lparr>ns_name = ''a'', ns_home = ''home''\<rparr>,
       CreateScope \<lparr>ns_name = ''b'', ns_home = ''b.home''\<rparr>] empty_scopes_db) (fqdn [''nas'', ''b'', ''home''])
     = Some (''b'', ''b.home.'')
   \<and> name_in_zone (fqdn [''nas'', ''b'', ''home'']) ''b.home.''"
proof -
  let ?db = "scopes_run [CreateScope \<lparr>ns_name = ''a'', ns_home = ''home''\<rparr>,
       CreateScope \<lparr>ns_name = ''b'', ns_home = ''b.home''\<rparr>] empty_scopes_db"
  have inv: "tld_inv ?db" by (rule tld_inv_run [OF tld_inv_empty])
  have wf: "wf_labels [''nas'', ''b'', ''home'']" by code_simp
  have pairs: "owned_pairs ?db = {(''a'', ''home.''), (''b'', ''b.home.'')}" by code_simp
  have zones: "snd ` owned_pairs ?db = fqdn ` set [[''home''], [''b'', ''home'']]"
    unfolding pairs by code_simp
  have canon: "canonical_zones (snd ` owned_pairs ?db)"
    unfolding zones by (rule canonical_zonesI) code_simp
  have found: "find_tld_owner ?db (fqdn [''nas'', ''b'', ''home'']) = Some (''b'', ''b.home.'')"
    by code_simp
  show ?thesis
    using find_tld_owner_most_specific [OF inv wf canon] unfolding found option.case prod.case by blast
qed

text \<open>
  C6: scopes are isolated.  After any sequence of operations that leaves no scope name with a colon in the
  table, every record answered for a scope whose name has no colon is a stored row of that scope, apart
  from the owner that a wildcard answer takes from the question; where the question has a type, the row has
  that type and the name asked for, or its wildcard.
\<close>

theorem scoped_lookup_isolated:
  assumes "\<forall>q\<in>set (scoped_rows (scopes_run ops empty_scopes_db)). CHR '':'' \<notin> set (sr_scope q)"
    and "CHR '':'' \<notin> set s"
    and "r \<in> set (lookup_scoped (scopes_run ops empty_scopes_db) s n t)"
  shows "\<exists>q\<in>set (scoped_rows (scopes_run ops empty_scopes_db)).
    sr_scope q = s \<and> same_record (r\<lparr>dr_name := row_name (sr_row q)\<rparr>) q
    \<and> (case t of None \<Rightarrow> True
       | Some k \<Rightarrow> row_type (sr_row q) = as_str k \<and>
           (row_name (sr_row q) = normalize_name n \<or> make_wildcard_name (normalize_name n) = Some (row_name (sr_row q))))"
proof -
  let ?db = "scopes_run ops empty_scopes_db"
  have sound: "scoped_sound ?db"
    by (rule scoped_sound_run [OF scoped_sound_empty])
  obtain m r' where m: "m = normalize_name n \<or> make_wildcard_name (normalize_name n) = Some m"
      "r' \<in> set (lookup_scoped_exact (scoped_cache ?db) s m t)" "r = r' \<or> r = r'\<lparr>dr_name := normalize_name n\<rparr>"
    using assms(3) by (auto simp: lookup_scoped_def Let_def split: option.splits if_splits)
  obtain q where q: "q \<in> set (scoped_rows ?db)" "sr_scope q = s" "same_record r' q"
      "\<forall>k. t = Some k \<longrightarrow> row_name (sr_row q) = m \<and> row_type (sr_row q) = as_str k"
    using scoped_exact_isolated [OF sound assms(1,2) m(2)] by blast
  have "r'\<lparr>dr_name := row_name (sr_row q)\<rparr> = r'"
    using same_record_name [OF q(3)] by simp
  then show ?thesis
    using q m(1,3) by (intro bexI [OF _ q(1)]) (auto split: option.split)
qed

theorem scoped_lookup_isolated_witness:
  "let db = scopes_run [AddScoped ''lan'' (host_record ''*.home'' ''10.0.0.1''),
              AddScoped ''dmz'' (host_record ''*.home'' ''10.9.0.1'')] empty_scopes_db
   in \<exists>q\<in>set (scoped_rows db). sr_scope q = ''dmz'' \<and> row_name (sr_row q) = ''*.home.''
        \<and> dr_value (hd (lookup_scoped db ''dmz'' ''nas.home'' (Some A))) = row_value (sr_row q)"
proof -
  let ?ops = "[AddScoped ''lan'' (host_record ''*.home'' ''10.0.0.1''),
      AddScoped ''dmz'' (host_record ''*.home'' ''10.9.0.1'')]"
  let ?db = "scopes_run ?ops empty_scopes_db"
  let ?r = "hd (lookup_scoped ?db ''dmz'' ''nas.home'' (Some A))"
  have 1: "\<forall>q\<in>set (scoped_rows ?db). CHR '':'' \<notin> set (sr_scope q)"
    by code_simp
  have 2: "CHR '':'' \<notin> set ''dmz''" by simp
  have 3: "?r \<in> set (lookup_scoped ?db ''dmz'' ''nas.home'' (Some A))"
    by code_simp
  have 4: "\<forall>q\<in>set (scoped_rows ?db). row_name (sr_row q) = ''*.home.''"
    by code_simp
  obtain q where q: "q \<in> set (scoped_rows ?db)" "sr_scope q = ''dmz''" "same_record (?r\<lparr>dr_name := row_name (sr_row q)\<rparr>) q"
    using scoped_lookup_isolated [OF 1 2 3] by blast
  have "dr_value ?r = row_value (sr_row q)"
    using same_record_value [OF q(3)] by simp
  then show ?thesis
    unfolding Let_def using q(1,2) 4 by blast
qed

text \<open>
  Scope names with a colon are not kept apart: scope \<open>a\<close> with the name \<open>b:x.\<close> and scope \<open>a:b\<close> with the name \<open>x.\<close>
  share one key of the cache, so a client of the second scope is answered with a record of the first.
\<close>

theorem colon_scopes_share_records:
  "let db = scopes_run [CreateScope \<lparr>ns_name = ''a'', ns_home = ''a.home''\<rparr>, CreateScope \<lparr>ns_name = ''a:b'', ns_home = ''b.home''\<rparr>,
              AddScoped ''a'' (host_record ''b:x'' ''10.0.0.1'')] empty_scopes_db
   in map dr_value (lookup_scoped db ''a:b'' ''x'' (Some A)) = [''10.0.0.1'']
      \<and> list_scoped_records db ''a:b'' [] None = []"
  by code_simp

text \<open>
  C16: as long as nothing is removed from a scope record by record and no scope name contains a colon,
  the exact lookup of a name and a type in a scope answers exactly the rows of the table with that
  scope, name and type, in order.
\<close>

theorem scoped_lookup_exact:
  assumes "list_all plain_scope_op ops" "CHR '':'' \<notin> set s"
  shows "lookup_scoped_exact (scoped_cache (scopes_run ops empty_scopes_db)) s n (Some t) =
    map (\<lambda>q. row_mapper (sr_row q)) (filter (\<lambda>q. sr_scope q = s \<and> row_name (sr_row q) = n
      \<and> row_type (sr_row q) = as_str t) (scoped_rows (scopes_run ops empty_scopes_db)))"
proof -
  have "scoped_exact empty_scopes_db"
    by (simp add: scoped_exact_def empty_scopes_db_def records_db.defs)
  then show ?thesis
    using assms scoped_exact_run lookup_scoped_exact_table by blast
qed

theorem scoped_lookup_exact_witness:
  "map dr_value (lookup_scoped_exact (scoped_cache (scopes_run
     [AddScoped ''lan'' (host_record ''nas.home'' ''10.0.0.1''), AddScoped ''dmz'' (host_record ''nas.home'' ''10.9.0.1''),
      DeleteScope ''dmz''] empty_scopes_db)) ''lan'' ''nas.home.'' (Some A)) = [''10.0.0.1'']"
proof -
  let ?ops = "[AddScoped ''lan'' (host_record ''nas.home'' ''10.0.0.1''),
      AddScoped ''dmz'' (host_record ''nas.home'' ''10.9.0.1''), DeleteScope ''dmz'']"
  have 1: "list_all plain_scope_op ?ops" by code_simp
  have 2: "CHR '':'' \<notin> set ''lan''" by simp
  show ?thesis
    unfolding scoped_lookup_exact [OF 1 2] by code_simp
qed

text \<open>
  Removing one record of a scope takes its siblings off the air.  With two addresses stored for
  a name, removing one leaves the other in the table, but the cache that answers queries no longer
  has it; after a restart it is back.
\<close>

theorem scoped_removal_hides_siblings:
  "let db = scopes_run [AddScoped ''lan'' (host_record ''nas.lan.home'' ''10.0.0.1''),
              AddScoped ''lan'' (host_record ''nas.lan.home'' ''10.0.0.2''),
              RemoveScoped ''lan'' ''nas.lan.home'' (Some A) ''10.0.0.1''] empty_scopes_db
   in map dr_value (list_scoped_records db ''lan'' ''nas.lan.home'' (Some A)) = [''10.0.0.2'']
      \<and> lookup_scoped db ''lan'' ''nas.lan.home'' (Some A) = []
      \<and> map dr_value (lookup_scoped (load_scoped_records_into_cache db) ''lan'' ''nas.lan.home'' (Some A)) = [''10.0.0.2'']"
  by code_simp

text \<open>
  Deleting a scope leaves its ingress listener behind.  A scope created later that owns the
  same zone inherits the address, although it never set a listener.
\<close>

theorem deleted_scope_leaves_ingress:
  "let db = scopes_run [CreateScope \<lparr>ns_name = ''a'', ns_home = ''a.home''\<rparr>, AddTld ''a'' ''corp'',
              SetListener ''a'' ''corp'' (V4 0x0A000001), DeleteScope ''a'',
              CreateScope \<lparr>ns_name = ''b'', ns_home = ''b.home''\<rparr>, AddTld ''b'' ''corp''] empty_scopes_db
   in find_tld_owner db ''www.corp'' = Some (''b'', ''corp.'')
      \<and> get_tld_ingress db ''corp'' = Some (V4 0x0A000001)
      \<and> scope_for_ingress_ip db (V4 0x0A000001) = Some ''b''"
  by code_simp



text \<open>
  A time to live whose end is not representable panics after the row is written and poisons the lock: no
  later operation that needs the database has an effect.
\<close>

theorem join_overflow_poisons_lock:
  assumes "\<not> lock_poisoned db" "2 ^ 63 \<le> now div 1000000000 + unat ttl" "list_all takes_lock ops"
  shows "scopes_run (Join wall now ip s ttl # ops) db = snd (join_network wall now ip s ttl db)"
    and "fst (join_network wall now ip s ttl db) = Inl InstantOverflow"
    and "assoc_cache (snd (join_network wall now ip s ttl db)) = assoc_cache db"
proof -
  let ?db' = "snd (join_network wall now ip s ttl db)"
  have j: "lock_poisoned ?db'" "fst (join_network wall now ip s ttl db) = Inl InstantOverflow" "assoc_cache ?db' = assoc_cache db"
    using assms(2) by (simp_all add: join_network_def instant_add_def)
  have "scopes_run ops ?db' = ?db'"
    using assms(3) j(1) by (induction ops) (simp_all add: scopes_exec_def)
  then show "scopes_run (Join wall now ip s ttl # ops) db = ?db'"
    using assms(1) by (simp add: scopes_exec_def)
qed (use assms(2) in \<open>simp_all add: join_network_def instant_add_def\<close>)

end
