(* ===== verification/Dhcp.thy ===== *)
theory Dhcp
  imports Scopes "HOL-Library.Multiset"
begin

text \<open>
  The DHCP server of \<open>src/src/dhcp.rs\<close> with its tables in \<open>src/src/db.rs\<close>: pools, leases, certificate
  options, address allocation, the handlers of DISCOVER, REQUEST, RELEASE and DECLINE, the lease
  sweep, and the registration of client host names in the records of a scope.  Of a packet the
  model keeps the fields the handlers read; decoding and encoding are the library's.  The options
  of a reply are listed in the order in which they are inserted.  \<open>dns_flushes\<close> counts the calls that
  empty the response cache of the DNS server.  A handler fails at its first access to the database where the
  lock is poisoned, and a request whose association panics ends there.
\<close>

section \<open>State\<close>

record dhcp_config =
  default_lease_duration :: u64
  reclaim_timeout :: u64
  cfg_tld :: string

record dhcp_pool =
  pool_id :: int
  pool_scope :: string
  range_start :: string
  range_end :: string
  gateway :: "string option"
  subnet_mask :: string
  dns_servers :: "string option"

record dhcp_lease =
  lease_mac :: string
  lease_ip :: string
  lease_scope :: string
  lease_hostname :: "string option"
  lease_start :: int
  lease_duration :: int
  lease_state :: string

record cert_option =
  co_scope :: string
  co_code :: u32
  co_data :: "u8 list"
  co_description :: "string option"

record dhcp_db = scopes_db +
  dhcp_pools :: "dhcp_pool list"
  next_pool_id :: int
  dhcp_leases :: "dhcp_lease list"
  cert_options :: "cert_option list"
  dns_flushes :: nat

definition empty_dhcp_db :: dhcp_db where
  "empty_dhcp_db = scopes_db.extend empty_scopes_db
     \<lparr>dhcp_pools = [], next_pool_id = 1, dhcp_leases = [], cert_options = [], dns_flushes = 0\<rparr>"

datatype dhcp_error =
    InvalidPoolRange
  | InvalidAllocatedIp
  | PoolNotFound
  | NotInAnyPool
  | LockPoisoned
  | TaskPanicked panic

section \<open>Tables\<close>

definition add_dhcp_pool :: "dhcp_pool \<Rightarrow> 'a dhcp_db_scheme \<Rightarrow> int \<times> 'a dhcp_db_scheme" where
  "add_dhcp_pool pool db =
     (next_pool_id db,
      db\<lparr>dhcp_pools := dhcp_pools db @ [pool\<lparr>pool_id := next_pool_id db\<rparr>], next_pool_id := next_pool_id db + 1\<rparr>)"

definition remove_dhcp_pool :: "int \<Rightarrow> 'a dhcp_db_scheme \<Rightarrow> bool \<times> 'a dhcp_db_scheme" where
  "remove_dhcp_pool i db =
     (list_ex (\<lambda>p. pool_id p = i) (dhcp_pools db),
      db\<lparr>dhcp_pools := filter (\<lambda>p. pool_id p \<noteq> i) (dhcp_pools db)\<rparr>)"

definition list_dhcp_pools :: "'a dhcp_db_scheme \<Rightarrow> string option \<Rightarrow> dhcp_pool list" where
  "list_dhcp_pools db scope_name =
     (case scope_name of
        Some scope \<Rightarrow> filter (\<lambda>p. pool_scope p = scope) (dhcp_pools db)
      | None \<Rightarrow> dhcp_pools db)"

text \<open>\<open>INSERT OR REPLACE\<close> with \<open>mac\<close> as primary key and \<open>ip\<close> unique: rows that clash in either go.\<close>

definition create_lease :: "dhcp_lease \<Rightarrow> 'a dhcp_db_scheme \<Rightarrow> 'a dhcp_db_scheme" where
  "create_lease lease db =
     db\<lparr>dhcp_leases :=
       filter (\<lambda>l. lease_mac l \<noteq> lease_mac lease \<and> lease_ip l \<noteq> lease_ip lease) (dhcp_leases db) @ [lease]\<rparr>"

definition renew_lease :: "int \<Rightarrow> string \<Rightarrow> int \<Rightarrow> 'a dhcp_db_scheme \<Rightarrow> bool \<times> 'a dhcp_db_scheme" where
  "renew_lease now mac dur db =
     (list_ex (\<lambda>l. lease_mac l = mac) (dhcp_leases db),
      db\<lparr>dhcp_leases := map (\<lambda>l. if lease_mac l = mac then l\<lparr>lease_start := now, lease_duration := dur\<rparr> else l)
            (dhcp_leases db)\<rparr>)"

definition get_lease_by_mac :: "'a dhcp_db_scheme \<Rightarrow> string \<Rightarrow> dhcp_lease option" where
  "get_lease_by_mac db mac = find (\<lambda>l. lease_mac l = mac) (dhcp_leases db)"

definition get_lease_by_ip :: "'a dhcp_db_scheme \<Rightarrow> string \<Rightarrow> dhcp_lease option" where
  "get_lease_by_ip db ip = find (\<lambda>l. lease_ip l = ip) (dhcp_leases db)"

definition release_lease :: "string \<Rightarrow> 'a dhcp_db_scheme \<Rightarrow> dhcp_lease option \<times> 'a dhcp_db_scheme" where
  "release_lease mac db =
     (let db1 = db\<lparr>dhcp_leases := map (\<lambda>l. if lease_mac l = mac then l\<lparr>lease_state := ''released''\<rparr> else l)
                (dhcp_leases db)\<rparr>
      in if list_ex (\<lambda>l. lease_mac l = mac) (dhcp_leases db) then (get_lease_by_mac db1 mac, db1)
         else (None, db1))"

definition list_leases :: "'a dhcp_db_scheme \<Rightarrow> string option \<Rightarrow> dhcp_lease list" where
  "list_leases db scope_name =
     (case scope_name of
        Some scope \<Rightarrow> filter (\<lambda>l. lease_scope l = scope) (dhcp_leases db)
      | None \<Rightarrow> dhcp_leases db)"

definition delete_lease :: "string \<Rightarrow> 'a dhcp_db_scheme \<Rightarrow> bool \<times> 'a dhcp_db_scheme" where
  "delete_lease mac db =
     (list_ex (\<lambda>l. lease_mac l = mac) (dhcp_leases db),
      db\<lparr>dhcp_leases := filter (\<lambda>l. lease_mac l \<noteq> mac) (dhcp_leases db)\<rparr>)"

definition set_dhcp_cert_option :: "cert_option \<Rightarrow> 'a dhcp_db_scheme \<Rightarrow> 'a dhcp_db_scheme" where
  "set_dhcp_cert_option opt db =
     db\<lparr>cert_options :=
       filter (\<lambda>c. \<not> (co_scope c = co_scope opt \<and> co_code c = co_code opt)) (cert_options db) @ [opt]\<rparr>"

definition remove_dhcp_cert_option :: "string \<Rightarrow> u32 \<Rightarrow> 'a dhcp_db_scheme \<Rightarrow> bool \<times> 'a dhcp_db_scheme" where
  "remove_dhcp_cert_option scope_name code db =
     (list_ex (\<lambda>c. co_scope c = scope_name \<and> co_code c = code) (cert_options db),
      db\<lparr>cert_options := filter (\<lambda>c. \<not> (co_scope c = scope_name \<and> co_code c = code)) (cert_options db)\<rparr>)"

text \<open>The rows come through the index of \<open>UNIQUE(scope_name, option_code)\<close>.\<close>

definition list_dhcp_cert_options :: "'a dhcp_db_scheme \<Rightarrow> string \<Rightarrow> cert_option list" where
  "list_dhcp_cert_options db scope_name = sort_key co_code (filter (\<lambda>c. co_scope c = scope_name) (cert_options db))"

section \<open>Allocation\<close>

text \<open>
  The loop over one pool; \<open>checked_add\<close> fails at the largest address.  The bound that matters is the
  distance to that address, so the loop ends whatever the pool is.
\<close>

lemma unat_plus_one:
  fixes cur :: ipv4
  assumes "cur \<noteq> - 1"
  shows "unat (cur + 1) = Suc (unat cur)"
proof -
  have "1 + cur \<noteq> 0" using assms by (metis add.inverse_unique)
  then show ?thesis using unatSuc [of cur] by (simp add: add.commute)
qed

function alloc_loop :: "string list \<Rightarrow> ipv4 \<Rightarrow> ipv4 \<Rightarrow> string option" where
  "alloc_loop leased cur end_ip =
     (let ip_str = ipv4_to_string cur
      in if ip_str \<notin> set leased then Some ip_str
         else if cur = end_ip then None
         else if cur = - 1 then None
         else alloc_loop leased (cur + 1) end_ip)"
  by pat_completeness auto
termination
proof (relation "measure (\<lambda>(_, cur, _). 2 ^ 32 - unat cur)")
  fix leased and cur end_ip :: ipv4 and x :: string
  assume "cur \<noteq> - 1"
  then have "unat (cur + 1) = Suc (unat cur)" by (rule unat_plus_one)
  moreover have "unat (cur + 1) < 2 ^ LENGTH(32)"
    by (rule unsigned_less)
  ultimately show "((leased, cur + 1, end_ip), leased, cur, end_ip) \<in> measure (\<lambda>(_, cur, _). 2 ^ 32 - unat cur)"
    by simp
qed simp

declare alloc_loop.simps [simp del]

fun alloc_pools :: "string list \<Rightarrow> (string \<times> string) list \<Rightarrow> dhcp_error + string option" where
  "alloc_pools leased [] = Inr None"
| "alloc_pools leased ((start_str, end_str) # rest) =
     (case parse_ipv4 start_str of
        None \<Rightarrow> Inl InvalidPoolRange
      | Some start \<Rightarrow>
          (case parse_ipv4 end_str of
             None \<Rightarrow> Inl InvalidPoolRange
           | Some end_ip \<Rightarrow>
               (case alloc_loop leased start end_ip of
                  Some ip \<Rightarrow> Inr (Some ip)
                | None \<Rightarrow> alloc_pools leased rest)))"

definition allocate_ip :: "'a dhcp_db_scheme \<Rightarrow> string \<Rightarrow> string \<Rightarrow> dhcp_error + string option" where
  "allocate_ip db scope_name mac =
     (case find (\<lambda>l. lease_mac l = mac) (dhcp_leases db) of
        Some l \<Rightarrow> Inr (Some (lease_ip l))
      | None \<Rightarrow>
          alloc_pools (map lease_ip (filter (\<lambda>l. lease_scope l = scope_name) (dhcp_leases db)))
            (map (\<lambda>p. (range_start p, range_end p)) (filter (\<lambda>p. pool_scope p = scope_name) (dhcp_pools db))))"

definition sweep_expired_leases :: "int \<Rightarrow> u64 \<Rightarrow> 'a dhcp_db_scheme \<Rightarrow> dhcp_lease list \<times> 'a dhcp_db_scheme" where
  "sweep_expired_leases now reclaim_timeout_secs db =
     (let marked = map (\<lambda>l. if lease_state l = ''active'' \<and> lease_start l + lease_duration l < now
                            then l\<lparr>lease_state := ''expired''\<rparr> else l) (dhcp_leases db);
          timeout = sint reclaim_timeout_secs;
          reclaimable = (\<lambda>l. lease_state l \<in> {''expired'', ''released''}
                             \<and> lease_start l + lease_duration l + timeout < now)
      in (filter reclaimable marked, db\<lparr>dhcp_leases := filter (\<lambda>l. \<not> reclaimable l) marked\<rparr>))"

section \<open>Host names\<close>

definition valid_hostname_label :: "string \<Rightarrow> string option" where
  "valid_hostname_label hostname =
     (let trimmed = trim hostname
      in if trimmed = [] \<or> length trimmed > 63 then None
         else if \<not> list_all (\<lambda>c. is_alnum c \<or> c = CHR ''-'') trimmed then None
         else if starts_with trimmed ''-'' \<or> ends_with trimmed ''-'' then None
         else Some (lower trimmed))"

definition flush_cache :: "'a dhcp_db_scheme \<Rightarrow> 'a dhcp_db_scheme" where
  "flush_cache db = db\<lparr>dns_flushes := dns_flushes db + 1\<rparr>"

text \<open>\<open>format!("{}.lan.{}.", label, self.config.tld)\<close>.\<close>

definition host_fqdn :: "dhcp_config \<Rightarrow> string \<Rightarrow> string" where
  "host_fqdn cfg lbl = lbl @ ''.lan.'' @ cfg_tld cfg @ [dot]"

definition register_dns_hostname ::
  "dhcp_config \<Rightarrow> string \<Rightarrow> string \<Rightarrow> string \<Rightarrow> u32 \<Rightarrow> 'a dhcp_db_scheme \<Rightarrow> 'a dhcp_db_scheme" where
  "register_dns_hostname cfg hostname ip scope_name ttl db =
     (case valid_hostname_label hostname of
        None \<Rightarrow> db
      | Some lbl \<Rightarrow>
          (let fq = host_fqdn cfg lbl;
               a_record = \<lparr>dr_id = None, dr_name = fq, dr_type = A, dr_value = ip, dr_ttl = ttl, dr_priority = 0\<rparr>;
               db1 = snd (add_scoped_record scope_name a_record db);
               db2 = (case parse_ipv4 ip of
                        Some addr \<Rightarrow>
                          snd (add_scoped_record scope_name
                            \<lparr>dr_id = None, dr_name = reverse_ptr_name (V4 addr), dr_type = PTR, dr_value = fq,
                             dr_ttl = ttl, dr_priority = 0\<rparr> db1)
                      | None \<Rightarrow> db1)
           in flush_cache db2))"

definition unregister_dns_hostname ::
  "dhcp_config \<Rightarrow> string \<Rightarrow> string \<Rightarrow> string \<Rightarrow> 'a dhcp_db_scheme \<Rightarrow> 'a dhcp_db_scheme" where
  "unregister_dns_hostname cfg hostname ip scope_name db =
     (case valid_hostname_label hostname of
        None \<Rightarrow> db
      | Some lbl \<Rightarrow>
          (let fq = host_fqdn cfg lbl;
               db1 = snd (remove_scoped_records scope_name fq (Some A) [] db);
               db2 = (case parse_ipv4 ip of
                        Some addr \<Rightarrow>
                          snd (remove_scoped_records scope_name (reverse_ptr_name (V4 addr)) (Some PTR) [] db1)
                      | None \<Rightarrow> db1)
           in flush_cache db2))"

definition cleanup_lease :: "dhcp_config \<Rightarrow> dhcp_lease \<Rightarrow> 'a dhcp_db_scheme \<Rightarrow> 'a dhcp_db_scheme" where
  "cleanup_lease cfg lease db =
     (let db1 = (case lease_hostname lease of
                   Some host \<Rightarrow> unregister_dns_hostname cfg host (lease_ip lease) (lease_scope lease) db
                 | None \<Rightarrow> db)
      in flush_cache (snd (leave_network (lease_ip lease) db1)))"

section \<open>Messages\<close>

datatype message_type = Discover | Offer | Request | Decline | Ack | Nak | Release | Inform

datatype dhcp_option =
    MessageType message_type
  | ServerIdentifier ipv4
  | SubnetMask ipv4
  | Router "ipv4 list"
  | DomainNameServer "ipv4 list"
  | AddressLeaseTime u32
  | Unknown u8 "u8 list"

record dhcp_message =
  boot_request :: bool
  msg_type :: "message_type option"
  xid :: u32
  flags :: u16
  ciaddr :: ipv4
  giaddr :: ipv4
  chaddr :: "u8 list"
  opt_requested_ip :: "ipv4 option"
  opt_hostname :: "string option"

record dhcp_reply =
  rp_xid :: u32
  rp_flags :: u16
  yiaddr :: ipv4
  rp_giaddr :: ipv4
  rp_chaddr :: "u8 list"
  rp_opts :: "dhcp_option list"

definition format_mac :: "u8 list \<Rightarrow> string" where
  "format_mac bytes =
     join_with '':'' (map (\<lambda>b. [hex_digit (unat b div 16), hex_digit (unat b mod 16)]) (take 6 bytes))"

definition ip_in_range :: "string \<Rightarrow> string \<Rightarrow> string \<Rightarrow> bool" where
  "ip_in_range ip start end_s =
     (case parse_ipv4 ip of
        None \<Rightarrow> False
      | Some i \<Rightarrow>
          (case parse_ipv4 start of
             None \<Rightarrow> False
           | Some s \<Rightarrow> (case parse_ipv4 end_s of None \<Rightarrow> False | Some e \<Rightarrow> i \<ge> s \<and> i \<le> e)))"

definition build_reply :: "dhcp_message \<Rightarrow> message_type \<Rightarrow> ipv4 \<Rightarrow> dhcp_reply" where
  "build_reply request mt offered_ip =
     \<lparr>rp_xid = xid request, rp_flags = flags request, yiaddr = offered_ip, rp_giaddr = giaddr request,
      rp_chaddr = chaddr request, rp_opts = [MessageType mt, ServerIdentifier 0]\<rparr>"

definition pool_options :: "dhcp_pool \<Rightarrow> u64 \<Rightarrow> dhcp_option list" where
  "pool_options pool dur =
     (case parse_ipv4 (subnet_mask pool) of Some m \<Rightarrow> [SubnetMask m] | None \<Rightarrow> [])
     @ (case gateway pool of
          Some gw \<Rightarrow> (case parse_ipv4 gw of Some g \<Rightarrow> [Router [g]] | None \<Rightarrow> [])
        | None \<Rightarrow> [])
     @ (case dns_servers pool of
          Some dns \<Rightarrow>
            (let ips = List.map_filter (\<lambda>s. parse_ipv4 (trim s)) (split_on (CHR '','') dns)
             in if ips \<noteq> [] then [DomainNameServer ips] else [])
        | None \<Rightarrow> [])
     @ [AddressLeaseTime (ucast dur)]"

definition add_pool_options :: "dhcp_reply \<Rightarrow> dhcp_pool \<Rightarrow> u64 \<Rightarrow> dhcp_reply" where
  "add_pool_options reply pool dur = reply\<lparr>rp_opts := rp_opts reply @ pool_options pool dur\<rparr>"

definition add_cert_options :: "'a dhcp_db_scheme \<Rightarrow> string \<Rightarrow> dhcp_reply \<Rightarrow> dhcp_reply" where
  "add_cert_options db scope_name reply =
     reply\<lparr>rp_opts := rp_opts reply
        @ map (\<lambda>c. Unknown (ucast (co_code c)) (co_data c)) (list_dhcp_cert_options db scope_name)\<rparr>"

fun first_allocation :: "'a dhcp_db_scheme \<Rightarrow> string \<Rightarrow> dhcp_pool list \<Rightarrow> (string \<times> string) option" where
  "first_allocation db mac [] = None"
| "first_allocation db mac (pool # rest) =
     (case allocate_ip db (pool_scope pool) mac of
        Inr (Some ip) \<Rightarrow> Some (ip, pool_scope pool)
      | _ \<Rightarrow> first_allocation db mac rest)"

definition handle_discover ::
  "dhcp_config \<Rightarrow> 'a dhcp_db_scheme \<Rightarrow> dhcp_message \<Rightarrow> string \<Rightarrow> dhcp_error + dhcp_reply option" where
  "handle_discover cfg db msg mac =
     (let pools = list_dhcp_pools db None
      in if lock_poisoned db then Inl LockPoisoned
         else if pools = [] then Inr None
         else (case (case get_lease_by_mac db mac of
                       Some lease \<Rightarrow> Some (lease_ip lease, lease_scope lease)
                     | None \<Rightarrow> first_allocation db mac pools) of
                 None \<Rightarrow> Inr None
               | Some (ip, scope_name) \<Rightarrow>
                   (case parse_ipv4 ip of
                      None \<Rightarrow> Inl InvalidAllocatedIp
                    | Some offered_ip \<Rightarrow>
                        (case find (\<lambda>p. pool_scope p = scope_name) pools of
                           None \<Rightarrow> Inl PoolNotFound
                         | Some pool \<Rightarrow>
                             Inr (Some (add_cert_options db scope_name
                               (add_pool_options (build_reply msg Offer offered_ip) pool
                                  (default_lease_duration cfg))))))))"

text \<open>
  \<open>handle_request\<close>: the lease, the association and the host name are written (\<open>grant_lease\<close>) before
  the reply is built.  The wall clock and the monotonic clock are arguments.
\<close>

definition requested_ip :: "dhcp_message \<Rightarrow> ipv4" where
  "requested_ip msg = (case opt_requested_ip msg of Some ip \<Rightarrow> ip | None \<Rightarrow> ciaddr msg)"

definition request_scope :: "'a dhcp_db_scheme \<Rightarrow> string \<Rightarrow> string \<Rightarrow> string option" where
  "request_scope db mac ip_str =
     (case get_lease_by_mac db mac of
        Some lease \<Rightarrow> Some (lease_scope lease)
      | None \<Rightarrow> map_option pool_scope
          (find (\<lambda>p. ip_in_range ip_str (range_start p) (range_end p)) (list_dhcp_pools db None)))"

definition grant_lease ::
  "dhcp_config \<Rightarrow> int \<Rightarrow> nat \<Rightarrow> string option \<Rightarrow> string \<Rightarrow> string \<Rightarrow> string \<Rightarrow> 'a dhcp_db_scheme
    \<Rightarrow> (panic + unit) \<times> 'a dhcp_db_scheme" where
  "grant_lease cfg wall now hostname mac ip_str scope_name db =
     (let lease = \<lparr>lease_mac = mac, lease_ip = ip_str, lease_scope = scope_name,
                   lease_hostname = hostname, lease_start = wall,
                   lease_duration = sint (default_lease_duration cfg), lease_state = ''active''\<rparr>;
          db1 = create_lease lease db
      in case join_network wall now ip_str scope_name (default_lease_duration cfg) db1 of
           (Inl e, db2) \<Rightarrow> (Inl e, db2)
         | (Inr _, db2) \<Rightarrow>
             (Inr (), case hostname of
                Some host \<Rightarrow>
                  register_dns_hostname cfg host ip_str scope_name (ucast (default_lease_duration cfg)) db2
              | None \<Rightarrow> db2))"

definition handle_request ::
  "dhcp_config \<Rightarrow> int \<Rightarrow> nat \<Rightarrow> dhcp_message \<Rightarrow> string \<Rightarrow> 'a dhcp_db_scheme
    \<Rightarrow> (dhcp_error + dhcp_reply option) \<times> 'a dhcp_db_scheme" where
  "handle_request cfg wall now msg mac db =
     (if requested_ip msg = 0 then (Inr None, db)
      else if lock_poisoned db then (Inl LockPoisoned, db)
      else
        (let ip_str = ipv4_to_string (requested_ip msg)
         in case request_scope db mac ip_str of
              None \<Rightarrow> (Inl NotInAnyPool, db)
            | Some scope_name \<Rightarrow>
                (case grant_lease cfg wall now (opt_hostname msg) mac ip_str scope_name db of
                   (Inl e, db3) \<Rightarrow> (Inl (TaskPanicked e), db3)
                 | (Inr _, db3) \<Rightarrow>
                     (let base_reply = build_reply msg Ack (requested_ip msg);
                          reply = (case list_dhcp_pools db3 (Some scope_name) of
                                     p # _ \<Rightarrow> add_pool_options base_reply p (default_lease_duration cfg)
                                   | [] \<Rightarrow> base_reply)
                      in (Inr (Some (add_cert_options db3 scope_name reply)), db3)))))"

definition handle_release :: "dhcp_config \<Rightarrow> string \<Rightarrow> 'a dhcp_db_scheme \<Rightarrow> 'a dhcp_db_scheme" where
  "handle_release cfg mac db =
     (if lock_poisoned db then db
      else case release_lease mac db of
             (None, db1) \<Rightarrow> db1
           | (Some lease, db1) \<Rightarrow>
               (let db2 = (case lease_hostname lease of
                             Some host \<Rightarrow> unregister_dns_hostname cfg host (lease_ip lease) (lease_scope lease) db1
                           | None \<Rightarrow> db1)
                in flush_cache (snd (leave_network (lease_ip lease) db2))))"

definition handle_decline :: "string \<Rightarrow> 'a dhcp_db_scheme \<Rightarrow> 'a dhcp_db_scheme" where
  "handle_decline mac db = (if lock_poisoned db then db else snd (release_lease mac db))"

definition handle_message ::
  "dhcp_config \<Rightarrow> int \<Rightarrow> nat \<Rightarrow> dhcp_message \<Rightarrow> 'a dhcp_db_scheme
    \<Rightarrow> (dhcp_error + dhcp_reply option) \<times> 'a dhcp_db_scheme" where
  "handle_message cfg wall now msg db =
     (if \<not> boot_request msg then (Inr None, db)
      else (let mac = format_mac (chaddr msg)
            in case msg_type msg of
                 Some Discover \<Rightarrow> (handle_discover cfg db msg mac, db)
               | Some Request \<Rightarrow> handle_request cfg wall now msg mac db
               | Some Release \<Rightarrow> (Inr None, handle_release cfg mac db)
               | Some Decline \<Rightarrow> (Inr None, handle_decline mac db)
               | _ \<Rightarrow> (Inr None, db)))"

text \<open>One round of \<open>run_lease_sweep\<close>.\<close>

definition lease_sweep :: "dhcp_config \<Rightarrow> int \<Rightarrow> 'a dhcp_db_scheme \<Rightarrow> 'a dhcp_db_scheme" where
  "lease_sweep cfg wall db =
     (if lock_poisoned db then db
      else let (expired, db1) = sweep_expired_leases wall (reclaim_timeout cfg) db
           in fold (cleanup_lease cfg) expired db1)"

datatype dhcp_event =
    Packet int nat dhcp_message
  | Sweep int
  | AddPool dhcp_pool
  | RemovePool int
  | CreateLease dhcp_lease
  | RenewLease int string int
  | DeleteLease string

fun dhcp_step :: "dhcp_config \<Rightarrow> dhcp_event \<Rightarrow> 'a dhcp_db_scheme \<Rightarrow> 'a dhcp_db_scheme" where
  "dhcp_step cfg (Packet wall now msg) db = snd (handle_message cfg wall now msg db)"
| "dhcp_step cfg (Sweep wall) db = lease_sweep cfg wall db"
| "dhcp_step cfg (AddPool p) db = snd (add_dhcp_pool p db)"
| "dhcp_step cfg (RemovePool i) db = snd (remove_dhcp_pool i db)"
| "dhcp_step cfg (CreateLease l) db = create_lease l db"
| "dhcp_step cfg (RenewLease now mac dur) db = snd (renew_lease now mac dur db)"
| "dhcp_step cfg (DeleteLease mac) db = snd (delete_lease mac db)"

definition dhcp_exec :: "dhcp_config \<Rightarrow> dhcp_event \<Rightarrow> 'a dhcp_db_scheme \<Rightarrow> 'a dhcp_db_scheme" where
  "dhcp_exec cfg ev db = (if lock_poisoned db then db else dhcp_step cfg ev db)"

abbreviation dhcp_run :: "dhcp_config \<Rightarrow> dhcp_event list \<Rightarrow> 'a dhcp_db_scheme \<Rightarrow> 'a dhcp_db_scheme" where
  "dhcp_run cfg evs db \<equiv> fold (dhcp_exec cfg) evs db"

section \<open>Allocation finds the first free address\<close>

lemma word_le_plus_one:
  fixes a b :: ipv4
  assumes "a \<noteq> - 1"
  shows "a + 1 \<le> b \<longleftrightarrow> a < b"
  using unat_plus_one [OF assms] by (auto simp: word_le_nat_alt word_less_nat_alt)

lemma alloc_loop_Some:
  assumes "alloc_loop leased cur e = Some ip"
  shows "\<exists>a. ip = ipv4_to_string a \<and> cur \<le> a \<and> (cur \<le> e \<longrightarrow> a \<le> e) \<and> ip \<notin> set leased
    \<and> (\<forall>b. cur \<le> b \<and> b < a \<longrightarrow> ipv4_to_string b \<in> set leased)"
  using assms
proof (induction leased cur e rule: alloc_loop.induct)
  case (1 leased cur e)
  show ?case
  proof (cases "ipv4_to_string cur \<in> set leased")
    case False
    then show ?thesis
      using 1(2) by (intro exI [of _ cur]) (auto simp: alloc_loop.simps [of leased cur])
  next
    case True
    then have rec: "cur \<noteq> e" "cur \<noteq> - 1" "alloc_loop leased (cur + 1) e = Some ip"
      using 1(2) by (auto simp: alloc_loop.simps [of leased cur] Let_def split: if_splits)
    obtain a where a: "ip = ipv4_to_string a" "cur + 1 \<le> a" "cur + 1 \<le> e \<longrightarrow> a \<le> e" "ip \<notin> set leased"
      "\<forall>b. cur + 1 \<le> b \<and> b < a \<longrightarrow> ipv4_to_string b \<in> set leased"
      using 1(1) [OF refl] True rec by blast
    show ?thesis
    proof (intro exI [of _ a] conjI allI impI)
      fix b assume "cur \<le> b \<and> b < a"
      then show "ipv4_to_string b \<in> set leased"
        using a(5) True word_le_plus_one [OF rec(2), of b] by (cases "b = cur") auto
    next
      show "cur \<le> a" using a(2) word_le_plus_one [OF rec(2), of a] by simp
    next
      assume "cur \<le> e"
      then show "a \<le> e" using a(3) rec(1) word_le_plus_one [OF rec(2), of e] by simp
    qed (use a in auto)
  qed
qed


lemma alloc_pools_Some:
  assumes "alloc_pools leased pools = Inr (Some ip)"
  shows "\<exists>(s, e)\<in>set pools. \<exists>start stop a. parse_ipv4 s = Some start \<and> parse_ipv4 e = Some stop
    \<and> ip = ipv4_to_string a \<and> start \<le> a \<and> (start \<le> stop \<longrightarrow> a \<le> stop) \<and> ip \<notin> set leased
    \<and> (\<forall>b. start \<le> b \<and> b < a \<longrightarrow> ipv4_to_string b \<in> set leased)"
  using assms
proof (induction leased pools rule: alloc_pools.induct)
  case (2 leased s e rest)
  then obtain start stop where p: "parse_ipv4 s = Some start" "parse_ipv4 e = Some stop"
    by (auto split: option.splits)
  show ?case
  proof (cases "alloc_loop leased start stop")
    case None
    then show ?thesis using 2 p by fastforce
  next
    case (Some ip')
    then have "ip' = ip" using 2(2) p by simp
    then show ?thesis using alloc_loop_Some [OF Some] p by fastforce
  qed
qed simp


text \<open>A pool whose bounds are swapped.\<close>

definition inverted_pool :: "dhcp_pool \<Rightarrow> bool" where
  "inverted_pool p =
     (case (parse_ipv4 (range_start p), parse_ipv4 (range_end p)) of
        (Some start, Some stop) \<Rightarrow> stop < start
      | _ \<Rightarrow> False)"

text \<open>An address text is leased in a scope.\<close>

definition leased_in :: "'a dhcp_db_scheme \<Rightarrow> string \<Rightarrow> string \<Rightarrow> bool" where
  "leased_in db scope ip \<longleftrightarrow> list_ex (\<lambda>l. lease_scope l = scope \<and> lease_ip l = ip) (dhcp_leases db)"

lemma leased_in_set:
  "ip \<in> set (map lease_ip (filter (\<lambda>l. lease_scope l = scope) (dhcp_leases db))) \<longleftrightarrow> leased_in db scope ip"
  by (auto simp: leased_in_def list_ex_iff)

lemma allocate_ip_fresh:
  assumes "get_lease_by_mac db mac = None" "allocate_ip db scope mac = Inr (Some ip)"
    and "\<forall>p\<in>set (dhcp_pools db). \<not> inverted_pool p"
  shows "\<exists>p\<in>set (dhcp_pools db). \<exists>start stop a. pool_scope p = scope
    \<and> parse_ipv4 (range_start p) = Some start \<and> parse_ipv4 (range_end p) = Some stop
    \<and> ip = ipv4_to_string a \<and> start \<le> a \<and> a \<le> stop \<and> \<not> leased_in db scope ip
    \<and> (\<forall>b. start \<le> b \<and> b < a \<longrightarrow> leased_in db scope (ipv4_to_string b))"
proof -
  let ?leased = "map lease_ip (filter (\<lambda>l. lease_scope l = scope) (dhcp_leases db))"
  have "alloc_pools ?leased
      (map (\<lambda>p. (range_start p, range_end p)) (filter (\<lambda>p. pool_scope p = scope) (dhcp_pools db))) = Inr (Some ip)"
    using assms(1,2) by (simp add: allocate_ip_def get_lease_by_mac_def)
  from alloc_pools_Some [OF this, unfolded leased_in_set] obtain p start stop a where
    p: "p \<in> set (dhcp_pools db)" "pool_scope p = scope" "parse_ipv4 (range_start p) = Some start"
      "parse_ipv4 (range_end p) = Some stop" "ip = ipv4_to_string a" "start \<le> a" "start \<le> stop \<longrightarrow> a \<le> stop"
      "\<not> leased_in db scope ip" "\<forall>b. start \<le> b \<and> b < a \<longrightarrow> leased_in db scope (ipv4_to_string b)"
    by auto
  have "start \<le> stop"
    using bspec [OF assms(3) p(1)] p(3,4) by (simp add: inverted_pool_def not_less)
  then show ?thesis
    using p by blast
qed




lemma find_append_None: "find P (filter (\<lambda>x. \<not> P x \<and> Q x) xs @ ys) = find P ys"
  "find P (filter (\<lambda>x. Q x \<and> \<not> P x) xs @ ys) = find P ys"
  by (induction xs) auto

section \<open>Leases are unique\<close>

definition lease_inv :: "'a dhcp_db_scheme \<Rightarrow> bool" where
  "lease_inv db \<longleftrightarrow> distinct (map lease_mac (dhcp_leases db)) \<and> distinct (map lease_ip (dhcp_leases db))"

lemma distinct_map_filter_append:
  "distinct (map f xs) \<Longrightarrow> (\<And>x. x \<in> set xs \<Longrightarrow> P x \<Longrightarrow> f x \<noteq> f y) \<Longrightarrow> distinct (map f (filter P xs @ [y]))"
  by (fastforce simp: distinct_map_filter)

lemma lease_inv_create: "lease_inv db \<Longrightarrow> lease_inv (create_lease l db)"
  unfolding lease_inv_def create_lease_def by (auto intro!: distinct_map_filter_append simp del: map_append)

lemma lease_inv_cong: "dhcp_leases db' = dhcp_leases db \<Longrightarrow> lease_inv db' = lease_inv db"
  by (simp add: lease_inv_def)

lemma keeps_leases [simp]:
  "dhcp_leases (snd (add_scoped_record s r db)) = dhcp_leases db"
  "dhcp_leases (snd (remove_scoped_records s n t v db)) = dhcp_leases db"
  "dhcp_leases (snd (join_network w now ip s ttl db)) = dhcp_leases db"
  "dhcp_leases (snd (leave_network ip db)) = dhcp_leases db"
  "dhcp_leases (flush_cache db) = dhcp_leases db"
  "dhcp_pools (snd (add_scoped_record s r db)) = dhcp_pools db"
  "dhcp_pools (snd (join_network w now ip s ttl db)) = dhcp_pools db"
  "dhcp_pools (flush_cache db) = dhcp_pools db"
  by (simp_all add: add_scoped_record_def remove_scoped_records_def join_network_def leave_network_def
      flush_cache_def Let_def split: option.split)

lemma register_keeps [simp]:
  "dhcp_leases (register_dns_hostname cfg h ip s ttl db) = dhcp_leases db"
  "dhcp_leases (unregister_dns_hostname cfg h ip s db) = dhcp_leases db"
  "dhcp_leases (cleanup_lease cfg l db) = dhcp_leases db"
  "dhcp_pools (register_dns_hostname cfg h ip s ttl db) = dhcp_pools db"
  by (auto simp: register_dns_hostname_def unregister_dns_hostname_def cleanup_lease_def Let_def
      split: option.splits)

lemma fold_cleanup_leases [simp]: "dhcp_leases (fold (cleanup_lease cfg) ls db) = dhcp_leases db"
  by (induction ls arbitrary: db) auto

lemma map_if_same: "(\<And>x. f (g x) = f x) \<Longrightarrow> map f (map (\<lambda>x. if P x then g x else x) xs) = map f xs"
  by auto

lemma release_lease_leases:
  "dhcp_leases (snd (release_lease mac db)) =
    map (\<lambda>l. if lease_mac l = mac then l\<lparr>lease_state := ''released''\<rparr> else l) (dhcp_leases db)"
  by (simp add: release_lease_def Let_def)

lemma handle_release_leases [simp]:
  "dhcp_leases (handle_release cfg mac db) =
    (if lock_poisoned db then dhcp_leases db else dhcp_leases (snd (release_lease mac db)))"
  by (auto simp: handle_release_def Let_def split: prod.splits option.splits)

lemma grant_lease_leases:
  "dhcp_leases (snd (grant_lease cfg wall now h mac ip sc db)) =
    dhcp_leases (create_lease \<lparr>lease_mac = mac, lease_ip = ip, lease_scope = sc, lease_hostname = h,
      lease_start = wall, lease_duration = sint (default_lease_duration cfg), lease_state = ''active''\<rparr> db)"
  by (simp add: grant_lease_def case_prod_unfold Let_def split: option.split sum.split)

lemma handle_request_leases:
  "dhcp_leases (snd (handle_request cfg wall now msg mac db)) = dhcp_leases db
   \<or> (\<exists>l. dhcp_leases (snd (handle_request cfg wall now msg mac db)) = dhcp_leases (create_lease l db))"
proof (cases "requested_ip msg = 0 \<or> lock_poisoned db \<or> request_scope db mac (ipv4_to_string (requested_ip msg)) = None")
  case True
  then show ?thesis
    by (auto simp: handle_request_def Let_def)
next
  case False
  then obtain sc where "request_scope db mac (ipv4_to_string (requested_ip msg)) = Some sc"
    by blast
  then have "snd (handle_request cfg wall now msg mac db) =
      snd (grant_lease cfg wall now (opt_hostname msg) mac (ipv4_to_string (requested_ip msg)) sc db)"
    using False by (simp add: handle_request_def case_prod_unfold Let_def split: sum.split)
  then show ?thesis
    by (intro disjI2) (simp only: grant_lease_leases, blast)
qed

lemma lease_inv_step:
  assumes "lease_inv db"
  shows "lease_inv (dhcp_step cfg ev db)"
proof (cases ev)
  case (Packet wall now msg)
  have rel: "lease_inv (snd (release_lease mac db))" for mac
    using assms by (simp add: lease_inv_def release_lease_leases map_if_same comp_def if_distrib cong: if_cong)
  have "lease_inv (snd (handle_request cfg wall now msg mac db))" for mac
    using handle_request_leases [of cfg wall now msg mac db] lease_inv_cong lease_inv_create assms by metis
  moreover have "lease_inv (handle_release cfg mac db)" for mac
    using rel [of mac] assms by (simp add: lease_inv_def)
  ultimately show ?thesis
    using Packet assms rel
    by (auto simp: handle_message_def handle_decline_def Let_def split: option.split message_type.split)
next
  case (Sweep wall)
  show ?thesis
    using Sweep assms
    by (auto simp: lease_inv_def lease_sweep_def sweep_expired_leases_def Let_def comp_def
        if_distrib [of lease_mac] if_distrib [of lease_ip] intro!: distinct_map_filter cong: if_cong)
next
  case (CreateLease l)
  then show ?thesis using assms lease_inv_create by simp
qed (use assms in \<open>auto simp: lease_inv_def add_dhcp_pool_def remove_dhcp_pool_def renew_lease_def
       delete_lease_def distinct_map_filter comp_def if_distrib cong: if_cong\<close>)

lemma lease_inv_run: "lease_inv db \<Longrightarrow> lease_inv (dhcp_run cfg evs db)"
  by (induction evs arbitrary: db) (auto simp: dhcp_exec_def lease_inv_step)

section \<open>Host names in the records of a scope\<close>

lemma lower_char_punct:
  assumes "(of_char c :: nat) < 97"
  shows "lower_char d = c \<Longrightarrow> d = c"
proof -
  assume "lower_char d = c"
  then have "(of_char (lower_char d) :: nat) = of_char c" by simp
  then have "(of_char d :: nat) = of_char c"
    unfolding of_char_lower_char using assms by (auto split: if_splits)
  then show "d = c" by (simp only: of_char_eq_iff)
qed

lemma valid_hostname_chars:
  assumes "valid_hostname_label h = Some l" "c \<in> set l"
  shows "c \<noteq> dot" "c \<noteq> CHR ''*''" "c \<noteq> CHR '':''"
proof -
  obtain d where d: "d \<in> set (trim h)" "c = lower_char d"
    using assms by (auto simp: valid_hostname_label_def Let_def lower_def split: if_splits)
  then have al: "is_alnum d \<or> d = CHR ''-''"
    using assms(1) by (auto simp: valid_hostname_label_def Let_def list_all_iff split: if_splits)
  have "\<not> is_alnum dot" "\<not> is_alnum (CHR ''*'')" "\<not> is_alnum (CHR '':'')"
    by code_simp+
  then show "c \<noteq> dot" "c \<noteq> CHR ''*''" "c \<noteq> CHR '':''"
    using al d(2) lower_char_punct [of dot d] lower_char_punct [of "CHR ''*''" d]
      lower_char_punct [of "CHR '':''" d]
    by auto
qed

lemma valid_hostname_label_spec:
  assumes "valid_hostname_label h = Some l"
  shows "wf_labels [l]" "l \<noteq> ''*''" "length l \<le> 63" "lower l = l"
proof -
  have l: "l = lower (trim h)" "trim h \<noteq> []" "length (trim h) \<le> 63"
    using assms by (auto simp: valid_hostname_label_def Let_def split: if_splits)
  have "dot \<notin> set l" "l \<noteq> []" using valid_hostname_chars(1) [OF assms, of dot] l by auto
  then show "wf_labels [l]" by (simp add: wf_labels_def)
  show "l \<noteq> ''*''" using valid_hostname_chars(2) [OF assms] by auto
  show "length l \<le> 63" "lower l = l" using l by simp_all
qed

lemma lookup_after_add:
  "lookup_scoped_exact (scoped_cache (snd (add_scoped_record s r db))) s' n (Some t) =
    lookup_scoped_exact (scoped_cache db) s' n (Some t) @
      (if scoped_record_cache_key s' n (Some t) =
          scoped_record_cache_key s (normalize_name (dr_name r)) (Some (dr_type r))
       then [r\<lparr>dr_id := Some (next_scoped_id db), dr_name := normalize_name (dr_name r)\<rparr>] else [])"
  by (auto simp: lookup_scoped_exact_def add_scoped_record_def Let_def map_of_cache_push split: option.split)

lemma lookup_after_remove:
  assumes "wf_table (scoped_cache db)"
  shows "lookup_scoped_exact (scoped_cache (snd (remove_scoped_records s n t' v db))) s (normalize_name n) (Some t) = []"
proof -
  have "starts_with (scoped_record_cache_key s (normalize_name n) (Some t)) (s @ '':'' @ normalize_name n)"
    by (simp add: cache_key_prefix starts_with_def)
  then show ?thesis
    by (auto simp: lookup_scoped_exact_def remove_scoped_records_def Let_def map_of_retain [OF assms]
        split: option.split)
qed

lemma lookup_remove_stays_empty:
  assumes "wf_table (scoped_cache db)" "lookup_scoped_exact (scoped_cache db) s m (Some t) = []"
  shows "lookup_scoped_exact (scoped_cache (snd (remove_scoped_records s' n t' v db))) s m (Some t) = []"
  using assms(2)
  by (auto simp: lookup_scoped_exact_def remove_scoped_records_def Let_def map_of_retain [OF assms(1)]
      split: option.splits)

lemma reverse_name_normal: "normalize_name (reverse_ptr_name (V4 a)) = reverse_ptr_name (V4 a)"
proof -
  obtain w x y z where os: "octets4 a = [w, x, y, z]"
    using list_of_four [OF length_octets4] by blast
  have dig: "lower (show_nat n) = show_nat n" for n
  proof -
    have "lower_char c = c" if "is_digit c" for c
      using that by (simp add: lower_char_def is_digit_def)
    then show ?thesis using show_nat_digits by (auto simp: lower_def intro: map_idI)
  qed
  have "reverse_ptr_name (V4 a) =
      (show_nat z @ dot # show_nat y @ dot # show_nat x @ dot # show_nat w @ ''.in-addr.arpa'') @ [dot]"
    by (simp add: reverse_ptr_name_def os)
  then show ?thesis
    by (simp add: normalize_name_def Let_def ends_with_def suffix_singleton dig)
qed

lemma register_lookup:
  assumes "valid_hostname_label h = Some l" and db'_def: "db' = register_dns_hostname cfg h (ipv4_to_string a) s ttl db"
  shows "\<exists>r\<in>set (lookup_scoped_exact (scoped_cache db') s (normalize_name (host_fqdn cfg l)) (Some A)).
      dr_value r = ipv4_to_string a"
    and "\<exists>r\<in>set (lookup_scoped_exact (scoped_cache db') s (reverse_ptr_name (V4 a)) (Some PTR)).
      dr_value r = host_fqdn cfg l"
  using assms(1)
  by (auto simp: db'_def register_dns_hostname_def Let_def flush_cache_def lookup_after_add reverse_name_normal)

lemma unregister_lookup:
  assumes "valid_hostname_label h = Some l" "wf_table (scoped_cache db)"
    and db'_def: "db' = unregister_dns_hostname cfg h (ipv4_to_string a) s db"
  shows "lookup_scoped_exact (scoped_cache db') s (normalize_name (host_fqdn cfg l)) (Some A) = []"
    and "lookup_scoped_exact (scoped_cache db') s (reverse_ptr_name (V4 a)) (Some PTR) = []"
proof -
  let ?db1 = "snd (remove_scoped_records s (host_fqdn cfg l) (Some A) [] db)"
  let ?db2 = "snd (remove_scoped_records s (reverse_ptr_name (V4 a)) (Some PTR) [] ?db1)"
  have wf1: "wf_table (scoped_cache ?db1)"
    using assms(2) by (simp add: remove_scoped_records_def Let_def)
  have db': "scoped_cache db' = scoped_cache ?db2"
    using assms(1) by (simp add: db'_def unregister_dns_hostname_def Let_def flush_cache_def)
  show "lookup_scoped_exact (scoped_cache db') s (normalize_name (host_fqdn cfg l)) (Some A) = []"
    unfolding db' by (intro lookup_remove_stays_empty [OF wf1] lookup_after_remove [OF assms(2)])
  show "lookup_scoped_exact (scoped_cache db') s (reverse_ptr_name (V4 a)) (Some PTR) = []"
    unfolding db' using lookup_after_remove [OF wf1, of s "reverse_ptr_name (V4 a)"] by (simp add: reverse_name_normal)
qed

section \<open>The exchange of four messages\<close>

definition upright_pools :: "'a dhcp_db_scheme \<Rightarrow> bool" where
  "upright_pools db \<longleftrightarrow> list_all (\<lambda>p.
     case (parse_ipv4 (range_start p), parse_ipv4 (range_end p)) of
       (Some s, Some e) \<Rightarrow> s \<le> e
     | _ \<Rightarrow> False) (dhcp_pools db)"

lemma upright_not_inverted: "upright_pools db \<Longrightarrow> \<forall>p\<in>set (dhcp_pools db). \<not> inverted_pool p"
  by (auto simp: upright_pools_def inverted_pool_def list_all_iff split: option.splits)

lemma first_allocation_Some:
  "first_allocation db mac pools = Some (ip, sc) \<Longrightarrow> allocate_ip db sc mac = Inr (Some ip)"
  by (induction pools) (auto split: sum.splits option.splits)

lemma discover_new_client:
  assumes "get_lease_by_mac db mac = None" "handle_discover cfg db msg mac = Inr (Some offer)" "upright_pools db"
  shows "\<exists>p\<in>set (dhcp_pools db). ip_in_range (ipv4_to_string (yiaddr offer)) (range_start p) (range_end p)"
    and "\<not> lock_poisoned db"
proof -
  obtain ip sc a where fa: "first_allocation db mac (dhcp_pools db) = Some (ip, sc)" "parse_ipv4 ip = Some a"
      "yiaddr offer = a"
    using assms(1,2)
    by (auto simp: handle_discover_def list_dhcp_pools_def Let_def add_cert_options_def add_pool_options_def
        build_reply_def split: option.splits if_splits)
  from allocate_ip_fresh [OF assms(1) first_allocation_Some [OF fa(1)] upright_not_inverted [OF assms(3)]]
  show "\<exists>p\<in>set (dhcp_pools db). ip_in_range (ipv4_to_string (yiaddr offer)) (range_start p) (range_end p)"
    using fa(2,3) by (fastforce simp: ip_in_range_def)
  show "\<not> lock_poisoned db"
    using assms(2) by (auto simp: handle_discover_def Let_def)
qed

lemma granted_lease:
  "filter (\<lambda>l. lease_mac l = mac \<or> lease_ip l = ip) (dhcp_leases (snd (grant_lease cfg wall now h mac ip sc db))) =
     [\<lparr>lease_mac = mac, lease_ip = ip, lease_scope = sc, lease_hostname = h, lease_start = wall,
       lease_duration = sint (default_lease_duration cfg), lease_state = ''active''\<rparr>]"
  by (auto simp: grant_lease_leases create_lease_def filter_empty_conv)

lemma grant_lease_joins:
  assumes "now div 1000000000 + unat (default_lease_duration cfg) < 2 ^ 63"
  shows "fst (grant_lease cfg wall now h mac ip sc db) = Inr ()"
    and "map_of (assoc_cache (snd (grant_lease cfg wall now h mac ip sc db))) ip =
      Some \<lparr>ae_scope = sc, ae_expires = now + nanos (unat (default_lease_duration cfg))\<rparr>"
  using assms
  by (auto simp: grant_lease_def Let_def join_network_def instant_add_def register_dns_hostname_def add_scoped_record_def
      flush_cache_def split: option.split)

section \<open>Sweeping\<close>








lemma unregister_assoc [simp]: "assoc_cache (unregister_dns_hostname cfg h ip s db) = assoc_cache db"
  by (simp add: unregister_dns_hostname_def remove_scoped_records_def flush_cache_def Let_def split: option.split)


section \<open>Properties\<close>

definition sample_config :: dhcp_config where
  "sample_config = \<lparr>default_lease_duration = 3600, reclaim_timeout = 60, cfg_tld = ''home''\<rparr>"

definition sample_pool :: dhcp_pool where
  "sample_pool = \<lparr>pool_id = 0, pool_scope = ''lan'', range_start = ''10.0.0.10'', range_end = ''10.0.0.11'',
     gateway = Some ''10.0.0.1'', subnet_mask = ''255.255.255.0'', dns_servers = Some ''10.0.0.1, 10.0.0.2''\<rparr>"

definition sample_message :: "message_type \<Rightarrow> u8 \<Rightarrow> ipv4 option \<Rightarrow> string option \<Rightarrow> dhcp_message" where
  "sample_message mt b ip host =
     \<lparr>boot_request = True, msg_type = Some mt, xid = 7, flags = 0, ciaddr = 0, giaddr = 0,
      chaddr = [2, 0, 0, 0, 0, b], opt_requested_ip = ip, opt_hostname = host\<rparr>"

text \<open>
  C8: whatever packets, sweeps and administrative operations arrive, in whatever order, no hardware
  address holds two leases and no address is leased twice.
\<close>

theorem leases_unique: "lease_inv (dhcp_run cfg evs empty_dhcp_db)"
proof (rule lease_inv_run)
  show "lease_inv empty_dhcp_db" by (simp add: lease_inv_def empty_dhcp_db_def scopes_db.defs records_db.defs)
qed



text \<open>
  C3: the exchange of messages succeeds.  A client without a lease that requests the address it was
  offered gets an acknowledgement for that address and an active lease on it; no other row of the lease
  table names the client or the address; and the address is associated with the scope of a pool containing
  it for the duration of the lease.  No pool has its bounds swapped, the address is not 0.0.0.0, and the end
  of the lease is a representable instant.
\<close>

theorem offered_address_is_granted:
  assumes "get_lease_by_mac db mac = None" "upright_pools db"
    and "handle_discover cfg db disc mac = Inr (Some offer)" "yiaddr offer \<noteq> 0"
    and "requested_ip req = yiaddr offer" "now div 1000000000 + unat (default_lease_duration cfg) < 2 ^ 63"
  shows "\<exists>ack db' l. handle_request cfg wall now req mac db = (Inr (Some ack), db')
    \<and> yiaddr ack = yiaddr offer
    \<and> filter (\<lambda>x. lease_mac x = mac \<or> lease_ip x = ipv4_to_string (yiaddr offer)) (dhcp_leases db') = [l]
    \<and> lease_mac l = mac \<and> lease_ip l = ipv4_to_string (yiaddr offer)
    \<and> lease_state l = ''active'' \<and> lease_start l = wall \<and> lease_duration l = sint (default_lease_duration cfg)
    \<and> (\<exists>p\<in>set (dhcp_pools db). pool_scope p = lease_scope l
         \<and> ip_in_range (ipv4_to_string (yiaddr offer)) (range_start p) (range_end p))
    \<and> map_of (assoc_cache db') (ipv4_to_string (yiaddr offer)) =
        Some \<lparr>ae_scope = lease_scope l, ae_expires = now + nanos (unat (default_lease_duration cfg))\<rparr>"
proof -
  let ?ip = "ipv4_to_string (yiaddr offer)"
  let ?in = "\<lambda>p. ip_in_range ?ip (range_start p) (range_end p)"
  obtain p where p: "find ?in (dhcp_pools db) = Some p"
    using discover_new_client(1) [OF assms(1,3,2)] by (cases "find ?in (dhcp_pools db)") (auto simp: find_None_iff)
  then have p_in: "p \<in> set (dhcp_pools db)" "?in p"
    by (auto simp: find_Some_take)
  let ?g = "grant_lease cfg wall now (opt_hostname req) mac ?ip (pool_scope p) db"
  have g: "?g = (Inr (), snd ?g)"
    using grant_lease_joins(1) [OF assms(6)] by (metis prod.collapse)
  have "request_scope db mac ?ip = Some (pool_scope p)"
    using assms(1) p by (simp add: request_scope_def list_dhcp_pools_def)
  then have "\<exists>ack. handle_request cfg wall now req mac db = (Inr (Some ack), snd ?g) \<and> yiaddr ack = yiaddr offer"
    using assms(4,5) discover_new_client(2) [OF assms(1,3,2)]
    by (subst handle_request_def, simp, subst g)
      (simp add: add_cert_options_def add_pool_options_def build_reply_def Let_def split: list.split)
  then obtain ack where "handle_request cfg wall now req mac db = (Inr (Some ack), snd ?g)" "yiaddr ack = yiaddr offer"
    by blast
  then show ?thesis
    using granted_lease [of mac ?ip cfg wall now "opt_hostname req" "pool_scope p" db]
      grant_lease_joins(2) [OF assms(6), of wall "opt_hostname req" mac ?ip "pool_scope p" db] p_in
    by (intro exI [of _ ack] exI [of _ "snd ?g"] exI [of _ "\<lparr>lease_mac = mac, lease_ip = ?ip, lease_scope = pool_scope p,
         lease_hostname = opt_hostname req, lease_start = wall, lease_duration = sint (default_lease_duration cfg),
         lease_state = ''active''\<rparr>"]) auto
qed

theorem offered_address_is_granted_witness:
  "\<exists>ack db'. handle_request sample_config 5 0 (sample_message Request 1 (Some 0x0A00000A) None) ''02:00:00:00:00:01''
      (snd (add_dhcp_pool sample_pool empty_dhcp_db)) = (Inr (Some ack), db') \<and> yiaddr ack = 0x0A00000A"
proof -
  let ?db = "snd (add_dhcp_pool sample_pool empty_dhcp_db)"
  let ?offer = "handle_discover sample_config ?db (sample_message Discover 1 None None) ''02:00:00:00:00:01''"
  have 1: "get_lease_by_mac ?db ''02:00:00:00:00:01'' = None" by code_simp
  have 2: "upright_pools ?db" by code_simp
  have "case ?offer of Inr (Some r) \<Rightarrow> yiaddr r = 0x0A00000A | _ \<Rightarrow> False" by code_simp
  then obtain offer where 3: "?offer = Inr (Some offer)" and y: "yiaddr offer = 0x0A00000A"
    by (auto split: sum.splits option.splits)
  have 4: "yiaddr offer \<noteq> 0" unfolding y by simp
  have 5: "requested_ip (sample_message Request 1 (Some 0x0A00000A) None) = yiaddr offer"
    unfolding y by code_simp
  have 6: "0 div 1000000000 + unat (default_lease_duration sample_config) < 2 ^ 63"
    by (simp add: sample_config_def)
  show ?thesis
    using offered_address_is_granted [OF 1 2 3 4 5 6, of 5] unfolding y by blast
qed



text \<open>
  C13: a client's host name is registered only as a single lower-case label, never as a wildcard; both
  the name and the reverse name of its address then answer, and after the release of the lease
  neither does.
\<close>

theorem hostname_registration:
  assumes "valid_hostname_label h = Some l" "wf_table (scoped_cache db)"
  shows "wf_labels [l] \<and> l \<noteq> ''*'' \<and> length l \<le> 63 \<and> lower l = l
    \<and> (\<exists>r\<in>set (lookup_scoped_exact (scoped_cache (register_dns_hostname cfg h (ipv4_to_string a) s ttl db)) s
          (normalize_name (host_fqdn cfg l)) (Some A)). dr_value r = ipv4_to_string a)
    \<and> (\<exists>r\<in>set (lookup_scoped_exact (scoped_cache (register_dns_hostname cfg h (ipv4_to_string a) s ttl db)) s
          (reverse_ptr_name (V4 a)) (Some PTR)). dr_value r = host_fqdn cfg l)
    \<and> lookup_scoped_exact (scoped_cache (unregister_dns_hostname cfg h (ipv4_to_string a) s db)) s
        (normalize_name (host_fqdn cfg l)) (Some A) = []
    \<and> lookup_scoped_exact (scoped_cache (unregister_dns_hostname cfg h (ipv4_to_string a) s db)) s
        (reverse_ptr_name (V4 a)) (Some PTR) = []"
  using valid_hostname_label_spec [OF assms(1)] register_lookup [OF assms(1) refl]
    unregister_lookup [OF assms refl]
  by blast

theorem hostname_registration_witness:
  "\<exists>r\<in>set (lookup_scoped_exact (scoped_cache (register_dns_hostname sample_config ''NAS01 '' (ipv4_to_string 1)
      ''lan'' 60 empty_dhcp_db)) ''lan'' (normalize_name (host_fqdn sample_config ''nas01'')) (Some A)).
      dr_value r = ipv4_to_string 1"
proof -
  have "valid_hostname_label ''NAS01 '' = Some ''nas01''" by code_simp
  moreover have "wf_table (scoped_cache empty_dhcp_db)"
    by (simp add: empty_dhcp_db_def empty_scopes_db_def scopes_db.defs records_db.defs)
  ultimately show ?thesis using hostname_registration by blast
qed

text \<open>
  A REQUEST is granted without looking at who holds the address: an active lease of another client
  is deleted.
\<close>

theorem request_takes_over_lease:
  "let db = dhcp_run sample_config [AddPool sample_pool,
              Packet 0 0 (sample_message Request 1 (Some 0x0A00000A) None),
              Packet 1 1 (sample_message Request 2 (Some 0x0A00000A) None)] empty_dhcp_db
   in get_lease_by_mac db ''02:00:00:00:00:01'' = None
      \<and> map_option lease_ip (get_lease_by_mac db ''02:00:00:00:00:02'') = Some ''10.0.0.10''"
  by code_simp

text \<open>A renewal registers the host name once more: its address is then answered twice.\<close>

theorem renewal_duplicates_records:
  "let db = dhcp_run sample_config [AddPool sample_pool,
              Packet 0 0 (sample_message Request 1 (Some 0x0A00000A) (Some ''nas'')),
              Packet 1 1 (sample_message Request 1 (Some 0x0A00000A) (Some ''nas''))] empty_dhcp_db
   in map dr_value (lookup_scoped db ''lan'' ''nas.lan.home'' (Some A)) = [''10.0.0.10'', ''10.0.0.10'']"
  by code_simp

text \<open>
  A client that declines an address, because it is in use, is offered the same address again, and
  its host name keeps answering with it.
\<close>

theorem declined_address_is_offered_again:
  "let db = dhcp_run sample_config [AddPool sample_pool,
              Packet 0 0 (sample_message Request 1 (Some 0x0A00000A) (Some ''nas'')),
              Packet 1 1 (sample_message Decline 1 None None)] empty_dhcp_db
   in (case handle_discover sample_config db (sample_message Discover 1 None None) ''02:00:00:00:00:01'' of
         Inr (Some offer) \<Rightarrow> yiaddr offer = 0x0A00000A
       | _ \<Rightarrow> False)
      \<and> map dr_value (lookup_scoped db ''lan'' ''nas.lan.home'' (Some A)) = [''10.0.0.10'']"
  by code_simp

text \<open>A pool whose bounds are swapped hands out addresses outside of it.\<close>

theorem inverted_pool_leaves_range:
  "let db = snd (add_dhcp_pool (sample_pool\<lparr>range_start := ''10.0.0.11'', range_end := ''10.0.0.10''\<rparr>) empty_dhcp_db)
   in allocate_ip (create_lease \<lparr>lease_mac = ''a'', lease_ip = ''10.0.0.11'', lease_scope = ''lan'',
        lease_hostname = None, lease_start = 0, lease_duration = 1, lease_state = ''active''\<rparr> db) ''lan'' ''b''
      = Inr (Some ''10.0.0.12'')"
  by code_simp

end
