(* ===== verification/Ip_Text.thy ===== *)
theory Ip_Text
  imports Cidr
begin

text \<open>
  The text of IPv6 addresses as the Rust standard library prints it (the program stores addresses as
  text and compares them as text), and its reading back by the parser of \<open>Cidr\<close>.
\<close>

definition hex_digit :: "nat \<Rightarrow> char" where
  "hex_digit d = (if d < 10 then char_of (48 + d) else char_of (87 + d))"

fun show_hex :: "nat \<Rightarrow> string" where
  "show_hex n = (if n < 16 then [hex_digit n] else show_hex (n div 16) @ [hex_digit (n mod 16)])"

declare show_hex.simps [simp del]

definition segments6 :: "ipv6 \<Rightarrow> nat list" where
  "segments6 a = map (\<lambda>i. unat a div 65536 ^ (7 - i) mod 65536) [0..<8]"

text \<open>The first longest run of zero groups, as its start and length.\<close>

fun zero_span :: "nat \<Rightarrow> nat \<times> nat \<Rightarrow> nat \<times> nat \<Rightarrow> nat list \<Rightarrow> nat \<times> nat" where
  "zero_span i longest current [] = longest"
| "zero_span i longest current (s # ss) =
     (if s = 0 then
        (let cur = (if snd current = 0 then i else fst current, snd current + 1)
         in zero_span (i + 1) (if snd cur > snd longest then cur else longest) cur ss)
      else zero_span (i + 1) longest (0, 0) ss)"

definition ipv6_to_string :: "ipv6 \<Rightarrow> string" where
  "ipv6_to_string a =
     (let segs = segments6 a
      in if take 6 segs = [0, 0, 0, 0, 0, 65535]
         then ''::ffff:'' @ ipv4_to_string (of_nat (segs ! 6 * 65536 + segs ! 7))
         else (let (start, len) = zero_span 0 (0, 0) (0, 0) segs;
                   fmt = \<lambda>ss. join_with '':'' (map show_hex ss)
               in if len > 1 then fmt (take start segs) @ ''::'' @ fmt (drop (start + len) segs)
                  else fmt segs))"

definition ip_to_string :: "IpAddr \<Rightarrow> string" where
  "ip_to_string ip = (case ip of V4 a \<Rightarrow> ipv4_to_string a | V6 a \<Rightarrow> ipv6_to_string a)"

text \<open>The two texts agree on an address.\<close>

definition text_roundtrip :: "IpAddr \<Rightarrow> bool" where
  "text_roundtrip ip \<longleftrightarrow> parse_ip (ip_to_string ip) = Some ip"

lemma text_roundtrip_v4 [simp]: "text_roundtrip (V4 a)"
  by (simp add: text_roundtrip_def ip_to_string_def)

lemma text_roundtrip_sample: "text_roundtrip (V6 0x20010DB8000000000000000000000001)"
  by code_simp

end
