(* ===== verification/Ttl_Cache.thy ===== *)
theory Ttl_Cache
  imports Prelude
begin

text \<open>
  The expiring, bounded maps of the resolver: the parts \<open>record_cache.rs\<close>, \<open>key_cache.rs\<close> and
  \<open>delegation_cache.rs\<close> share, and the record cache and the key cache themselves.

  A \<open>DashMap\<close> is a table; the order in which it is iterated is not fixed by the program and is a
  parameter \<open>iter\<close> of which only the documented \<open>iterates iter\<close> is used. An \<open>Instant\<close> is a number of
  nanoseconds, and one operation reads the clock once. Names and record types of the DNS library enter
  through the texts the program derives from them, its records through their time to live.
\<close>

section \<open>Clocks\<close>

text \<open>\<open>Duration::from_secs\<close> of a 32-bit number of seconds.\<close>

definition from_secs :: "u32 \<Rightarrow> nat" where
  "from_secs s = unat s * 1000000000"

text \<open>\<open>(expires_at.duration_since(now).as_secs() as u32).max(1)\<close>.\<close>

definition decayed_ttl :: "nat \<Rightarrow> nat \<Rightarrow> u32" where
  "decayed_ttl expires_at now = max (of_nat ((expires_at - now) div 1000000000)) 1"

section \<open>Bounded maps\<close>

text \<open>
  The eviction loop: while the map is full, remove the first entry the iteration yields. Nothing in
  the loop itself makes it end, so not ending is the value \<open>None\<close>.
\<close>

partial_function (option) evict_loop ::
  "(('k, 'v) table \<Rightarrow> ('k, 'v) table) \<Rightarrow> nat \<Rightarrow> ('k, 'v) table \<Rightarrow> ('k, 'v) table option" where
  [code]: "evict_loop iter cap m =
     (if length m < cap then Some m
      else (case iter m of
              [] \<Rightarrow> Some m
            | e # _ \<Rightarrow> evict_loop iter cap (AList.delete (fst e) m)))"

definition reap_if_full ::
  "(('k, 'v) table \<Rightarrow> ('k, 'v) table) \<Rightarrow> nat \<Rightarrow> ('v \<Rightarrow> nat) \<Rightarrow> nat \<Rightarrow> ('k, 'v) table \<Rightarrow> ('k, 'v) table option" where
  "reap_if_full iter cap expires now m =
     (if length m < cap then Some m
      else evict_loop iter cap (retain (\<lambda>_ v. now < expires v) m))"

text \<open>What iterating over a map yields: its entries, in some order.\<close>

definition iterates :: "(('k, 'v) table \<Rightarrow> ('k, 'v) table) \<Rightarrow> bool" where
  "iterates iter \<longleftrightarrow> (\<forall>m. set (iter m) = set m)"

text \<open>Running a sequence of operations that may fail to return, and the last value written to a key.\<close>

fun run_ops :: "('op \<Rightarrow> 's \<Rightarrow> 's option) \<Rightarrow> 'op list \<Rightarrow> 's \<Rightarrow> 's option" where
  "run_ops exec [] s = Some s"
| "run_ops exec (x # xs) s = (case exec x s of None \<Rightarrow> None | Some s' \<Rightarrow> run_ops exec xs s')"

fun last_write :: "('op \<Rightarrow> ('k \<times> 'e) option) \<Rightarrow> 'k \<Rightarrow> 'op list \<Rightarrow> 'e option" where
  "last_write wr k [] = None"
| "last_write wr k (x # xs) =
     (case last_write wr k xs of
        Some e \<Rightarrow> Some e
      | None \<Rightarrow> (case wr x of Some (k', e) \<Rightarrow> if k' = k then Some e else None | None \<Rightarrow> None))"

section \<open>The record cache\<close>

text \<open>A record of the DNS library: its time to live, and everything else.\<close>

record 'd resource =
  rr_ttl :: u32
  rr_data :: 'd

record 'd cached_records =
  cr_records :: "'d resource list"
  cr_expires :: nat
  cr_secure :: bool

record 'd record_cache =
  rc_entries :: "(string, 'd cached_records) table"
  rc_default_ttl :: u32

definition MAX_RECORD_TTL :: u32 where "MAX_RECORD_TTL = 604800"

definition MAX_RECORD_ENTRIES :: nat where "MAX_RECORD_ENTRIES = 50000"

definition record_cache_new :: "u32 \<Rightarrow> 'd record_cache" where
  "record_cache_new default_ttl = \<lparr>rc_entries = [], rc_default_ttl = default_ttl\<rparr>"

definition record_cache_key :: "('n \<Rightarrow> string) \<Rightarrow> ('t \<Rightarrow> string) \<Rightarrow> 'n \<Rightarrow> 't \<Rightarrow> string" where
  "record_cache_key to_ascii type_text name rtype = lower (to_ascii name) @ '':'' @ type_text rtype"

definition record_lifetime :: "u32 \<Rightarrow> 'd resource list \<Rightarrow> u32" where
  "record_lifetime default_ttl records =
     (case filter (\<lambda>t. t > 0) (map rr_ttl records) of
        [] \<Rightarrow> default_ttl
      | t # ts \<Rightarrow> min (foldl min t ts) MAX_RECORD_TTL)"

definition record_insert ::
  "((string, 'd cached_records) table \<Rightarrow> (string, 'd cached_records) table) \<Rightarrow> nat \<Rightarrow> string
    \<Rightarrow> 'd resource list \<Rightarrow> bool \<Rightarrow> 'd record_cache \<Rightarrow> 'd record_cache option" where
  "record_insert iter now key records secure c =
     (let ttl = record_lifetime (rc_default_ttl c) records
      in if records = [] then Some c
         else if ttl = 0 then Some c
         else (case reap_if_full iter MAX_RECORD_ENTRIES cr_expires now (rc_entries c) of
                 None \<Rightarrow> None
               | Some m \<Rightarrow>
                   Some (c\<lparr>rc_entries := AList.update key
                     \<lparr>cr_records = records, cr_expires = now + from_secs ttl, cr_secure = secure\<rparr> m\<rparr>)))"

definition record_get ::
  "nat \<Rightarrow> string \<Rightarrow> 'd record_cache \<Rightarrow> ('d resource list \<times> bool) option \<times> 'd record_cache" where
  "record_get now key c =
     (case map_of (rc_entries c) key of
        None \<Rightarrow> (None, c)
      | Some entry \<Rightarrow>
          if cr_expires entry \<le> now then (None, c\<lparr>rc_entries := AList.delete key (rc_entries c)\<rparr>)
          else (Some (map (\<lambda>r. r\<lparr>rr_ttl := decayed_ttl (cr_expires entry) now\<rparr>) (cr_records entry),
                      cr_secure entry), c))"

definition record_flush :: "'d record_cache \<Rightarrow> 'd record_cache" where
  "record_flush c = c\<lparr>rc_entries := []\<rparr>"

datatype ('n, 't, 'd) record_cache_op =
  RecordInsert nat 'n 't "'d resource list" bool
| RecordGet nat 'n 't
| RecordFlush

fun record_exec ::
  "((string, 'd cached_records) table \<Rightarrow> (string, 'd cached_records) table) \<Rightarrow> ('n \<Rightarrow> string) \<Rightarrow> ('t \<Rightarrow> string)
    \<Rightarrow> ('n, 't, 'd) record_cache_op \<Rightarrow> 'd record_cache \<Rightarrow> 'd record_cache option" where
  "record_exec iter to_ascii type_text (RecordInsert now name rtype records secure) c =
     record_insert iter now (record_cache_key to_ascii type_text name rtype) records secure c"
| "record_exec iter to_ascii type_text (RecordGet now name rtype) c =
     Some (snd (record_get now (record_cache_key to_ascii type_text name rtype) c))"
| "record_exec iter to_ascii type_text RecordFlush c = Some (record_flush c)"

text \<open>The write of an insertion; an empty set and a set without a lifetime are not stored.\<close>

fun record_writes ::
  "u32 \<Rightarrow> ('n \<Rightarrow> string) \<Rightarrow> ('t \<Rightarrow> string) \<Rightarrow> ('n, 't, 'd) record_cache_op \<Rightarrow> (string \<times> 'd cached_records) option" where
  "record_writes default_ttl to_ascii type_text (RecordInsert now name rtype records secure) =
     (if records = [] \<or> record_lifetime default_ttl records = 0 then None
      else Some (record_cache_key to_ascii type_text name rtype,
        \<lparr>cr_records = records, cr_expires = now + from_secs (record_lifetime default_ttl records),
         cr_secure = secure\<rparr>))"
| "record_writes default_ttl to_ascii type_text (RecordGet now name rtype) = None"
| "record_writes default_ttl to_ascii type_text RecordFlush = None"

section \<open>The key cache\<close>

datatype 'k TrustState = Secure "'k list" | Insecure

record 'k trust_entry =
  te_state :: "'k TrustState"
  te_expires :: nat

definition trust_keys :: "'k TrustState \<Rightarrow> 'k list option" where
  "trust_keys s = (case s of Secure ks \<Rightarrow> Some ks | Insecure \<Rightarrow> None)"

definition MAX_TRUST_TTL :: u32 where "MAX_TRUST_TTL = 604800"

definition MIN_TRUST_TTL :: u32 where "MIN_TRUST_TTL = 60"

definition MAX_TRUST_ENTRIES :: nat where "MAX_TRUST_ENTRIES = 10000"

definition clamp_trust_ttl :: "u32 \<Rightarrow> u32" where
  "clamp_trust_ttl ttl =
     (if ttl < MIN_TRUST_TTL then MIN_TRUST_TTL else if ttl > MAX_TRUST_TTL then MAX_TRUST_TTL else ttl)"

definition trust_insert ::
  "((string, 'k trust_entry) table \<Rightarrow> (string, 'k trust_entry) table) \<Rightarrow> nat \<Rightarrow> string
    \<Rightarrow> 'k TrustState \<Rightarrow> u32 \<Rightarrow> (string, 'k trust_entry) table \<Rightarrow> (string, 'k trust_entry) table option" where
  "trust_insert iter now key state ttl c =
     (case reap_if_full iter MAX_TRUST_ENTRIES te_expires now c of
        None \<Rightarrow> None
      | Some m \<Rightarrow> Some (AList.update key
          \<lparr>te_state = state, te_expires = now + from_secs (clamp_trust_ttl ttl)\<rparr> m))"

definition trust_get ::
  "nat \<Rightarrow> string \<Rightarrow> (string, 'k trust_entry) table \<Rightarrow> 'k TrustState option \<times> (string, 'k trust_entry) table" where
  "trust_get now key c =
     (case map_of c key of
        None \<Rightarrow> (None, c)
      | Some entry \<Rightarrow>
          if te_expires entry \<le> now then (None, AList.delete key c) else (Some (te_state entry), c))"

definition trust_invalidate :: "string \<Rightarrow> (string, 'k trust_entry) table \<Rightarrow> (string, 'k trust_entry) table" where
  "trust_invalidate key c = AList.delete key c"

datatype ('n, 'k) trust_op =
  TrustInsert nat 'n "'k TrustState" u32
| TrustGet nat 'n
| TrustInvalidate 'n
| TrustFlush

fun trust_exec ::
  "((string, 'k trust_entry) table \<Rightarrow> (string, 'k trust_entry) table) \<Rightarrow> ('n \<Rightarrow> string)
    \<Rightarrow> ('n, 'k) trust_op \<Rightarrow> (string, 'k trust_entry) table \<Rightarrow> (string, 'k trust_entry) table option" where
  "trust_exec iter to_ascii (TrustInsert now zone state ttl) c =
     trust_insert iter now (lower (to_ascii zone)) state ttl c"
| "trust_exec iter to_ascii (TrustGet now zone) c = Some (snd (trust_get now (lower (to_ascii zone)) c))"
| "trust_exec iter to_ascii (TrustInvalidate zone) c = Some (trust_invalidate (lower (to_ascii zone)) c)"
| "trust_exec iter to_ascii TrustFlush c = Some []"

fun trust_writes :: "('n \<Rightarrow> string) \<Rightarrow> ('n, 'k) trust_op \<Rightarrow> (string \<times> 'k trust_entry) option" where
  "trust_writes to_ascii (TrustInsert now zone state ttl) =
     Some (lower (to_ascii zone), \<lparr>te_state = state, te_expires = now + from_secs (clamp_trust_ttl ttl)\<rparr>)"
| "trust_writes to_ascii _ = None"

text \<open>A run of the record cache: two sets of one name, an expired read in between, and another name.\<close>

definition sample_record_run :: "(string, string, string) record_cache_op list" where
  "sample_record_run =
     [RecordInsert 0 ''NS1.example.'' ''A'' [\<lparr>rr_ttl = 10, rr_data = ''192.0.2.1''\<rparr>] False,
      RecordGet 10000000000 ''ns1.example.'' ''A'',
      RecordInsert 20000000000 ''ns1.Example.'' ''A''
        [\<lparr>rr_ttl = 600, rr_data = ''192.0.2.2''\<rparr>, \<lparr>rr_ttl = 300, rr_data = ''192.0.2.3''\<rparr>] True,
      RecordInsert 20000000000 ''ns2.example.'' ''A'' [\<lparr>rr_ttl = 0, rr_data = ''192.0.2.4''\<rparr>] False]"

section \<open>Laws of the bounded map\<close>

text \<open>The cast \<open>as u32\<close> of a number of seconds that fits.\<close>

lemma from_secs_of_int: "0 \<le> n \<Longrightarrow> n < 2 ^ 32 \<Longrightarrow> from_secs (of_int n) = nat n * 1000000000"
  using take_bit_int_eq_self [of n 32] by (simp add: from_secs_def unsigned_of_int)

lemma decayed_ttl_bounds:
  assumes "now < t0 + from_secs l" "t0 \<le> now"
  shows "1 \<le> unat (decayed_ttl (t0 + from_secs l) now)"
    and "unat (decayed_ttl (t0 + from_secs l) now) \<le> unat l"
    and "now + from_secs (decayed_ttl (t0 + from_secs l) now) < t0 + from_secs l + 1000000000"
proof -
  let ?q = "(t0 + from_secs l - now) div 1000000000"
  have l: "0 < unat l"
    using assms by (auto simp: from_secs_def intro: gr0I)
  have q: "?q \<le> unat l"
    using assms(2) by (simp add: from_secs_def less_eq_div_iff_mult_less_eq div_le_mono [THEN order_trans])
  have "unat l < 2 ^ 32"
    using unsigned_less [of l, where 'a = nat] by simp
  then have "unat (of_nat ?q :: u32) = ?q"
    using q by (simp add: unat_of_nat take_bit_nat_eq_self)
  then have d: "unat (decayed_ttl (t0 + from_secs l) now) = max ?q 1"
    by (simp add: decayed_ttl_def max_def word_le_nat_alt)
  show "1 \<le> unat (decayed_ttl (t0 + from_secs l) now)"
    and "unat (decayed_ttl (t0 + from_secs l) now) \<le> unat l"
    using d q l by auto
  have "?q * 1000000000 \<le> t0 + from_secs l - now"
    by (simp add: div_times_less_eq_dividend)
  then show "now + from_secs (decayed_ttl (t0 + from_secs l) now) < t0 + from_secs l + 1000000000"
    using assms(1) unfolding from_secs_def [of "decayed_ttl _ _"] d by (auto simp: max_def)
qed

lemma map_le_SomeD: "m \<subseteq>\<^sub>m m' \<Longrightarrow> m k = Some v \<Longrightarrow> m' k = Some v"
  by (metis map_le_def domI)

lemma evict_loop_returns:
  assumes "iterates iter" "0 < cap"
  shows "\<exists>m'. evict_loop iter cap m = Some m' \<and> length m' < cap
    \<and> map_of m' \<subseteq>\<^sub>m map_of m \<and> (wf_table m \<longrightarrow> wf_table m')"
proof (induction "length m" arbitrary: m rule: less_induct)
  case less
  show ?case
  proof (cases "length m < cap")
    case True
    then show ?thesis by (simp add: evict_loop.simps)
  next
    case False
    then have "m \<noteq> []" using assms(2) by auto
    then obtain e es where e: "iter m = e # es"
      using assms(1) by (metis iterates_def list.set_cases neq_Nil_conv set_empty)
    then have "fst e \<in> fst ` set m"
      using assms(1) by (metis iterates_def image_eqI list.set_intros(1))
    from less [OF length_delete_less [OF this]] obtain m' where m':
      "evict_loop iter cap (AList.delete (fst e) m) = Some m'" "length m' < cap"
      "map_of m' \<subseteq>\<^sub>m map_of (AList.delete (fst e) m)"
      "wf_table (AList.delete (fst e) m) \<longrightarrow> wf_table m'" by blast
    moreover have "map_of m' \<subseteq>\<^sub>m map_of m"
      by (rule map_le_trans [OF m'(3)]) simp
    moreover have "evict_loop iter cap m = evict_loop iter cap (AList.delete (fst e) m)"
      using False e by (simp add: evict_loop.simps)
    ultimately show ?thesis by simp
  qed
qed

lemma reap_if_full_returns:
  assumes "iterates iter" "0 < cap" "wf_table m"
  obtains m' where "reap_if_full iter cap expires now m = Some m'" "length m' < cap" "wf_table m'"
    "map_of m' \<subseteq>\<^sub>m map_of m" "length m < cap \<Longrightarrow> m' = m"
proof (cases "length m < cap")
  case True
  then show thesis using that [of m] assms(3) by (simp add: reap_if_full_def)
next
  case False
  have "map_of (retain (\<lambda>_ v. now < expires v) m) \<subseteq>\<^sub>m map_of m"
    using assms(3) by (auto simp: map_le_def map_of_retain split: option.splits if_splits)
  moreover obtain m' where "evict_loop iter cap (retain (\<lambda>_ v. now < expires v) m) = Some m'" "length m' < cap"
    "map_of m' \<subseteq>\<^sub>m map_of (retain (\<lambda>_ v. now < expires v) m)"
    "wf_table (retain (\<lambda>_ v. now < expires v) m) \<longrightarrow> wf_table m'"
    using evict_loop_returns [OF assms(1,2)] by blast
  ultimately show thesis
    using that [of m'] False assms(3) map_le_trans by (auto simp: reap_if_full_def)
qed

lemma last_write_SomeD: "last_write wr k xs = Some e \<Longrightarrow> \<exists>x\<in>set xs. wr x = Some (k, e)"
  by (induction xs) (auto split: option.splits if_splits)

section \<open>The cache contract\<close>

text \<open>
  What the three resolver caches promise. An operation writes at most one entry, the one \<open>wr\<close> names;
  it may lose others (eviction, expiry, invalidation, flush) but never changes or invents one; it always
  returns, and the map stays within its bound. Then, after any run, an entry is the last one written
  under its key.
\<close>

locale expiring_cache =
  fixes exec :: "'op \<Rightarrow> 's \<Rightarrow> 's option"
    and entry :: "'s \<Rightarrow> 'k \<Rightarrow> 'e option"
    and wr :: "'op \<Rightarrow> ('k \<times> 'e) option"
    and valid :: "'s \<Rightarrow> bool"
  assumes exec_returns: "valid s \<Longrightarrow> \<exists>s'. exec x s = Some s'"
    and exec_inv: "valid s \<Longrightarrow> exec x s = Some s' \<Longrightarrow> valid s'"
    and exec_written: "valid s \<Longrightarrow> exec x s = Some s' \<Longrightarrow> wr x = Some (k, e) \<Longrightarrow> entry s' k = Some e"
    and exec_kept: "valid s \<Longrightarrow> exec x s = Some s' \<Longrightarrow> entry s' k = Some e
      \<Longrightarrow> wr x = Some (k, e) \<or> entry s k = Some e \<and> (\<forall>e'. wr x \<noteq> Some (k, e'))"
begin

lemma run_returns: "valid s \<Longrightarrow> \<exists>s'. run_ops exec xs s = Some s' \<and> valid s'"
proof (induction xs arbitrary: s)
  case Nil
  then show ?case by simp
next
  case (Cons x xs)
  then show ?case
    using exec_returns [of s x] exec_inv [of s x] by fastforce
qed

lemma run_last_write:
  "valid s \<Longrightarrow> run_ops exec xs s = Some s' \<Longrightarrow> entry s' k = Some e
    \<Longrightarrow> last_write wr k xs = Some e \<or> last_write wr k xs = None \<and> entry s k = Some e"
proof (induction xs arbitrary: s)
  case Nil
  then show ?case by simp
next
  case (Cons x xs)
  then obtain s1 where s1: "exec x s = Some s1" "run_ops exec xs s1 = Some s'"
    by (auto split: option.splits)
  with Cons have "last_write wr k xs = Some e \<or> last_write wr k xs = None \<and> entry s1 k = Some e"
    using exec_inv by blast
  then show ?case
    using exec_kept [OF Cons.prems(1) s1(1), of k e] by (auto split: option.splits)
qed

end

lemma expiring_cacheI:
  assumes "\<And>x s. valid s \<Longrightarrow> \<exists>s'. exec x s = Some s' \<and> valid s'
      \<and> (\<forall>k e. wr x = Some (k, e) \<longrightarrow> entry s' k = Some e)
      \<and> (\<forall>k e. entry s' k = Some e \<longrightarrow> wr x = Some (k, e) \<or> entry s k = Some e \<and> (\<forall>e'. wr x \<noteq> Some (k, e')))"
  shows "expiring_cache exec entry wr valid"
proof
  fix x s
  assume "valid s"
  then obtain c where c: "exec x s = Some c" "valid c" "\<And>k e. wr x = Some (k, e) \<Longrightarrow> entry c k = Some e"
    "\<And>k e. entry c k = Some e \<Longrightarrow> wr x = Some (k, e) \<or> entry s k = Some e \<and> (\<forall>e'. wr x \<noteq> Some (k, e'))"
    using assms by blast
  show "\<exists>s'. exec x s = Some s'"
    using c(1) by blast
  fix s' k e
  assume s': "exec x s = Some s'"
  show "valid s'"
    using c(1,2) s' by simp
  show "entry s' k = Some e" if "wr x = Some (k, e)"
    using c(1,3) s' that by simp
  show "wr x = Some (k, e) \<or> entry s k = Some e \<and> (\<forall>e'. wr x \<noteq> Some (k, e'))" if "entry s' k = Some e"
    using c(1) c(4) [of k e] s' that by simp
qed

section \<open>The record cache keeps the contract\<close>

definition record_inv :: "u32 \<Rightarrow> 'd record_cache \<Rightarrow> bool" where
  "record_inv default_ttl c \<longleftrightarrow> rc_default_ttl c = default_ttl \<and> wf_table (rc_entries c)
     \<and> length (rc_entries c) \<le> MAX_RECORD_ENTRIES"

lemma update_reaped:
  assumes "iterates iter" "0 < cap" "wf_table m"
  obtains m' where "reap_if_full iter cap expires now m = Some m'"
    "wf_table (AList.update k e m')" "length (AList.update k e m') \<le> cap"
    "\<And>k' e'. map_of (AList.update k e m') k' = Some e' \<Longrightarrow> k' = k \<and> e' = e \<or> k' \<noteq> k \<and> map_of m k' = Some e'"
proof -
  obtain m' where m': "reap_if_full iter cap expires now m = Some m'" "length m' < cap" "wf_table m'"
    "map_of m' \<subseteq>\<^sub>m map_of m"
    using reap_if_full_returns [OF assms] by metis
  moreover have "map_of m k' = Some e'" if "map_of m' k' = Some e'" for k' e'
    using m'(4) that by (rule map_le_SomeD)
  moreover have "length (AList.update k e m') \<le> cap"
    using m'(2) by (simp add: length_update)
  ultimately show thesis
    by (intro that [of m']) (auto split: if_splits)
qed

lemma record_insert_step:
  assumes "iterates iter" "record_inv d c"
  shows "\<exists>c'. record_insert iter now key records secure c = Some c' \<and> record_inv d c'
    \<and> (if records = [] \<or> record_lifetime d records = 0 then c' = c
       else let e = \<lparr>cr_records = records, cr_expires = now + from_secs (record_lifetime d records),
                     cr_secure = secure\<rparr>
            in map_of (rc_entries c') key = Some e \<and> (\<forall>k' e'. map_of (rc_entries c') k' = Some e'
                 \<longrightarrow> k' = key \<and> e' = e \<or> k' \<noteq> key \<and> map_of (rc_entries c) k' = Some e'))"
proof (cases "records = [] \<or> record_lifetime d records = 0")
  case True
  then show ?thesis using assms(2) by (auto simp: record_insert_def record_inv_def)
next
  case False
  define e where "e = \<lparr>cr_records = records, cr_expires = now + from_secs (record_lifetime d records), cr_secure = secure\<rparr>"
  have inv: "wf_table (rc_entries c)" "0 < MAX_RECORD_ENTRIES" "rc_default_ttl c = d"
    using assms(2) by (simp_all add: record_inv_def MAX_RECORD_ENTRIES_def)
  obtain m' where m':
    "reap_if_full iter MAX_RECORD_ENTRIES cr_expires now (rc_entries c) = Some m'"
    "wf_table (AList.update key e m')" "length (AList.update key e m') \<le> MAX_RECORD_ENTRIES"
    "\<And>k' e'. map_of (AList.update key e m') k' = Some e' \<Longrightarrow> k' = key \<and> e' = e \<or> k' \<noteq> key \<and> map_of (rc_entries c) k' = Some e'"
    using update_reaped [OF assms(1) inv(2,1)] by blast
  have "record_insert iter now key records secure c = Some (c\<lparr>rc_entries := AList.update key e m'\<rparr>)"
    using False m'(1) inv(3) by (simp add: record_insert_def e_def)
  moreover have "record_inv d (c\<lparr>rc_entries := AList.update key e m'\<rparr>)"
    using m'(2,3) inv(3) by (simp add: record_inv_def)
  ultimately show ?thesis
    using False m'(4) unfolding e_def [symmetric] Let_def by auto
qed

lemma record_get_step:
  assumes "record_inv d c"
  shows "record_inv d (snd (record_get now key c))"
    and "map_of (rc_entries (snd (record_get now key c))) \<subseteq>\<^sub>m map_of (rc_entries c)"
  using assms length_delete_le [of key "rc_entries c"]
  by (auto simp: record_get_def record_inv_def split: option.splits)

lemma record_get_hit:
  "fst (record_get now key c) = Some (rs, secure) \<longleftrightarrow>
    (\<exists>e. map_of (rc_entries c) key = Some e \<and> now < cr_expires e \<and> secure = cr_secure e
      \<and> rs = map (\<lambda>r. r\<lparr>rr_ttl := decayed_ttl (cr_expires e) now\<rparr>) (cr_records e))"
  by (auto simp: record_get_def split: option.splits)

lemma record_exec_step:
  assumes "iterates iter" "record_inv d c"
  shows "\<exists>c'. record_exec iter to_ascii type_text x c = Some c' \<and> record_inv d c'
    \<and> (\<forall>k e. record_writes d to_ascii type_text x = Some (k, e) \<longrightarrow> map_of (rc_entries c') k = Some e)
    \<and> (\<forall>k e. map_of (rc_entries c') k = Some e \<longrightarrow> record_writes d to_ascii type_text x = Some (k, e)
       \<or> map_of (rc_entries c) k = Some e \<and> (\<forall>e'. record_writes d to_ascii type_text x \<noteq> Some (k, e')))"
proof (cases x)
  case (RecordInsert now name rtype records secure)
  let ?k = "record_cache_key to_ascii type_text name rtype"
  show ?thesis
    using RecordInsert record_insert_step [OF assms, of now ?k records secure]
    by (cases "records = [] \<or> record_lifetime d records = 0") (auto simp: Let_def)
next
  case (RecordGet now name rtype)
  then show ?thesis
    using record_get_step [OF assms(2), of now "record_cache_key to_ascii type_text name rtype"]
    by (auto dest: map_le_SomeD)
next
  case RecordFlush
  then show ?thesis
    using assms(2) by (auto simp: record_flush_def record_inv_def)
qed

interpretation record_cache: expiring_cache
  "record_exec iter to_ascii type_text" "\<lambda>c. map_of (rc_entries c)" "record_writes d to_ascii type_text"
  "\<lambda>c. iterates iter \<and> record_inv d c" for iter to_ascii type_text d
  by (rule expiring_cacheI) (use record_exec_step in blast)

lemma record_new_inv [simp]: "record_inv d (record_cache_new d)"
  by (simp add: record_inv_def record_cache_new_def)

lemma record_new_entries [simp]: "rc_entries (record_cache_new d) = []"
  by (simp add: record_cache_new_def)

lemma record_writes_Some:
  "record_writes d to_ascii type_text x = Some (key, e) \<Longrightarrow>
     \<exists>t0 name rtype records secure. x = RecordInsert t0 name rtype records secure
       \<and> key = record_cache_key to_ascii type_text name rtype
       \<and> e = \<lparr>cr_records = records, cr_expires = t0 + from_secs (record_lifetime d records), cr_secure = secure\<rparr>"
  by (cases x) (auto split: if_splits)

section \<open>The key cache keeps the contract\<close>

definition trust_inv :: "(string, 'k trust_entry) table \<Rightarrow> bool" where
  "trust_inv c \<longleftrightarrow> wf_table c \<and> length c \<le> MAX_TRUST_ENTRIES"

lemma trust_insert_step:
  assumes "iterates iter" "trust_inv c"
  shows "\<exists>c'. trust_insert iter now key state ttl c = Some c' \<and> trust_inv c'
    \<and> (let e = \<lparr>te_state = state, te_expires = now + from_secs (clamp_trust_ttl ttl)\<rparr>
       in map_of c' key = Some e \<and> (\<forall>k' e'. map_of c' k' = Some e'
            \<longrightarrow> k' = key \<and> e' = e \<or> k' \<noteq> key \<and> map_of c k' = Some e'))"
proof -
  define e where "e = \<lparr>te_state = state, te_expires = now + from_secs (clamp_trust_ttl ttl)\<rparr>"
  have inv: "wf_table c" "0 < MAX_TRUST_ENTRIES"
    using assms(2) by (simp_all add: trust_inv_def MAX_TRUST_ENTRIES_def)
  obtain m' where m':
    "reap_if_full iter MAX_TRUST_ENTRIES te_expires now c = Some m'"
    "wf_table (AList.update key e m')" "length (AList.update key e m') \<le> MAX_TRUST_ENTRIES"
    "\<And>k' e'. map_of (AList.update key e m') k' = Some e' \<Longrightarrow> k' = key \<and> e' = e \<or> k' \<noteq> key \<and> map_of c k' = Some e'"
    using update_reaped [OF assms(1) inv(2,1)] by blast
  have "trust_insert iter now key state ttl c = Some (AList.update key e m')"
    using m'(1) by (simp add: trust_insert_def e_def)
  moreover have "trust_inv (AList.update key e m')"
    using m'(2,3) by (simp add: trust_inv_def)
  ultimately show ?thesis
    using m'(4) unfolding e_def [symmetric] Let_def by auto
qed

lemma trust_inv_delete [simp]: "trust_inv c \<Longrightarrow> trust_inv (AList.delete k c)"
  using length_delete_le [of k c] by (simp add: trust_inv_def)

lemma trust_exec_step:
  assumes "iterates iter" "trust_inv c"
  shows "\<exists>c'. trust_exec iter to_ascii x c = Some c' \<and> trust_inv c'
    \<and> (\<forall>k e. trust_writes to_ascii x = Some (k, e) \<longrightarrow> map_of c' k = Some e)
    \<and> (\<forall>k e. map_of c' k = Some e \<longrightarrow> trust_writes to_ascii x = Some (k, e)
       \<or> map_of c k = Some e \<and> (\<forall>e'. trust_writes to_ascii x \<noteq> Some (k, e')))"
proof (cases x)
  case (TrustInsert now zone state ttl)
  then show ?thesis
    using trust_insert_step [OF assms, of now "lower (to_ascii zone)" state ttl] by (auto simp: Let_def)
next
  case (TrustGet now zone)
  then show ?thesis
    using assms(2) by (auto simp: trust_get_def split: option.splits if_splits)
next
  case (TrustInvalidate zone)
  then show ?thesis
    using assms(2) by (auto simp: trust_invalidate_def split: if_splits)
next
  case TrustFlush
  then show ?thesis by (simp add: trust_inv_def)
qed

interpretation key_cache: expiring_cache
  "trust_exec iter to_ascii" map_of "trust_writes to_ascii" "\<lambda>c. iterates iter \<and> trust_inv c" for iter to_ascii
  by (rule expiring_cacheI) (use trust_exec_step in blast)

lemma trust_writes_Some:
  "trust_writes to_ascii x = Some (key, e) \<Longrightarrow>
     \<exists>t0 zone state ttl. x = TrustInsert t0 zone state ttl \<and> key = lower (to_ascii zone)
       \<and> e = \<lparr>te_state = state, te_expires = t0 + from_secs (clamp_trust_ttl ttl)\<rparr>"
  by (cases x) auto

lemma clamp_trust_ttl_bounds: "MIN_TRUST_TTL \<le> clamp_trust_ttl ttl" "clamp_trust_ttl ttl \<le> MAX_TRUST_TTL"
  by (auto simp: clamp_trust_ttl_def MIN_TRUST_TTL_def MAX_TRUST_TTL_def not_less)

section \<open>Properties\<close>

text \<open>
  C25: whatever is inserted, read and flushed, and in whatever order the map evicts, every operation of
  the record cache returns, the map stays within its bound, and a hit is the set of the last insertion
  under that name and type, with its validation mark, before its lifetime is over. The time to live it
  is handed out with is positive, at most the shortest one the set came with or the default, and never
  carries the set more than a second past the original lifetime.
\<close>

theorem record_cache_last_write:
  assumes "iterates iter"
  shows "\<exists>c. run_ops (record_exec iter to_ascii type_text) xs (record_cache_new d) = Some c
    \<and> length (rc_entries c) \<le> MAX_RECORD_ENTRIES
    \<and> (\<forall>now name rtype rs secure.
         fst (record_get now (record_cache_key to_ascii type_text name rtype) c) = Some (rs, secure) \<longrightarrow>
         (\<exists>t0 name' rtype' records ttl.
            RecordInsert t0 name' rtype' records secure \<in> set xs
            \<and> last_write (record_writes d to_ascii type_text) (record_cache_key to_ascii type_text name rtype) xs =
                Some \<lparr>cr_records = records, cr_expires = t0 + from_secs (record_lifetime d records), cr_secure = secure\<rparr>
            \<and> now < t0 + from_secs (record_lifetime d records)
            \<and> rs = map (\<lambda>r. r\<lparr>rr_ttl := ttl\<rparr>) records
            \<and> (t0 \<le> now \<longrightarrow> 1 \<le> unat ttl \<and> unat ttl \<le> unat (record_lifetime d records)
                 \<and> now + from_secs ttl < t0 + from_secs (record_lifetime d records) + 1000000000)))"
proof -
  obtain c where c: "run_ops (record_exec iter to_ascii type_text) xs (record_cache_new d) = Some c"
    "record_inv d c"
    using record_cache.run_returns [of iter d "record_cache_new d" to_ascii type_text xs] assms by auto
  show ?thesis
  proof (intro exI [of _ c] conjI allI impI)
    fix now name rtype rs secure
    let ?key = "record_cache_key to_ascii type_text name rtype"
    assume "fst (record_get now ?key c) = Some (rs, secure)"
    then obtain e where e: "map_of (rc_entries c) ?key = Some e" "now < cr_expires e" "secure = cr_secure e"
      "rs = map (\<lambda>r. r\<lparr>rr_ttl := decayed_ttl (cr_expires e) now\<rparr>) (cr_records e)"
      unfolding record_get_hit by blast
    have last: "last_write (record_writes d to_ascii type_text) ?key xs = Some e"
      using record_cache.run_last_write [OF _ c(1) e(1), of d] assms by simp
    then obtain x where x: "x \<in> set xs" "record_writes d to_ascii type_text x = Some (?key, e)"
      using last_write_SomeD by metis
    obtain t0 name' rtype' records sec where w: "x = RecordInsert t0 name' rtype' records sec"
      "e = \<lparr>cr_records = records, cr_expires = t0 + from_secs (record_lifetime d records), cr_secure = sec\<rparr>"
      using record_writes_Some [OF x(2)] by blast
    let ?ttl = "decayed_ttl (cr_expires e) now"
    have "t0 \<le> now \<longrightarrow> 1 \<le> unat ?ttl \<and> unat ?ttl \<le> unat (record_lifetime d records)
        \<and> now + from_secs ?ttl < t0 + from_secs (record_lifetime d records) + 1000000000"
      using decayed_ttl_bounds [of now t0 "record_lifetime d records"] e(2) w(2) by simp
    then show "\<exists>t0 name' rtype' records ttl.
            RecordInsert t0 name' rtype' records secure \<in> set xs
            \<and> last_write (record_writes d to_ascii type_text) ?key xs =
                Some \<lparr>cr_records = records, cr_expires = t0 + from_secs (record_lifetime d records), cr_secure = secure\<rparr>
            \<and> now < t0 + from_secs (record_lifetime d records)
            \<and> rs = map (\<lambda>r. r\<lparr>rr_ttl := ttl\<rparr>) records
            \<and> (t0 \<le> now \<longrightarrow> 1 \<le> unat ttl \<and> unat ttl \<le> unat (record_lifetime d records)
                 \<and> now + from_secs ttl < t0 + from_secs (record_lifetime d records) + 1000000000)"
      using x(1) w e last by (intro exI [of _ t0] exI [of _ name'] exI [of _ rtype'] exI [of _ records]
          exI [of _ ?ttl]) simp
  qed (use c in \<open>simp_all add: record_inv_def\<close>)
qed

theorem record_cache_last_write_witness:
  "iterates (rev :: (string, string cached_records) table \<Rightarrow> _)
   \<and> (\<exists>c. run_ops (record_exec rev (\<lambda>n. n) (\<lambda>t. t)) sample_record_run (record_cache_new 3600) = Some c
        \<and> length (rc_entries c) \<le> MAX_RECORD_ENTRIES
        \<and> fst (record_get 319500000000 ''ns1.example.:A'' c) =
            Some ([\<lparr>rr_ttl = 1, rr_data = ''192.0.2.2''\<rparr>, \<lparr>rr_ttl = 1, rr_data = ''192.0.2.3''\<rparr>], True)
        \<and> fst (record_get 3619000000000 ''ns2.example.:A'' c) = Some ([\<lparr>rr_ttl = 1, rr_data = ''192.0.2.4''\<rparr>], False)
        \<and> fst (record_get 320000000000 ''ns1.example.:A'' c) = None)"
proof -
  have rev: "iterates (rev :: (string, string cached_records) table \<Rightarrow> _)"
    by (simp add: iterates_def)
  obtain c where c: "run_ops (record_exec rev (\<lambda>n. n) (\<lambda>t. t)) sample_record_run (record_cache_new 3600) = Some c"
    "length (rc_entries c) \<le> MAX_RECORD_ENTRIES"
    using record_cache_last_write [OF rev, of "\<lambda>n. n" "\<lambda>t. t" sample_record_run 3600] by blast
  have "(case run_ops (record_exec rev (\<lambda>n. n) (\<lambda>t. t)) sample_record_run (record_cache_new 3600) of
       None \<Rightarrow> False
     | Some c \<Rightarrow> fst (record_get 319500000000 ''ns1.example.:A'' c) =
            Some ([\<lparr>rr_ttl = 1, rr_data = ''192.0.2.2''\<rparr>, \<lparr>rr_ttl = 1, rr_data = ''192.0.2.3''\<rparr>], True)
        \<and> fst (record_get 3619000000000 ''ns2.example.:A'' c) = Some ([\<lparr>rr_ttl = 1, rr_data = ''192.0.2.4''\<rparr>], False)
        \<and> fst (record_get 320000000000 ''ns1.example.:A'' c) = None)"
    by code_simp
  then show ?thesis
    using rev c unfolding c(1) option.case by blast
qed

text \<open>
  C28: every operation of the key cache returns, at most ten thousand zones are held, and a trust
  decision handed out is the last one recorded for exactly that zone, neither older than its (clamped)
  lifetime nor ever held for more than a week.
\<close>

theorem key_cache_last_write:
  assumes "iterates iter"
  shows "\<exists>c. run_ops (trust_exec iter to_ascii) xs [] = Some c
    \<and> length c \<le> MAX_TRUST_ENTRIES
    \<and> (\<forall>now zone state. fst (trust_get now (lower (to_ascii zone)) c) = Some state \<longrightarrow>
         (\<exists>t0 zone' ttl. TrustInsert t0 zone' state ttl \<in> set xs \<and> lower (to_ascii zone') = lower (to_ascii zone)
            \<and> last_write (trust_writes to_ascii) (lower (to_ascii zone)) xs =
                Some \<lparr>te_state = state, te_expires = t0 + from_secs (clamp_trust_ttl ttl)\<rparr>
            \<and> now < t0 + from_secs (clamp_trust_ttl ttl) \<and> now < t0 + from_secs MAX_TRUST_TTL))"
proof -
  obtain c where c: "run_ops (trust_exec iter to_ascii) xs [] = Some c" "trust_inv c"
    using key_cache.run_returns [of iter "[]" to_ascii xs] assms by (auto simp: trust_inv_def)
  show ?thesis
  proof (intro exI [of _ c] conjI allI impI)
    fix now zone state
    let ?key = "lower (to_ascii zone)"
    assume "fst (trust_get now ?key c) = Some state"
    then obtain e where e: "map_of c ?key = Some e" "now < te_expires e" "state = te_state e"
      by (auto simp: trust_get_def split: option.splits if_splits)
    have last: "last_write (trust_writes to_ascii) ?key xs = Some e"
      using key_cache.run_last_write [OF _ c(1) e(1)] assms by (simp add: trust_inv_def)
    then obtain x where x: "x \<in> set xs" "trust_writes to_ascii x = Some (?key, e)"
      using last_write_SomeD by metis
    obtain t0 zone' st ttl where w: "x = TrustInsert t0 zone' st ttl" "?key = lower (to_ascii zone')"
      "e = \<lparr>te_state = st, te_expires = t0 + from_secs (clamp_trust_ttl ttl)\<rparr>"
      using trust_writes_Some [OF x(2)] by blast
    have "from_secs (clamp_trust_ttl ttl) \<le> from_secs MAX_TRUST_TTL"
      using clamp_trust_ttl_bounds(2) [of ttl] by (simp add: from_secs_def word_le_nat_alt)
    then show "\<exists>t0 zone' ttl. TrustInsert t0 zone' state ttl \<in> set xs \<and> lower (to_ascii zone') = ?key
            \<and> last_write (trust_writes to_ascii) ?key xs =
                Some \<lparr>te_state = state, te_expires = t0 + from_secs (clamp_trust_ttl ttl)\<rparr>
            \<and> now < t0 + from_secs (clamp_trust_ttl ttl) \<and> now < t0 + from_secs MAX_TRUST_TTL"
      using x(1) w e last
      by (intro exI [of _ t0] exI [of _ zone'] exI [of _ ttl]) (auto intro: less_le_trans)
  qed (use c in \<open>simp_all add: trust_inv_def\<close>)
qed

theorem key_cache_last_write_witness:
  "iterates (rev :: (string, nat trust_entry) table \<Rightarrow> _)
   \<and> (\<exists>c. run_ops (trust_exec rev (\<lambda>n. n))
            [TrustInsert 0 ''Example.com.'' (Secure [7 :: nat]) 0, TrustInsert 0 ''com.'' Insecure 999999999] [] = Some c
        \<and> length c \<le> MAX_TRUST_ENTRIES
        \<and> fst (trust_get 59999999999 ''example.com.'' c) = Some (Secure [7])
        \<and> fst (trust_get 60000000000 ''example.com.'' c) = None
        \<and> fst (trust_get 604800000000000 ''com.'' c) = None
        \<and> fst (trust_get 0 ''evil.example.com.'' c) = None)"
proof -
  let ?xs = "[TrustInsert 0 ''Example.com.'' (Secure [7 :: nat]) 0, TrustInsert 0 ''com.'' Insecure 999999999]"
  have rev: "iterates (rev :: (string, nat trust_entry) table \<Rightarrow> _)"
    by (simp add: iterates_def)
  obtain c where c: "run_ops (trust_exec rev (\<lambda>n. n)) ?xs [] = Some c" "length c \<le> MAX_TRUST_ENTRIES"
    using key_cache_last_write [OF rev, of "\<lambda>n. n" ?xs] by blast
  have "(case run_ops (trust_exec rev (\<lambda>n. n)) ?xs [] of
       None \<Rightarrow> False
     | Some c \<Rightarrow> fst (trust_get 59999999999 ''example.com.'' c) = Some (Secure [7])
        \<and> fst (trust_get 60000000000 ''example.com.'' c) = None
        \<and> fst (trust_get 604800000000000 ''com.'' c) = None
        \<and> fst (trust_get 0 ''evil.example.com.'' c) = None)"
    by code_simp
  then show ?thesis
    using rev c unfolding c(1) option.case by blast
qed

end
