(* ===== verification/Delegation_Cache.thy ===== *)
theory Delegation_Cache
  imports Ip_Text Ttl_Cache
begin

text \<open>
  The delegation cache (\<open>src/src/delegation_cache.rs\<close>) with its table in the database
  (\<open>delegation_*\<close> of \<open>src/src/db.rs\<close>): where an iterative resolution starts, and what survives a
  restart.

  Names of the DNS library are a type parameter with the three functions the cache calls on them
  (\<open>to_ascii\<close>, \<open>is_root\<close>, \<open>base_name\<close>); \<open>dns_names\<close> states what the library documents about them. The
  write-behind channel is the list of queued requests, and the worker that drains it is an operation
  of its own, so that every interleaving with the other operations is a sequence of operations.
\<close>

section \<open>The table\<close>

record delegation_row =
  dl_zone :: string
  dl_ip :: string
  dl_ttl :: int
  dl_cached_at :: int

text \<open>\<open>INSERT \<dots> ON CONFLICT(zone, ns_ip) DO UPDATE\<close>: a row with the same key is changed in place.\<close>

definition delegation_upsert :: "int \<Rightarrow> string \<Rightarrow> u32 \<Rightarrow> string \<Rightarrow> delegation_row list \<Rightarrow> delegation_row list" where
  "delegation_upsert wall zone ttl ip rows =
     (if list_ex (\<lambda>r. dl_zone r = zone \<and> dl_ip r = ip) rows
      then map (\<lambda>r. if dl_zone r = zone \<and> dl_ip r = ip
                    then r\<lparr>dl_ttl := uint ttl, dl_cached_at := wall\<rparr> else r) rows
      else rows @ [\<lparr>dl_zone = zone, dl_ip = ip, dl_ttl = uint ttl, dl_cached_at = wall\<rparr>])"

definition delegation_insert :: "int \<Rightarrow> string \<Rightarrow> string \<Rightarrow> u32 \<Rightarrow> delegation_row list \<Rightarrow> delegation_row list" where
  "delegation_insert wall zone ns_ip ttl rows = delegation_upsert wall zone ttl ns_ip rows"

definition delegation_replace ::
  "int \<Rightarrow> string \<Rightarrow> string list \<Rightarrow> u32 \<Rightarrow> delegation_row list \<Rightarrow> delegation_row list" where
  "delegation_replace wall zone ns_ips ttl rows =
     fold (delegation_upsert wall zone ttl) ns_ips (filter (\<lambda>r. dl_zone r \<noteq> zone) rows)"

text \<open>
  The grouping loop over the rows sorted by zone. \<open>ORDER BY zone\<close> walks the index of the primary key
  \<open>(zone, ns_ip)\<close>, so the rows of a zone come in the order of the texts of their addresses.
\<close>

definition group_row ::
  "int \<Rightarrow> delegation_row \<Rightarrow> (string \<times> string list \<times> u32) list \<Rightarrow> (string \<times> string list \<times> u32) list" where
  "group_row wall r grouped =
     (let remaining = dl_ttl r - (wall - dl_cached_at r); rem32 = (of_int remaining :: u32)
      in if remaining \<le> 0 then grouped
         else if grouped \<noteq> [] \<and> fst (last grouped) = dl_zone r
         then butlast grouped
                @ [(dl_zone r, fst (snd (last grouped)) @ [dl_ip r], min (snd (snd (last grouped))) rem32)]
         else grouped @ [(dl_zone r, [dl_ip r], rem32)])"

definition delegation_load_all :: "int \<Rightarrow> delegation_row list \<Rightarrow> (string \<times> string list \<times> u32) list" where
  "delegation_load_all wall rows =
     fold (group_row wall)
       (sort_key dl_zone (sort_key dl_ip (filter (\<lambda>r. dl_cached_at r + dl_ttl r > wall) rows))) []"

section \<open>The cache\<close>

record cached_delegation =
  cd_servers :: "IpAddr list"
  cd_expires :: nat

record delegation_cache =
  dc_memory :: "(string, cached_delegation) table"
  dc_persistent :: bool
  dc_rows :: "delegation_row list"
  dc_queue :: "(string \<times> string list \<times> u32) list"
  dc_persist_min_ttl :: u32
  dc_default_ttl :: u32

definition MAX_DELEGATION_TTL :: u32 where "MAX_DELEGATION_TTL = 604800"

definition MAX_DELEGATION_ENTRIES :: nat where "MAX_DELEGATION_ENTRIES = 10000"

definition DEFAULT_PERSIST_MIN_TTL :: u32 where "DEFAULT_PERSIST_MIN_TTL = 300"

definition delegation_in_memory :: "u32 \<Rightarrow> delegation_cache" where
  "delegation_in_memory default_ttl =
     \<lparr>dc_memory = [], dc_persistent = False, dc_rows = [], dc_queue = [],
      dc_persist_min_ttl = DEFAULT_PERSIST_MIN_TTL, dc_default_ttl = default_ttl\<rparr>"

definition filter_map_ip :: "string list \<Rightarrow> IpAddr list" where
  "filter_map_ip ips = List.map_filter parse_ip ips"

definition load_delegation ::
  "nat \<Rightarrow> string \<times> string list \<times> u32 \<Rightarrow> (string, cached_delegation) table \<Rightarrow> (string, cached_delegation) table" where
  "load_delegation now row m =
     (case row of (zone, ips, remaining_ttl) \<Rightarrow>
        let servers = filter_map_ip ips
        in if servers = [] then m
           else AList.update zone \<lparr>cd_servers = servers, cd_expires = now + from_secs remaining_ttl\<rparr> m)"

text \<open>\<open>with_db\<close>: an empty cache on the rows of the previous run, loaded with what is still alive.\<close>

definition delegation_with_db :: "nat \<Rightarrow> int \<Rightarrow> u32 \<Rightarrow> u32 \<Rightarrow> delegation_row list \<Rightarrow> delegation_cache" where
  "delegation_with_db now wall persist_min_ttl default_ttl rows =
     \<lparr>dc_memory = fold (load_delegation now) (delegation_load_all wall rows) [], dc_persistent = True,
      dc_rows = rows, dc_queue = [], dc_persist_min_ttl = persist_min_ttl, dc_default_ttl = default_ttl\<rparr>"

definition delegation_lifetime :: "u32 \<Rightarrow> u32 \<Rightarrow> u32" where
  "delegation_lifetime default_ttl ttl = (if ttl = 0 then default_ttl else min ttl MAX_DELEGATION_TTL)"

text \<open>\<open>try_send\<close> on the channel of 1024 requests.\<close>

definition try_send :: "'a \<Rightarrow> 'a list \<Rightarrow> 'a list" where
  "try_send req q = (if length q < 1024 then q @ [req] else q)"

definition delegation_put ::
  "((string, cached_delegation) table \<Rightarrow> (string, cached_delegation) table) \<Rightarrow> nat \<Rightarrow> string \<Rightarrow> IpAddr list \<Rightarrow> u32
    \<Rightarrow> delegation_cache \<Rightarrow> delegation_cache option" where
  "delegation_put iter now key servers ttl c =
     (if servers = [] then Some c
      else (let life = delegation_lifetime (dc_default_ttl c) ttl
            in case reap_if_full iter MAX_DELEGATION_ENTRIES cd_expires now (dc_memory c) of
                 None \<Rightarrow> None
               | Some m \<Rightarrow>
                   (let c1 = c\<lparr>dc_memory := AList.update key
                          \<lparr>cd_servers = servers, cd_expires = now + from_secs life\<rparr> m\<rparr>
                    in Some (if life \<le> dc_persist_min_ttl c \<or> \<not> dc_persistent c then c1
                             else c1\<lparr>dc_queue := try_send (key, map ip_to_string servers, life) (dc_queue c)\<rparr>))))"

text \<open>The climb from the name to the root; an expired entry is dropped on the way.\<close>

partial_function (option) best_match ::
  "('n \<Rightarrow> string) \<Rightarrow> ('n \<Rightarrow> bool) \<Rightarrow> ('n \<Rightarrow> 'n) \<Rightarrow> nat \<Rightarrow> 'n \<Rightarrow> (string, cached_delegation) table
    \<Rightarrow> ((string \<times> IpAddr list) option \<times> (string, cached_delegation) table) option" where
  [code]: "best_match to_ascii is_root base_name now current m =
     (let key = lower (to_ascii current); hit = map_of m key
      in if (case hit of Some e \<Rightarrow> cd_expires e > now | None \<Rightarrow> False)
         then Some (Some (key, cd_servers (the hit)), m)
         else (let m' = (case hit of Some e \<Rightarrow> AList.delete key m | None \<Rightarrow> m)
               in if is_root current then Some (None, m')
                  else best_match to_ascii is_root base_name now (base_name current) m'))"

definition delegation_invalidate :: "int \<Rightarrow> string \<Rightarrow> delegation_cache \<Rightarrow> delegation_cache" where
  "delegation_invalidate wall zone c =
     c\<lparr>dc_memory := AList.delete zone (dc_memory c),
       dc_rows := (if dc_persistent c then delegation_replace wall zone [] 0 (dc_rows c) else dc_rows c)\<rparr>"

definition delegation_flush :: "delegation_cache \<Rightarrow> delegation_cache" where
  "delegation_flush c =
     c\<lparr>dc_memory := [], dc_rows := (if dc_persistent c then [] else dc_rows c)\<rparr>"

text \<open>One turn of the worker: the oldest request is written.\<close>

definition delegation_persist :: "int \<Rightarrow> delegation_cache \<Rightarrow> delegation_cache" where
  "delegation_persist wall c =
     (case dc_queue c of
        [] \<Rightarrow> c
      | (zone, ips, ttl) # rest \<Rightarrow>
          c\<lparr>dc_rows := delegation_replace wall zone ips ttl (dc_rows c), dc_queue := rest\<rparr>)"

datatype 'n delegation_op =
  DelegationInsert nat 'n "IpAddr list" u32
| DelegationMatch nat 'n
| DelegationInvalidate int string
| DelegationFlush
| DelegationPersist int

fun delegation_exec ::
  "((string, cached_delegation) table \<Rightarrow> (string, cached_delegation) table)
    \<Rightarrow> ('n \<Rightarrow> string) \<Rightarrow> ('n \<Rightarrow> bool) \<Rightarrow> ('n \<Rightarrow> 'n) \<Rightarrow> 'n delegation_op \<Rightarrow> delegation_cache \<Rightarrow> delegation_cache option" where
  "delegation_exec iter to_ascii is_root base_name (DelegationInsert now zone servers ttl) c =
     delegation_put iter now (lower (to_ascii zone)) servers ttl c"
| "delegation_exec iter to_ascii is_root base_name (DelegationMatch now name) c =
     map_option (\<lambda>(_, m). c\<lparr>dc_memory := m\<rparr>) (best_match to_ascii is_root base_name now name (dc_memory c))"
| "delegation_exec iter to_ascii is_root base_name (DelegationInvalidate wall zone) c =
     Some (delegation_invalidate wall zone c)"
| "delegation_exec iter to_ascii is_root base_name DelegationFlush c = Some (delegation_flush c)"
| "delegation_exec iter to_ascii is_root base_name (DelegationPersist wall) c = Some (delegation_persist wall c)"

fun delegation_writes :: "u32 \<Rightarrow> ('n \<Rightarrow> string) \<Rightarrow> 'n delegation_op \<Rightarrow> (string \<times> cached_delegation) option" where
  "delegation_writes d to_ascii (DelegationInsert now zone servers ttl) =
     (if servers = [] then None
      else Some (lower (to_ascii zone),
        \<lparr>cd_servers = servers, cd_expires = now + from_secs (delegation_lifetime d ttl)\<rparr>))"
| "delegation_writes d to_ascii _ = None"

text \<open>
  What the library documents of its names: a name is a sequence of labels, printed with a trailing
  dot (the root as a lone dot), and \<open>base_name\<close> drops the first label.
\<close>

definition ascii_labels :: "label list \<Rightarrow> string" where
  "ascii_labels ls = (if ls = [] then [dot] else fqdn ls)"

definition dns_names :: "('n \<Rightarrow> string) \<Rightarrow> ('n \<Rightarrow> bool) \<Rightarrow> ('n \<Rightarrow> 'n) \<Rightarrow> ('n \<Rightarrow> label list) \<Rightarrow> bool" where
  "dns_names to_ascii is_root base_name labels \<longleftrightarrow>
     (\<forall>n. to_ascii n = ascii_labels (labels n) \<and> (is_root n \<longleftrightarrow> labels n = [])
        \<and> labels (base_name n) = tl (labels n))"

text \<open>Sample states: a cache on an empty database, and a run in which the deeper delegation expires first.\<close>

definition sample_delegation_cache :: delegation_cache where
  "sample_delegation_cache = delegation_with_db 0 1000 300 3600 []"

definition sample_delegation_run :: "label list delegation_op list" where
  "sample_delegation_run =
     [DelegationInsert 0 [''com''] [V4 0xC0000201] 86400,
      DelegationInsert 0 [''example'', ''com''] [V4 0xC0000202] 300,
      DelegationMatch 10 [''www'', ''example'', ''com''],
      DelegationPersist 5]"

section \<open>The climb finds the deepest live zone\<close>

definition live_delegation :: "nat \<Rightarrow> (string, cached_delegation) table \<Rightarrow> label list \<Rightarrow> IpAddr list \<Rightarrow> bool" where
  "live_delegation now m zs servers \<longleftrightarrow>
     (\<exists>e. map_of m (lower (ascii_labels zs)) = Some e \<and> now < cd_expires e \<and> cd_servers e = servers)"

definition deepest_live ::
  "nat \<Rightarrow> (string, cached_delegation) table \<Rightarrow> label list \<Rightarrow> (string \<times> IpAddr list) option \<Rightarrow> bool" where
  "deepest_live now m ls res \<longleftrightarrow>
     (case res of
        None \<Rightarrow> \<forall>zs servers. suffix zs ls \<longrightarrow> \<not> live_delegation now m zs servers
      | Some (z, servers) \<Rightarrow>
          \<exists>zs. suffix zs ls \<and> z = lower (ascii_labels zs) \<and> live_delegation now m zs servers
            \<and> (\<forall>ys servers'. suffix ys ls \<longrightarrow> length zs < length ys \<longrightarrow> \<not> live_delegation now m ys servers'))"

text \<open>Only entries that have expired may be gone.\<close>

definition drops_expired :: "nat \<Rightarrow> (string, cached_delegation) table \<Rightarrow> (string, cached_delegation) table \<Rightarrow> bool" where
  "drops_expired now m m' \<longleftrightarrow>
     (\<forall>k. map_of m' k = map_of m k \<or> map_of m' k = None \<and> (\<exists>e. map_of m k = Some e \<and> cd_expires e \<le> now))"

lemma drops_expired_live: "drops_expired now m m' \<Longrightarrow> live_delegation now m' zs servers = live_delegation now m zs servers"
  unfolding drops_expired_def live_delegation_def
  by (metis not_le option.distinct(1) option.inject)

lemma drops_expired_trans: "drops_expired now m m' \<Longrightarrow> drops_expired now m' m'' \<Longrightarrow> drops_expired now m m''"
  unfolding drops_expired_def by metis

lemma drops_expired_map_le: "drops_expired now m m' \<Longrightarrow> map_of m' \<subseteq>\<^sub>m map_of m"
  unfolding drops_expired_def map_le_def by (metis domIff)

lemma deepest_live_Cons:
  assumes "drops_expired now m m'" "\<And>servers. \<not> live_delegation now m (l # ls) servers"
    "deepest_live now m' ls res"
  shows "deepest_live now m (l # ls) res"
proof -
  have sfx: "suffix zs (l # ls) \<longleftrightarrow> zs = l # ls \<or> suffix zs ls" for zs
    by (auto simp: suffix_Cons)
  show ?thesis
    using assms(2,3) unfolding deepest_live_def drops_expired_live [OF assms(1)] sfx
    by (auto split: option.splits)
qed

lemma deepest_live_here:
  assumes "map_of m (lower (ascii_labels ls)) = Some e" "now < cd_expires e"
  shows "deepest_live now m ls (Some (lower (ascii_labels ls), cd_servers e))"
proof -
  have "live_delegation now m ls (cd_servers e)"
    using assms by (auto simp: live_delegation_def)
  then show ?thesis
    unfolding deepest_live_def by (auto dest: suffix_length_le intro!: exI [of _ ls])
qed

text \<open>One round of the climb: a live entry, or the map without the dead one.\<close>

definition drop_dead :: "string \<Rightarrow> (string, cached_delegation) table \<Rightarrow> (string, cached_delegation) table" where
  "drop_dead key m = (case map_of m key of Some _ \<Rightarrow> AList.delete key m | None \<Rightarrow> m)"

lemma drop_dead:
  assumes "\<not> (\<exists>e. map_of m key = Some e \<and> now < cd_expires e)"
  shows "drops_expired now m (drop_dead key m)" "wf_table m \<longrightarrow> wf_table (drop_dead key m)"
    "length (drop_dead key m) \<le> length m"
  using assms length_delete_le [of key m]
  by (auto simp: drop_dead_def drops_expired_def not_less split: option.split)

lemma best_match_hit:
  "map_of m (lower (to_ascii n)) = Some e \<Longrightarrow> now < cd_expires e \<Longrightarrow>
     best_match to_ascii is_root base_name now n m = Some (Some (lower (to_ascii n), cd_servers e), m)"
  by (subst best_match.simps) simp

lemma best_match_miss:
  assumes "\<not> (\<exists>e. map_of m (lower (to_ascii n)) = Some e \<and> now < cd_expires e)"
  shows "best_match to_ascii is_root base_name now n m =
    (if is_root n then Some (None, drop_dead (lower (to_ascii n)) m)
     else best_match to_ascii is_root base_name now (base_name n) (drop_dead (lower (to_ascii n)) m))"
  using assms
  by (subst best_match.simps) (cases "map_of m (lower (to_ascii n))"; simp add: drop_dead_def Let_def)

lemma best_match_spec:
  assumes "dns_names to_ascii is_root base_name labels"
  shows "\<exists>res m'. best_match to_ascii is_root base_name now n m = Some (res, m')
    \<and> deepest_live now m (labels n) res \<and> drops_expired now m m'
    \<and> (wf_table m \<longrightarrow> wf_table m') \<and> length m' \<le> length m"
proof (induction "labels n" arbitrary: n m)
  case Nil
  have key: "lower (to_ascii n) = lower (ascii_labels [])" "is_root n" "labels n = []"
    using assms Nil by (simp_all add: dns_names_def)
  show ?case
  proof (cases "\<exists>e. map_of m (lower (to_ascii n)) = Some e \<and> now < cd_expires e")
    case True
    then show ?thesis
      using best_match_hit [of m to_ascii n] deepest_live_here [of m "[]"] key
      by (auto simp: drops_expired_def)
  next
    case False
    then have "deepest_live now m [] None"
      using key(1) by (auto simp: deepest_live_def live_delegation_def)
    then show ?thesis
      using best_match_miss [where to_ascii = to_ascii and n = n and is_root = is_root
          and base_name = base_name, OF False] drop_dead [OF False] key(2,3) by simp
  qed
next
  case (Cons l ls)
  have ls: "labels n = l # ls"
    by (rule Cons.hyps(2) [symmetric])
  have laws: "to_ascii n = ascii_labels (labels n)" "is_root n \<longleftrightarrow> labels n = []" "labels (base_name n) = tl (labels n)"
    using assms by (auto simp only: dns_names_def)
  have key: "lower (to_ascii n) = lower (ascii_labels (l # ls))" "\<not> is_root n" "labels n = l # ls"
    "ls = labels (base_name n)"
    unfolding laws ls by simp_all
  show ?case
  proof (cases "\<exists>e. map_of m (lower (to_ascii n)) = Some e \<and> now < cd_expires e")
    case True
    then show ?thesis
      using best_match_hit [of m to_ascii n] deepest_live_here [of m "l # ls"] key(1,3)
      by (auto simp: drops_expired_def)
  next
    case False
    let ?m1 = "drop_dead (lower (to_ascii n)) m"
    have notlive: "\<not> live_delegation now m (l # ls) servers" for servers
      using False key(1) by (auto simp: live_delegation_def)
    obtain res m' where r: "best_match to_ascii is_root base_name now (base_name n) ?m1 = Some (res, m')"
      "deepest_live now ?m1 ls res" "drops_expired now ?m1 m'" "wf_table ?m1 \<longrightarrow> wf_table m'" "length m' \<le> length ?m1"
      using Cons.hyps(1) [OF key(4), of ?m1] key(4) by auto
    then show ?thesis
      using best_match_miss [where to_ascii = to_ascii and n = n and is_root = is_root
          and base_name = base_name, OF False] drop_dead [OF False] key(2,3)
        deepest_live_Cons [OF drop_dead(1) [OF False] notlive r(2)] drops_expired_trans [OF drop_dead(1) [OF False] r(3)]
      by auto
  qed
qed

section \<open>The cache keeps the contract\<close>

definition delegation_inv :: "u32 \<Rightarrow> delegation_cache \<Rightarrow> bool" where
  "delegation_inv d c \<longleftrightarrow> dc_default_ttl c = d \<and> wf_table (dc_memory c)
     \<and> length (dc_memory c) \<le> MAX_DELEGATION_ENTRIES"

lemma delegation_put_step:
  assumes "iterates iter" "delegation_inv d c"
  shows "\<exists>c'. delegation_put iter now key servers ttl c = Some c' \<and> delegation_inv d c'
    \<and> (if servers = [] then c' = c
       else let e = \<lparr>cd_servers = servers, cd_expires = now + from_secs (delegation_lifetime d ttl)\<rparr>
            in map_of (dc_memory c') key = Some e \<and> (\<forall>k' e'. map_of (dc_memory c') k' = Some e'
                 \<longrightarrow> k' = key \<and> e' = e \<or> k' \<noteq> key \<and> map_of (dc_memory c) k' = Some e'))"
proof (cases "servers = []")
  case True
  then show ?thesis using assms(2) by (simp add: delegation_put_def)
next
  case False
  define e where "e = \<lparr>cd_servers = servers, cd_expires = now + from_secs (delegation_lifetime d ttl)\<rparr>"
  have inv: "wf_table (dc_memory c)" "0 < MAX_DELEGATION_ENTRIES" "dc_default_ttl c = d"
    using assms(2) by (simp_all add: delegation_inv_def MAX_DELEGATION_ENTRIES_def)
  obtain m' where m':
    "reap_if_full iter MAX_DELEGATION_ENTRIES cd_expires now (dc_memory c) = Some m'"
    "wf_table (AList.update key e m')" "length (AList.update key e m') \<le> MAX_DELEGATION_ENTRIES"
    "\<And>k' e'. map_of (AList.update key e m') k' = Some e' \<Longrightarrow> k' = key \<and> e' = e \<or> k' \<noteq> key \<and> map_of (dc_memory c) k' = Some e'"
    using update_reaped [OF assms(1) inv(2,1)] by blast
  obtain c' where c': "delegation_put iter now key servers ttl c = Some c'"
    "dc_memory c' = AList.update key e m'" "dc_default_ttl c' = d"
    using False m'(1) inv(3) by (simp add: delegation_put_def e_def Let_def)
  then show ?thesis
    using False m'(2-4) unfolding e_def [symmetric] Let_def by (simp add: delegation_inv_def)
qed

lemma delegation_exec_step:
  assumes "iterates iter" "dns_names to_ascii is_root base_name labels" "delegation_inv d c"
  shows "\<exists>c'. delegation_exec iter to_ascii is_root base_name x c = Some c' \<and> delegation_inv d c'
    \<and> (\<forall>k e. delegation_writes d to_ascii x = Some (k, e) \<longrightarrow> map_of (dc_memory c') k = Some e)
    \<and> (\<forall>k e. map_of (dc_memory c') k = Some e \<longrightarrow> delegation_writes d to_ascii x = Some (k, e)
       \<or> map_of (dc_memory c) k = Some e \<and> (\<forall>e'. delegation_writes d to_ascii x \<noteq> Some (k, e')))"
proof (cases x)
  case (DelegationInsert now zone servers ttl)
  then show ?thesis
    using delegation_put_step [OF assms(1,3), of now "lower (to_ascii zone)" servers ttl]
    by (cases "servers = []") (auto simp: Let_def)
next
  case (DelegationMatch now name)
  obtain res m' where "best_match to_ascii is_root base_name now name (dc_memory c) = Some (res, m')"
    "drops_expired now (dc_memory c) m'" "wf_table (dc_memory c) \<longrightarrow> wf_table m'" "length m' \<le> length (dc_memory c)"
    using best_match_spec [OF assms(2)] by blast
  then show ?thesis
    using DelegationMatch assms(3) by (auto simp: delegation_inv_def dest: drops_expired_map_le map_le_SomeD)
next
  case (DelegationInvalidate wall zone)
  then show ?thesis
    using assms(3) length_delete_le [of zone "dc_memory c"]
    by (auto simp: delegation_invalidate_def delegation_inv_def split: if_splits)
next
  case DelegationFlush
  then show ?thesis
    using assms(3) by (auto simp: delegation_flush_def delegation_inv_def)
next
  case (DelegationPersist wall)
  then show ?thesis
    using assms(3) by (auto simp: delegation_persist_def delegation_inv_def split: list.splits prod.splits)
qed

interpretation delegation_cache: expiring_cache
  "delegation_exec iter to_ascii is_root base_name" "\<lambda>c. map_of (dc_memory c)" "delegation_writes d to_ascii"
  "\<lambda>c. iterates iter \<and> dns_names to_ascii is_root base_name labels \<and> delegation_inv d c"
  for iter to_ascii is_root base_name labels d
  by (rule expiring_cacheI) (use delegation_exec_step in blast)

section \<open>A restart\<close>

lemma filter_upsert:
  "filter (\<lambda>r. dl_zone r = z) (delegation_upsert wall zone ttl ip rows) =
     (if z = zone then delegation_upsert wall zone ttl ip (filter (\<lambda>r. dl_zone r = z) rows)
      else filter (\<lambda>r. dl_zone r = z) rows)"
proof -
  let ?f = "\<lambda>r. if dl_zone r = zone \<and> dl_ip r = ip then r\<lparr>dl_ttl := uint ttl, dl_cached_at := wall\<rparr> else r"
  have map: "filter (\<lambda>r. dl_zone r = z) (map ?f rows) = map ?f (filter (\<lambda>r. dl_zone r = z) rows)"
    by (induction rows) auto
  have other: "map ?f (filter (\<lambda>r. dl_zone r = z) rows) = filter (\<lambda>r. dl_zone r = z) rows" if "z \<noteq> zone"
    using that by (intro map_idI) auto
  show ?thesis
  proof (cases "z = zone")
    case True
    then show ?thesis
      unfolding delegation_upsert_def using map by (simp add: list_ex_iff) blast
  next
    case False
    then show ?thesis
      unfolding delegation_upsert_def using map other by simp
  qed
qed

abbreviation zone_rows :: "string \<Rightarrow> delegation_row list \<Rightarrow> delegation_row list" where
  "zone_rows z rows \<equiv> filter (\<lambda>r. dl_zone r = z) rows"

lemma zone_rows_fold_upsert:
  "zone_rows zone (fold (delegation_upsert wall zone ttl) ips rows) =
     fold (delegation_upsert wall zone ttl) ips (zone_rows zone rows)"
  by (induction ips arbitrary: rows) (simp_all add: filter_upsert)

lemma fold_upsert_rows:
  "distinct (seen @ ips) \<Longrightarrow>
     fold (delegation_upsert wall zone ttl) ips
       (map (\<lambda>ip. \<lparr>dl_zone = zone, dl_ip = ip, dl_ttl = uint ttl, dl_cached_at = wall\<rparr>) seen) =
     map (\<lambda>ip. \<lparr>dl_zone = zone, dl_ip = ip, dl_ttl = uint ttl, dl_cached_at = wall\<rparr>) (seen @ ips)"
proof (induction ips arbitrary: seen)
  case Nil
  then show ?case by simp
next
  case (Cons ip ips)
  then have "delegation_upsert wall zone ttl ip
      (map (\<lambda>ip. \<lparr>dl_zone = zone, dl_ip = ip, dl_ttl = uint ttl, dl_cached_at = wall\<rparr>) seen) =
      map (\<lambda>ip. \<lparr>dl_zone = zone, dl_ip = ip, dl_ttl = uint ttl, dl_cached_at = wall\<rparr>) (seen @ [ip])"
    by (auto simp: delegation_upsert_def list_ex_iff)
  then show ?case
    using Cons.IH [of "seen @ [ip]"] Cons.prems by simp
qed

lemma replace_zone_rows:
  assumes "distinct ips"
  shows "zone_rows zone (delegation_replace wall zone ips ttl rows) =
    map (\<lambda>ip. \<lparr>dl_zone = zone, dl_ip = ip, dl_ttl = uint ttl, dl_cached_at = wall\<rparr>) ips"
  using fold_upsert_rows [of "[]" ips wall zone ttl] assms
  unfolding delegation_replace_def zone_rows_fold_upsert by simp

lemma distinct_texts:
  "distinct servers \<Longrightarrow> \<forall>ip\<in>set servers. text_roundtrip ip \<Longrightarrow> distinct (map ip_to_string servers)"
  by (auto simp: distinct_map inj_on_def text_roundtrip_def) (metis option.inject)

definition alive :: "int \<Rightarrow> delegation_row \<Rightarrow> bool" where
  "alive wall r \<longleftrightarrow> 0 < dl_ttl r - (wall - dl_cached_at r)"

text \<open>Over rows sorted by zone the grouping loop makes one group per zone.\<close>

lemma group_rows:
  assumes "sorted (map dl_zone rs)" "\<forall>r\<in>set rs. alive wall r"
  shows "distinct (map fst (fold (group_row wall) rs []))
    \<and> fst ` set (fold (group_row wall) rs []) = dl_zone ` set rs
    \<and> (rs \<noteq> [] \<longrightarrow> fst (last (fold (group_row wall) rs [])) = dl_zone (last rs))"
  using assms
proof (induction rs rule: rev_induct)
  case Nil
  then show ?case by simp
next
  case (snoc r rs)
  let ?G = "fold (group_row wall) rs []"
  have IH: "distinct (map fst ?G)" "fst ` set ?G = dl_zone ` set rs" "rs \<noteq> [] \<Longrightarrow> fst (last ?G) = dl_zone (last rs)"
    using snoc by (simp_all add: sorted_append)
  have alive: "\<not> dl_ttl r - (wall - dl_cached_at r) \<le> 0"
    using snoc.prems(2) by (simp add: alive_def)
  have sorted: "dl_zone q \<le> dl_zone r" if "q \<in> set rs" for q
    using snoc.prems(1) that by (simp add: sorted_append)
  have empty: "?G = [] \<longleftrightarrow> rs = []"
    using IH(2) by (metis image_is_empty set_empty)
  show ?case
  proof (cases "rs \<noteq> [] \<and> dl_zone (last rs) = dl_zone r")
    case True
    then obtain G' ips rem where G: "?G = G' @ [(dl_zone r, ips, rem)]"
      using IH(3) empty by (metis append_butlast_last_id prod.collapse)
    then have "group_row wall r ?G =
        G' @ [(dl_zone r, ips @ [dl_ip r], min rem (of_int (dl_ttl r - (wall - dl_cached_at r))))]"
      using alive by (simp add: group_row_def Let_def)
    then show ?thesis
      using True IH(1,2) G by auto
  next
    case False
    have new: "dl_zone r \<notin> dl_zone ` set rs"
    proof
      assume "dl_zone r \<in> dl_zone ` set rs"
      then obtain q where q: "q \<in> set rs" "dl_zone q = dl_zone r" by auto
      have "dl_zone q \<le> dl_zone (last rs)"
        using snoc.prems(1) q(1)
        by (cases rs rule: rev_cases) (auto simp: sorted_append)
      moreover have "dl_zone (last rs) \<le> dl_zone r"
        using sorted [of "last rs"] q(1) by (cases rs) auto
      ultimately show False
        using False q by (cases rs) auto
    qed
    then have "group_row wall r ?G = ?G @ [(dl_zone r, [dl_ip r], of_int (dl_ttl r - (wall - dl_cached_at r)))]"
      using alive IH(3) False empty by (auto simp: group_row_def Let_def)
    then show ?thesis
      using new IH(1,2) by auto
  qed
qed

lemma group_rows_zone:
  assumes "sorted (map dl_zone rs)" "\<forall>r\<in>set rs. alive wall r"
    "\<forall>r\<in>set rs. dl_zone r = z \<longrightarrow> dl_ttl r - (wall - dl_cached_at r) = R"
    "(z, ips, rem) \<in> set (fold (group_row wall) rs [])"
  shows "ips = map dl_ip (zone_rows z rs) \<and> rem = of_int R"
  using assms
proof (induction rs arbitrary: ips rem rule: rev_induct)
  case Nil
  then show ?case by simp
next
  case (snoc r rs)
  let ?G = "fold (group_row wall) rs []"
  have pre: "sorted (map dl_zone rs)" "\<forall>r\<in>set rs. alive wall r"
    "\<forall>r\<in>set rs. dl_zone r = z \<longrightarrow> dl_ttl r - (wall - dl_cached_at r) = R"
    using snoc.prems(1-3) by (simp_all add: sorted_append)
  note groups = group_rows [OF pre(1,2)]
  have R: "dl_zone r = z \<Longrightarrow> dl_ttl r - (wall - dl_cached_at r) = R"
    using snoc.prems(3) by simp
  have mem: "(z, ips, rem) \<in> set (group_row wall r ?G)"
    using snoc.prems(4) by simp
  have alive: "\<not> dl_ttl r - (wall - dl_cached_at r) \<le> 0"
    using snoc.prems(2) by (simp add: alive_def)
  show ?case
  proof (cases "?G \<noteq> [] \<and> fst (last ?G) = dl_zone r")
    case True
    then obtain G' ips' rem' where G: "?G = G' @ [(dl_zone r, ips', rem')]"
      by (metis append_butlast_last_id prod.collapse)
    then have new: "group_row wall r ?G =
        G' @ [(dl_zone r, ips' @ [dl_ip r], min rem' (of_int (dl_ttl r - (wall - dl_cached_at r))))]"
      using alive by (simp add: group_row_def Let_def)
    show ?thesis
    proof (cases "dl_zone r = z")
      case same: True
      have "z \<notin> fst ` set G'"
        using groups same unfolding G by auto
      then have "ips = ips' @ [dl_ip r]" "rem = min rem' (of_int R)"
        using mem R [OF same] same unfolding new by force+
      moreover have "ips' = map dl_ip (zone_rows z rs) \<and> rem' = of_int R"
        using snoc.IH [OF pre, of ips' rem'] same unfolding G by simp
      ultimately show ?thesis
        using same by simp
    next
      case False
      then have "(z, ips, rem) \<in> set G'"
        using mem unfolding new by auto
      then have "(z, ips, rem) \<in> set ?G"
        unfolding G by simp
      then show ?thesis
        using snoc.IH [OF pre] False by simp
    qed
  next
    case False
    then have new: "group_row wall r ?G = ?G @ [(dl_zone r, [dl_ip r], of_int (dl_ttl r - (wall - dl_cached_at r)))]"
      using alive by (auto simp: group_row_def Let_def)
    show ?thesis
    proof (cases "dl_zone r = z")
      case same: True
      have fresh: "z \<notin> dl_zone ` set rs"
      proof
        assume "z \<in> dl_zone ` set rs"
        moreover have "distinct (map fst (group_row wall r ?G))"
          using group_rows [OF snoc.prems(1,2)] by simp
        ultimately show False
          using groups same unfolding new by auto
      qed
      then have "zone_rows z rs = []" "z \<notin> fst ` set ?G"
        using groups by (auto simp: filter_empty_conv)
      then show ?thesis
        using mem R [OF same] same unfolding new by force
    next
      case False
      then have "(z, ips, rem) \<in> set ?G"
        using mem unfolding new by auto
      then show ?thesis
        using snoc.IH [OF pre] False by simp
    qed
  qed
qed

lemma load_groups:
  "distinct (map fst G) \<Longrightarrow>
     map_of (fold (load_delegation now) G m) z =
       (case map_of G z of
          None \<Rightarrow> map_of m z
        | Some (ips, rem) \<Rightarrow>
            if filter_map_ip ips = [] then map_of m z
            else Some \<lparr>cd_servers = filter_map_ip ips, cd_expires = now + from_secs rem\<rparr>)"
proof (induction G arbitrary: m)
  case Nil
  then show ?case by simp
next
  case (Cons g G)
  obtain z' ips' rem' where g: "g = (z', ips', rem')"
    by (cases g)
  show ?case
  proof (cases "z' = z")
    case True
    then have "map_of G z = None"
      using Cons.prems g by (simp add: map_of_eq_None_iff)
    then show ?thesis
      using True g Cons.IH [of "load_delegation now g m"] Cons.prems
      by (simp add: load_delegation_def Let_def)
  next
    case False
    then show ?thesis
      using g Cons.IH [of "load_delegation now g m"] Cons.prems
      by (simp add: load_delegation_def Let_def split: option.split)
  qed
qed

lemma filter_map_ip_texts: "\<forall>ip\<in>set servers. text_roundtrip ip \<Longrightarrow> filter_map_ip (map ip_to_string servers) = servers"
  by (induction servers) (auto simp: filter_map_ip_def text_roundtrip_def List.map_filter_simps)

lemma delegation_writes_Some:
  "delegation_writes d to_ascii x = Some (key, e) \<Longrightarrow>
     \<exists>t0 zone servers ttl. x = DelegationInsert t0 zone servers ttl \<and> key = lower (to_ascii zone)
       \<and> e = \<lparr>cd_servers = servers, cd_expires = t0 + from_secs (delegation_lifetime d ttl)\<rparr>"
  by (cases x) (auto split: if_splits)

lemma delegation_put_queues:
  assumes "delegation_put iter t0 key servers ttl c = Some c1" "servers \<noteq> []" "dc_persistent c" "dc_queue c = []"
    "dc_persist_min_ttl c < delegation_lifetime (dc_default_ttl c) ttl"
  shows "dc_rows (delegation_persist w0 c1) =
    delegation_replace w0 key (map ip_to_string servers) (delegation_lifetime (dc_default_ttl c) ttl) (dc_rows c)"
proof -
  obtain m where "reap_if_full iter MAX_DELEGATION_ENTRIES cd_expires t0 (dc_memory c) = Some m"
    using assms(1,2) by (auto simp: delegation_put_def Let_def split: option.splits)
  then show ?thesis
    using assms by (auto simp: delegation_put_def Let_def delegation_persist_def try_send_def not_le)
qed

lemma map_of_distinct_Some: "distinct (map fst G) \<Longrightarrow> map_of G z = Some v \<longleftrightarrow> (z, v) \<in> set G"
  by auto

text \<open>The rows of one zone, all written together, after a restart.\<close>

lemma restart_zone:
  fixes life :: u32
  assumes rows: "\<forall>r\<in>set (zone_rows z rows). dl_ttl r = uint life \<and> dl_cached_at r = w0"
    and ips: "map dl_ip (zone_rows z rows) = map ip_to_string servers"
    and servers: "servers \<noteq> []" "\<forall>ip\<in>set servers. text_roundtrip ip" and w: "w0 \<le> w1"
  shows "map_of (dc_memory (delegation_with_db t1 w1 p d rows)) z =
    (if w1 < w0 + uint life
     then Some \<lparr>cd_servers = sort_key ip_to_string servers, cd_expires = t1 + nat (uint life - (w1 - w0)) * 1000000000\<rparr>
     else None)"
proof -
  let ?rs = "sort_key dl_zone (sort_key dl_ip (filter (\<lambda>r. dl_cached_at r + dl_ttl r > w1) rows))"
  let ?servers = "sort_key ip_to_string servers"
  let ?G = "fold (group_row w1) ?rs []"
  have sorted: "sorted (map dl_zone ?rs)" and alive: "\<forall>r\<in>set ?rs. alive w1 r"
    by (simp_all add: alive_def)
  note G = group_rows [OF sorted alive]
  have zone: "zone_rows z ?rs = sort_key dl_ip (filter (\<lambda>r. dl_cached_at r + dl_ttl r > w1) (zone_rows z rows))"
    by (simp only: sort_key_stable filter_sort filter_filter conj_commute)
  have mem: "map_of (dc_memory (delegation_with_db t1 w1 p d rows)) z =
      (case map_of ?G z of
         None \<Rightarrow> None
       | Some (ips, rem) \<Rightarrow>
           if filter_map_ip ips = [] then None
           else Some \<lparr>cd_servers = filter_map_ip ips, cd_expires = t1 + from_secs rem\<rparr>)"
    using load_groups [of ?G t1 "[]" z] G
    by (simp add: delegation_with_db_def delegation_load_all_def split: option.split)
  show ?thesis
  proof (cases "w1 < w0 + uint life")
    case True
    then have "filter (\<lambda>r. dl_cached_at r + dl_ttl r > w1) (zone_rows z rows) = zone_rows z rows"
      using rows by (intro filter_True) auto
    then have zrs: "zone_rows z ?rs = sort_key dl_ip (zone_rows z rows)"
      unfolding zone by simp
    have "map dl_ip (zone_rows z ?rs) = sort (map dl_ip (zone_rows z rows))"
      unfolding zrs by (simp add: sort_key_map)
    then have texts: "map dl_ip (zone_rows z ?rs) = map ip_to_string ?servers"
      by (simp add: ips sort_key_map)
    have "?servers \<noteq> []"
      using servers(1) by (metis set_empty set_sort)
    then have "zone_rows z ?rs \<noteq> []"
      using texts by (metis map_is_Nil_conv)
    then have "z \<in> fst ` set ?G"
      using G by (metis (mono_tags, lifting) filter_empty_conv image_eqI)
    then obtain ips' rem where g: "(z, ips', rem) \<in> set ?G"
      by auto
    have "\<forall>r\<in>set ?rs. dl_zone r = z \<longrightarrow> dl_ttl r - (w1 - dl_cached_at r) = uint life - (w1 - w0)"
      using rows by auto
    from group_rows_zone [OF sorted alive this g] have "ips' = map ip_to_string ?servers" "rem = of_int (uint life - (w1 - w0))"
      using texts by simp_all
    moreover have "map_of ?G z = Some (ips', rem)"
      using g G by simp
    moreover have "uint life < 2 ^ 32"
      by (rule order_less_le_trans [OF uint_bounded]) simp
    then have "from_secs (of_int (uint life - (w1 - w0))) = nat (uint life - (w1 - w0)) * 1000000000"
      using True w by (intro from_secs_of_int) auto
    ultimately show ?thesis
      unfolding mem using True servers \<open>?servers \<noteq> []\<close> by (simp add: filter_map_ip_texts)
  next
    case False
    then have "zone_rows z ?rs = []"
      unfolding zone using rows by (auto simp: filter_empty_conv)
    then have "z \<notin> fst ` set ?G"
      using G by (auto simp: filter_empty_conv)
    then have none: "map_of ?G z = None"
      unfolding map_of_eq_None_iff .
    show ?thesis
      unfolding mem none using False by simp
  qed
qed

section \<open>Properties\<close>

text \<open>
  C23: after any sequence of insertions, lookups, invalidations, flushes and disk writes, a lookup
  returns; it answers with the deepest live delegation on the path from the name to the root, and
  with nothing only if there is none; the servers it answers with are those of the last insertion for
  that zone, whose lifetime is not over; and the map stays within its bound.
\<close>

theorem delegation_best_match:
  assumes "iterates iter" "dns_names to_ascii is_root base_name labels"
    and start: "dc_memory c0 = []" "dc_default_ttl c0 = d"
  shows "\<exists>c. run_ops (delegation_exec iter to_ascii is_root base_name) xs c0 = Some c
    \<and> length (dc_memory c) \<le> MAX_DELEGATION_ENTRIES
    \<and> (\<forall>now n. \<exists>res m'. best_match to_ascii is_root base_name now n (dc_memory c) = Some (res, m')
         \<and> deepest_live now (dc_memory c) (labels n) res
         \<and> (\<forall>z servers. res = Some (z, servers) \<longrightarrow>
              (\<exists>t0 zone ttl. DelegationInsert t0 zone servers ttl \<in> set xs \<and> z = lower (to_ascii zone)
                 \<and> last_write (delegation_writes d to_ascii) z xs =
                     Some \<lparr>cd_servers = servers, cd_expires = t0 + from_secs (delegation_lifetime d ttl)\<rparr>
                 \<and> now < t0 + from_secs (delegation_lifetime d ttl))))"
proof -
  have inv0: "iterates iter \<and> dns_names to_ascii is_root base_name labels \<and> delegation_inv d c0"
    using assms by (simp add: delegation_inv_def)
  obtain c where c: "run_ops (delegation_exec iter to_ascii is_root base_name) xs c0 = Some c" "delegation_inv d c"
    using delegation_cache.run_returns [OF inv0] by blast
  have "\<exists>t0 zone ttl. DelegationInsert t0 zone servers ttl \<in> set xs \<and> z = lower (to_ascii zone)
      \<and> last_write (delegation_writes d to_ascii) z xs =
          Some \<lparr>cd_servers = servers, cd_expires = t0 + from_secs (delegation_lifetime d ttl)\<rparr>
      \<and> now < t0 + from_secs (delegation_lifetime d ttl)"
    if deep: "deepest_live now (dc_memory c) ls (Some (z, servers))" for now ls z servers
  proof -
    obtain e where e: "map_of (dc_memory c) z = Some e" "now < cd_expires e" "cd_servers e = servers"
      using deep by (auto simp: deepest_live_def live_delegation_def)
    have last: "last_write (delegation_writes d to_ascii) z xs = Some e"
      using delegation_cache.run_last_write [OF inv0 c(1) e(1)] start by simp
    then obtain x where x: "x \<in> set xs" "delegation_writes d to_ascii x = Some (z, e)"
      using last_write_SomeD by metis
    obtain t0 zone servers' ttl where "x = DelegationInsert t0 zone servers' ttl" "z = lower (to_ascii zone)"
      "e = \<lparr>cd_servers = servers', cd_expires = t0 + from_secs (delegation_lifetime d ttl)\<rparr>"
      using delegation_writes_Some [OF x(2)] by blast
    then show ?thesis
      using x(1) e(2,3) last by (intro exI [of _ t0] exI [of _ zone] exI [of _ ttl]) simp
  qed
  then show ?thesis
    using c best_match_spec [OF assms(2)] unfolding delegation_inv_def by metis
qed

theorem delegation_best_match_witness:
  "iterates (rev :: (string, cached_delegation) table \<Rightarrow> _)
   \<and> dns_names ascii_labels (\<lambda>n. n = []) tl (\<lambda>n. n)
   \<and> (\<exists>c res m'. run_ops (delegation_exec rev ascii_labels (\<lambda>n. n = []) tl) sample_delegation_run (delegation_in_memory 3600)
          = Some c
        \<and> best_match ascii_labels (\<lambda>n. n = []) tl 400000000000 [''www'', ''Example'', ''com''] (dc_memory c) = Some (res, m')
        \<and> deepest_live 400000000000 (dc_memory c) [''www'', ''Example'', ''com''] res
        \<and> res = Some (''com.'', [V4 0xC0000201]))"
proof -
  let ?run = "run_ops (delegation_exec rev ascii_labels (\<lambda>n. n = []) tl) sample_delegation_run (delegation_in_memory 3600)"
  let ?match = "best_match ascii_labels (\<lambda>n. n = []) tl 400000000000 [''www'', ''Example'', ''com'']"
  have rev: "iterates (rev :: (string, cached_delegation) table \<Rightarrow> _)"
    by (simp add: iterates_def)
  have names: "dns_names ascii_labels (\<lambda>n. n = []) tl (\<lambda>n. n)"
    by (simp add: dns_names_def)
  have start: "dc_memory (delegation_in_memory 3600) = []" "dc_default_ttl (delegation_in_memory 3600) = 3600"
    by (simp_all add: delegation_in_memory_def)
  obtain c where c: "?run = Some c"
    "\<forall>now n. \<exists>res m'. best_match ascii_labels (\<lambda>n. n = []) tl now n (dc_memory c) = Some (res, m')
       \<and> deepest_live now (dc_memory c) n res"
    using delegation_best_match [OF rev names start, of sample_delegation_run] by blast
  obtain res m' where m': "?match (dc_memory c) = Some (res, m')"
    "deepest_live 400000000000 (dc_memory c) [''www'', ''Example'', ''com''] res"
    using c(2) by blast
  have eval: "(case ?run of None \<Rightarrow> None | Some c \<Rightarrow> map_option fst (?match (dc_memory c))) =
      Some (Some (''com.'', [V4 0xC0000201]))"
    by code_simp
  have "res = Some (''com.'', [V4 0xC0000201])"
    using eval unfolding c(1) option.case m'(1) by simp
  then show ?thesis
    using rev names c(1) m' by blast
qed

text \<open>
  C26: a delegation whose lifetime is above the persistence threshold survives a restart: once the
  worker has written it at wall time \<open>w0\<close>, a start at \<open>w1\<close> has its servers again, now in the order of the
  texts of their addresses, for exactly what is left of its lifetime, and does not have it at all once the
  lifetime is over.
\<close>

theorem delegation_restart_roundtrip:
  assumes "delegation_put iter t0 key servers ttl c = Some c1"
    and "servers \<noteq> []" "distinct servers" "\<forall>ip\<in>set servers. text_roundtrip ip"
    and "dc_persistent c" "dc_queue c = []"
    and life: "life = delegation_lifetime (dc_default_ttl c) ttl" "dc_persist_min_ttl c < life"
    and "w0 \<le> w1"
  shows "map_of (dc_memory (delegation_with_db t1 w1 p d (dc_rows (delegation_persist w0 c1)))) key =
    (if w1 < w0 + uint life
     then Some \<lparr>cd_servers = sort_key ip_to_string servers, cd_expires = t1 + nat (uint life - (w1 - w0)) * 1000000000\<rparr>
     else None)"
proof -
  have rows: "dc_rows (delegation_persist w0 c1) = delegation_replace w0 key (map ip_to_string servers) life (dc_rows c)"
    using delegation_put_queues [OF assms(1,2,5,6)] life by simp
  have "zone_rows key (dc_rows (delegation_persist w0 c1)) =
      map (\<lambda>ip. \<lparr>dl_zone = key, dl_ip = ip, dl_ttl = uint life, dl_cached_at = w0\<rparr>) (map ip_to_string servers)"
    unfolding rows using distinct_texts [OF assms(3,4)] by (rule replace_zone_rows)
  then show ?thesis
    using assms(2,4,9) by (intro restart_zone) auto
qed

theorem delegation_restart_roundtrip_witness:
  "(\<exists>c1. delegation_put rev 0 ''com.'' [V4 0x0A000002, V4 0x0A00000A] 86400 sample_delegation_cache = Some c1
     \<and> map_of (dc_memory (delegation_with_db 7 4600 300 3600 (dc_rows (delegation_persist 1000 c1)))) ''com.'' =
         Some \<lparr>cd_servers = [V4 0x0A00000A, V4 0x0A000002], cd_expires = 7 + 82800 * 1000000000\<rparr>
     \<and> map_of (dc_memory (delegation_with_db 7 87400 300 3600 (dc_rows (delegation_persist 1000 c1)))) ''com.'' = None)"
proof -
  let ?servers = "[V4 0x0A000002, V4 0x0A00000A]"
  have "delegation_put rev 0 ''com.'' ?servers 86400 sample_delegation_cache \<noteq> None"
    by code_simp
  then obtain c1 where c1: "delegation_put rev 0 ''com.'' ?servers 86400 sample_delegation_cache = Some c1"
    by blast
  have side: "?servers \<noteq> []" "distinct ?servers" "\<forall>ip\<in>set ?servers. text_roundtrip ip"
    by simp_all
  have sorted: "sort_key ip_to_string ?servers = [V4 0x0A00000A, V4 0x0A000002]"
    by code_simp
  have st: "dc_persistent sample_delegation_cache" "dc_queue sample_delegation_cache = []"
    "86400 = delegation_lifetime (dc_default_ttl sample_delegation_cache) 86400"
    "dc_persist_min_ttl sample_delegation_cache < 86400"
    by code_simp+
  show ?thesis
    using c1 delegation_restart_roundtrip [OF c1 side st, of 1000 4600 7 300 3600, unfolded sorted]
      delegation_restart_roundtrip [OF c1 side st, of 1000 87400 7 300 3600, unfolded sorted] by auto
qed

text \<open>
  The write-behind queue outlives a flush: a request that was queued before \<open>flush\<close> is written after
  it, and the next start loads a delegation the flush was to forget. The same holds for
  \<open>invalidate\<close>.
\<close>

theorem flush_misses_queued_writes:
  "(case run_ops (delegation_exec rev ascii_labels (\<lambda>n. n = []) tl)
        [DelegationInsert 0 [''com''] [V4 0xC0000201] 86400, DelegationFlush, DelegationPersist 1000]
        sample_delegation_cache of
      None \<Rightarrow> False
    | Some c \<Rightarrow> dc_memory c = []
        \<and> map_option cd_servers (map_of (dc_memory (delegation_with_db 0 1001 300 3600 (dc_rows c))) ''com.'')
            = Some [V4 0xC0000201])"
  by code_simp

end
