(* ===== verification/Dns_Cache.thy ===== *)
theory Dns_Cache
  imports Records Ttl_Cache
begin

text \<open>
  The answer cache (\<open>src/src/dns_cache.rs\<close>) with its table in the database (\<open>cache_*\<close> of
  \<open>src/src/db.rs\<close>): positive answers, local answers that do not age, negative answers, and the
  write-behind copy on disk that a restart loads.

  The write-behind channel is the list of queued requests and its worker an operation of its own.
  Instants are nanoseconds, the wall clock of the table is seconds.
\<close>

section \<open>The table\<close>

record cache_row =
  cw_name :: string
  cw_type :: string
  cw_value :: string
  cw_ttl :: int
  cw_original_ttl :: int
  cw_cached_at :: int
  cw_source :: string

text \<open>\<open>INSERT \<dots> ON CONFLICT(name, record_type, value) DO UPDATE\<close>.\<close>

definition cache_insert ::
  "int \<Rightarrow> string \<Rightarrow> string \<Rightarrow> string \<Rightarrow> u32 \<Rightarrow> u32 \<Rightarrow> string \<Rightarrow> cache_row list \<Rightarrow> cache_row list" where
  "cache_insert wall name record_type val ttl original_ttl source rows =
     (let row = \<lparr>cw_name = name, cw_type = record_type, cw_value = val, cw_ttl = uint ttl,
                 cw_original_ttl = uint original_ttl, cw_cached_at = wall, cw_source = source\<rparr>;
          same = \<lambda>r. cw_name r = name \<and> cw_type r = record_type \<and> cw_value r = val
      in if list_ex same rows then map (\<lambda>r. if same r then row else r) rows else rows @ [row])"

definition row_kind :: "cache_row \<Rightarrow> RecordKind" where
  "row_kind r = (case kind_parse (cw_type r) of Some k \<Rightarrow> k | None \<Rightarrow> A)"

definition row_record :: "int \<Rightarrow> cache_row \<Rightarrow> dns_record" where
  "row_record remaining r =
     \<lparr>dr_id = None, dr_name = cw_name r,
      dr_type = row_kind r, dr_value = cw_value r, dr_ttl = of_int remaining, dr_priority = 0\<rparr>"

definition cache_load_all :: "int \<Rightarrow> cache_row list \<Rightarrow> (dns_record \<times> u32) list" where
  "cache_load_all wall rows =
     map (\<lambda>r. let remaining = cw_ttl r - (wall - cw_cached_at r) in (row_record remaining r, of_int remaining))
       (filter (\<lambda>r. \<not> cw_ttl r - (wall - cw_cached_at r) \<le> 0)
         (filter (\<lambda>r. cw_cached_at r + cw_ttl r > wall) rows))"

text \<open>Without a type the rows come through \<open>idx_cache_unique\<close> on \<open>(name, record_type, value)\<close>.\<close>

definition cache_lookup :: "int \<Rightarrow> string \<Rightarrow> string option \<Rightarrow> cache_row list \<Rightarrow> dns_record list" where
  "cache_lookup wall name record_type rows =
     map (\<lambda>r. row_record (cw_ttl r - (wall - cw_cached_at r)) r)
       (filter (\<lambda>r. wall - cw_cached_at r < cw_ttl r)
         (case record_type of
            Some rt \<Rightarrow> filter (\<lambda>r. cw_name r = name \<and> cw_type r = rt) rows
          | None \<Rightarrow> sort_key cw_type (sort_key cw_value (filter (\<lambda>r. cw_name r = name) rows))))"

section \<open>The cache\<close>

record cached_entry =
  ce_records :: "dns_record list"
  ce_expires :: nat
  ce_local :: bool

datatype NegativeKind = NxDomain | NoData

record negative_entry =
  ne_kind :: NegativeKind
  ne_expires :: nat

record cache_write =
  cq_name :: string
  cq_type :: "string option"
  cq_records :: "dns_record list"
  cq_ttl :: u32

record dns_cache =
  memory :: "(string, cached_entry) table"
  negatives :: "(string, negative_entry) table"
  cache_rows :: "cache_row list"
  persist_queue :: "cache_write list"
  hits :: u64
  misses :: u64

definition cache_key :: "string \<Rightarrow> RecordKind option \<Rightarrow> string" where
  "cache_key name record_type =
     lower name @ '':'' @ (case record_type of Some rt \<Rightarrow> as_str rt | None \<Rightarrow> ''*'')"

definition cache_lookup_mem ::
  "nat \<Rightarrow> string \<Rightarrow> RecordKind option \<Rightarrow> dns_cache \<Rightarrow> dns_record list \<times> dns_cache" where
  "cache_lookup_mem now name record_type c =
     (let key = cache_key name record_type
      in case map_of (memory c) key of
           Some entry \<Rightarrow>
             if ce_expires entry > now then
               (if ce_local entry then ce_records entry
                else map (\<lambda>r. r\<lparr>dr_ttl := decayed_ttl (ce_expires entry) now\<rparr>) (ce_records entry),
                c\<lparr>hits := hits c + 1\<rparr>)
             else ([], c\<lparr>memory := AList.delete key (memory c), misses := misses c + 1\<rparr>)
         | None \<Rightarrow> ([], c\<lparr>misses := misses c + 1\<rparr>))"

definition lookup_local_only ::
  "nat \<Rightarrow> string \<Rightarrow> RecordKind option \<Rightarrow> dns_cache \<Rightarrow> dns_record list \<times> dns_cache" where
  "lookup_local_only now name record_type c =
     (let key = cache_key name record_type
      in case map_of (memory c) key of
           Some entry \<Rightarrow>
             if ce_expires entry > now then
               (if ce_local entry then (ce_records entry, c\<lparr>hits := hits c + 1\<rparr>) else ([], c))
             else ([], c\<lparr>memory := AList.delete key (memory c)\<rparr>)
         | None \<Rightarrow> ([], c))"

definition cache_try_send :: "cache_write \<Rightarrow> cache_write list \<Rightarrow> cache_write list" where
  "cache_try_send req q = (if length q < 1024 then q @ [req] else q)"

definition cache_insert_mem ::
  "nat \<Rightarrow> string \<Rightarrow> RecordKind option \<Rightarrow> dns_record list \<Rightarrow> u32 \<Rightarrow> dns_cache \<Rightarrow> dns_cache" where
  "cache_insert_mem now name record_type records ttl c =
     (if records = [] \<or> ttl = 0 then c
      else c\<lparr>memory := AList.update (cache_key name record_type)
                \<lparr>ce_records = records, ce_expires = now + from_secs ttl, ce_local = False\<rparr> (memory c),
             persist_queue := cache_try_send
                \<lparr>cq_name = name, cq_type = map_option as_str record_type, cq_records = records, cq_ttl = ttl\<rparr>
                (persist_queue c)\<rparr>)"

definition insert_local :: "nat \<Rightarrow> string \<Rightarrow> RecordKind option \<Rightarrow> dns_record list \<Rightarrow> dns_cache \<Rightarrow> dns_cache" where
  "insert_local now name record_type records c =
     (if records = [] then c
      else c\<lparr>memory := AList.update (cache_key name record_type)
                \<lparr>ce_records = records, ce_expires = now + from_secs 86400, ce_local = True\<rparr> (memory c)\<rparr>)"

definition insert_negative ::
  "nat \<Rightarrow> string \<Rightarrow> RecordKind option \<Rightarrow> NegativeKind \<Rightarrow> u32 \<Rightarrow> dns_cache \<Rightarrow> dns_cache" where
  "insert_negative now name record_type kind ttl c =
     (if ttl = 0 then c
      else c\<lparr>negatives := AList.update (cache_key name record_type)
                \<lparr>ne_kind = kind, ne_expires = now + from_secs ttl\<rparr> (negatives c)\<rparr>)"

definition lookup_negative ::
  "nat \<Rightarrow> string \<Rightarrow> RecordKind option \<Rightarrow> dns_cache \<Rightarrow> NegativeKind option \<times> dns_cache" where
  "lookup_negative now name record_type c =
     (let key = cache_key name record_type
      in case map_of (negatives c) key of
           Some entry \<Rightarrow>
             if ne_expires entry > now then (Some (ne_kind entry), c\<lparr>hits := hits c + 1\<rparr>)
             else (None, c\<lparr>negatives := AList.delete key (negatives c)\<rparr>)
         | None \<Rightarrow> (None, c))"

definition invalidate_negative :: "string \<Rightarrow> dns_cache \<Rightarrow> dns_cache" where
  "invalidate_negative name c =
     c\<lparr>negatives := retain (\<lambda>k _. \<not> starts_with k (name @ '':'')) (negatives c)\<rparr>"

definition cache_flush :: "dns_cache \<Rightarrow> dns_cache" where
  "cache_flush c = c\<lparr>memory := [], negatives := [], cache_rows := [], hits := 0, misses := 0\<rparr>"

text \<open>The worker: it takes what is queued, at most 64 requests, and writes them one record at a time.\<close>

definition write_request :: "int \<Rightarrow> cache_write \<Rightarrow> cache_row list \<Rightarrow> cache_row list" where
  "write_request wall req rows =
     fold (\<lambda>rec. cache_insert wall (cq_name req)
             (case cq_type req of Some t \<Rightarrow> t | None \<Rightarrow> as_str (dr_type rec)) (dr_value rec)
             (cq_ttl req) (cq_ttl req) ''upstream'') (cq_records req) rows"

definition persist_worker :: "int \<Rightarrow> dns_cache \<Rightarrow> dns_cache" where
  "persist_worker wall c =
     c\<lparr>cache_rows := fold (write_request wall) (take 64 (persist_queue c)) (cache_rows c),
       persist_queue := drop 64 (persist_queue c)\<rparr>"

definition load_row ::
  "nat \<Rightarrow> dns_record \<times> u32 \<Rightarrow> (string, cached_entry) table \<Rightarrow> (string, cached_entry) table" where
  "load_row now row m =
     (case row of (rec, remaining_ttl) \<Rightarrow>
        let key = cache_key (dr_name rec) (Some (dr_type rec)); expires_at = now + from_secs remaining_ttl
        in case map_of m key of
             Some entry \<Rightarrow>
               AList.update key (entry\<lparr>ce_records := ce_records entry @ [rec],
                 ce_expires := (if expires_at < ce_expires entry then expires_at else ce_expires entry)\<rparr>) m
           | None \<Rightarrow> AList.update key \<lparr>ce_records = [rec], ce_expires = expires_at, ce_local = False\<rparr> m)"

definition dns_cache_new :: "nat \<Rightarrow> int \<Rightarrow> cache_row list \<Rightarrow> dns_cache" where
  "dns_cache_new now wall rows =
     \<lparr>memory = fold (load_row now) (cache_load_all wall rows) [], negatives = [], cache_rows = rows,
      persist_queue = [], hits = 0, misses = 0\<rparr>"

datatype cache_op =
  CacheLookup nat string "RecordKind option"
| CacheLookupLocal nat string "RecordKind option"
| CacheInsert nat string "RecordKind option" "dns_record list" u32
| CacheInsertLocal nat string "RecordKind option" "dns_record list"
| CacheInsertNegative nat string "RecordKind option" NegativeKind u32
| CacheLookupNegative nat string "RecordKind option"
| CacheInvalidateNegative string
| CacheFlush
| CachePersist int

fun cache_exec :: "cache_op \<Rightarrow> dns_cache \<Rightarrow> dns_cache option" where
  "cache_exec (CacheLookup now name rt) c = Some (snd (cache_lookup_mem now name rt c))"
| "cache_exec (CacheLookupLocal now name rt) c = Some (snd (lookup_local_only now name rt c))"
| "cache_exec (CacheInsert now name rt records ttl) c = Some (cache_insert_mem now name rt records ttl c)"
| "cache_exec (CacheInsertLocal now name rt records) c = Some (insert_local now name rt records c)"
| "cache_exec (CacheInsertNegative now name rt kind ttl) c = Some (insert_negative now name rt kind ttl c)"
| "cache_exec (CacheLookupNegative now name rt) c = Some (snd (lookup_negative now name rt c))"
| "cache_exec (CacheInvalidateNegative name) c = Some (invalidate_negative name c)"
| "cache_exec CacheFlush c = Some (cache_flush c)"
| "cache_exec (CachePersist wall) c = Some (persist_worker wall c)"

text \<open>What an operation writes to the positive and to the negative map.\<close>

fun cache_writes :: "cache_op \<Rightarrow> (string \<times> cached_entry) option" where
  "cache_writes (CacheInsert now name rt records ttl) =
     (if records = [] \<or> ttl = 0 then None
      else Some (cache_key name rt, \<lparr>ce_records = records, ce_expires = now + from_secs ttl, ce_local = False\<rparr>))"
| "cache_writes (CacheInsertLocal now name rt records) =
     (if records = [] then None
      else Some (cache_key name rt, \<lparr>ce_records = records, ce_expires = now + from_secs 86400, ce_local = True\<rparr>))"
| "cache_writes _ = None"

fun negative_writes :: "cache_op \<Rightarrow> (string \<times> negative_entry) option" where
  "negative_writes (CacheInsertNegative now name rt kind ttl) =
     (if ttl = 0 then None
      else Some (cache_key name rt, \<lparr>ne_kind = kind, ne_expires = now + from_secs ttl\<rparr>))"
| "negative_writes _ = None"

text \<open>Sample answers: a chained name, a mail exchanger, and two addresses.\<close>

definition answer :: "string \<Rightarrow> RecordKind \<Rightarrow> string \<Rightarrow> u32 \<Rightarrow> u32 \<Rightarrow> dns_record" where
  "answer name kind val ttl pref =
     \<lparr>dr_id = None, dr_name = name, dr_type = kind, dr_value = val, dr_ttl = ttl, dr_priority = pref\<rparr>"

definition sample_cache_run :: "cache_op list" where
  "sample_cache_run =
     [CacheInsert 0 ''wWw.example.com.'' (Some A) [answer ''www.example.com.'' A ''192.0.2.1'' 300 0] 300,
      CacheInsertNegative 0 ''gone.example.com.'' (Some A) NxDomain 60,
      CachePersist 1000,
      CacheInsertLocal 5000000000 ''nas.home.'' (Some A) [answer ''nas.home.'' A ''10.0.0.5'' 120 0],
      CacheLookup 10000000000 ''www.example.com.'' (Some AAAA)]"

definition sample_cache_rows :: "cache_row list" where
  "sample_cache_rows =
     [\<lparr>cw_name = ''www.example.com.'', cw_type = ''A'', cw_value = ''192.0.2.1'', cw_ttl = 300,
       cw_original_ttl = 300, cw_cached_at = 1000, cw_source = ''upstream''\<rparr>,
      \<lparr>cw_name = ''old.example.com.'', cw_type = ''A'', cw_value = ''192.0.2.9'', cw_ttl = 60,
       cw_original_ttl = 60, cw_cached_at = 1000, cw_source = ''upstream''\<rparr>]"

section \<open>The maps keep the contract\<close>

interpretation answers: expiring_cache cache_exec "\<lambda>c. map_of (memory c)" cache_writes "\<lambda>_. True"
proof (rule expiring_cacheI)
  fix x :: cache_op and s :: dns_cache
  show "\<exists>s'. cache_exec x s = Some s' \<and> True
      \<and> (\<forall>k e. cache_writes x = Some (k, e) \<longrightarrow> map_of (memory s') k = Some e)
      \<and> (\<forall>k e. map_of (memory s') k = Some e \<longrightarrow>
           cache_writes x = Some (k, e) \<or> map_of (memory s) k = Some e \<and> (\<forall>e'. cache_writes x \<noteq> Some (k, e')))"
    by (cases x) (auto simp: cache_lookup_mem_def lookup_local_only_def cache_insert_mem_def insert_local_def
        insert_negative_def lookup_negative_def invalidate_negative_def cache_flush_def persist_worker_def Let_def
        split: option.splits if_splits)
qed

interpretation denials: expiring_cache cache_exec "\<lambda>c. map_of (negatives c)" negative_writes "\<lambda>c. wf_table (negatives c)"
proof (rule expiring_cacheI)
  fix x :: cache_op and s :: dns_cache
  assume "wf_table (negatives s)"
  then show "\<exists>s'. cache_exec x s = Some s' \<and> wf_table (negatives s')
      \<and> (\<forall>k e. negative_writes x = Some (k, e) \<longrightarrow> map_of (negatives s') k = Some e)
      \<and> (\<forall>k e. map_of (negatives s') k = Some e \<longrightarrow>
           negative_writes x = Some (k, e) \<or> map_of (negatives s) k = Some e \<and> (\<forall>e'. negative_writes x \<noteq> Some (k, e')))"
    by (cases x) (auto simp: cache_lookup_mem_def lookup_local_only_def cache_insert_mem_def insert_local_def
        insert_negative_def lookup_negative_def invalidate_negative_def cache_flush_def persist_worker_def Let_def
        map_of_retain split: option.splits if_splits)
qed

lemma dr_value_set_ttl: "map dr_value (map (\<lambda>r. r\<lparr>dr_ttl := t\<rparr>) rs) = map dr_value rs"
  by simp

lemma cache_writes_ttl:
  assumes "cache_writes x = Some (k, e)" "now < ce_expires e"
  shows "\<exists>t0 life. ce_expires e = t0 + from_secs life
    \<and> (t0 \<le> now \<longrightarrow> 1 \<le> unat (decayed_ttl (ce_expires e) now) \<and> unat (decayed_ttl (ce_expires e) now) \<le> unat life
         \<and> now + from_secs (decayed_ttl (ce_expires e) now) < ce_expires e + 1000000000)"
proof -
  obtain t0 life where e: "ce_expires e = t0 + from_secs life"
    using assms(1) by (cases x) (auto split: if_splits)
  show ?thesis
    using decayed_ttl_bounds [of now t0 life] assms(2) unfolding e by blast
qed

section \<open>Loading the table\<close>

text \<open>What a loaded entry may be made of: rows of its key that are alive, none of which it outlives.\<close>

definition loaded_from ::
  "nat \<Rightarrow> (dns_record \<times> u32) list \<Rightarrow> string \<Rightarrow> cached_entry \<Rightarrow> bool" where
  "loaded_from now loads k e \<longleftrightarrow>
     \<not> ce_local e \<and> ce_records e = map fst (filter (\<lambda>(rec, _). cache_key (dr_name rec) (Some (dr_type rec)) = k) loads)
     \<and> (\<forall>(rec, rem) \<in> set loads. cache_key (dr_name rec) (Some (dr_type rec)) = k \<longrightarrow> ce_expires e \<le> now + from_secs rem)"

lemma map_of_load_row:
  "map_of (load_row now (rec, rem) m) k =
     (if cache_key (dr_name rec) (Some (dr_type rec)) = k
      then Some (case map_of m k of
             Some e \<Rightarrow> e\<lparr>ce_records := ce_records e @ [rec], ce_expires := min (now + from_secs rem) (ce_expires e)\<rparr>
           | None \<Rightarrow> \<lparr>ce_records = [rec], ce_expires = now + from_secs rem, ce_local = False\<rparr>)
      else map_of m k)"
  by (auto simp: load_row_def Let_def min_def split: option.split)

lemma load_rows:
  "case map_of (fold (load_row now) loads []) k of
     Some e \<Rightarrow> loaded_from now loads k e
   | None \<Rightarrow> filter (\<lambda>(rec, _). cache_key (dr_name rec) (Some (dr_type rec)) = k) loads = []"
proof (induction loads rule: rev_induct)
  case Nil
  then show ?case by simp
next
  case (snoc row loads)
  obtain rec rem where row: "row = (rec, rem)"
    by (cases row)
  have fold: "fold (load_row now) (loads @ [row]) [] = load_row now (rec, rem) (fold (load_row now) loads [])"
    by (simp add: row)
  show ?case
  proof (cases "map_of (fold (load_row now) loads []) k")
    case None
    then have none: "filter (\<lambda>(rec, _). cache_key (dr_name rec) (Some (dr_type rec)) = k) loads = []"
      using snoc by simp
    then have "\<forall>(rec, _) \<in> set loads. cache_key (dr_name rec) (Some (dr_type rec)) \<noteq> k"
      by (auto simp: filter_empty_conv)
    then show ?thesis
      unfolding fold map_of_load_row None using none by (auto simp: row loaded_from_def)
  next
    case (Some e)
    then have "loaded_from now loads k e"
      using snoc by simp
    then show ?thesis
      unfolding fold map_of_load_row Some by (auto simp: row loaded_from_def)
  qed
qed

section \<open>Properties\<close>

text \<open>
  C24: after any sequence of operations on a cache over an empty table, in any interleaving with the
  disk writer, what a lookup answers is exactly the record set last inserted under that name (in
  whatever case it is written) and type, before its time is over. Upstream sets are handed out with a
  positive time to live that does not carry them more than a second past their expiry; local sets
  unchanged, and only those by \<open>lookup_local_only\<close>. A negative answer is the last one recorded.
\<close>

theorem dns_cache_last_write:
  "\<exists>c. run_ops cache_exec xs (dns_cache_new t w []) = Some c
    \<and> (\<forall>now name rt rs. fst (cache_lookup_mem now name rt c) = rs \<and> rs \<noteq> [] \<longrightarrow>
         (\<exists>e. last_write cache_writes (cache_key name rt) xs = Some e \<and> now < ce_expires e
            \<and> (if ce_local e then rs = ce_records e
               else rs = map (\<lambda>r. r\<lparr>dr_ttl := decayed_ttl (ce_expires e) now\<rparr>) (ce_records e))
            \<and> (\<exists>t0 life. ce_expires e = t0 + from_secs life
                 \<and> (t0 \<le> now \<longrightarrow> 1 \<le> unat (decayed_ttl (ce_expires e) now)
                      \<and> unat (decayed_ttl (ce_expires e) now) \<le> unat life
                      \<and> now + from_secs (decayed_ttl (ce_expires e) now) < ce_expires e + 1000000000))))
    \<and> (\<forall>now name rt rs. fst (lookup_local_only now name rt c) = rs \<and> rs \<noteq> [] \<longrightarrow>
         (\<exists>e. last_write cache_writes (cache_key name rt) xs = Some e \<and> now < ce_expires e
            \<and> ce_local e \<and> rs = ce_records e))
    \<and> (\<forall>now name rt kind. fst (lookup_negative now name rt c) = Some kind \<longrightarrow>
         (\<exists>e. last_write negative_writes (cache_key name rt) xs = Some e \<and> now < ne_expires e \<and> ne_kind e = kind))"
proof -
  have empty: "memory (dns_cache_new t w []) = []" "negatives (dns_cache_new t w []) = []"
    by (simp_all add: dns_cache_new_def cache_load_all_def)
  obtain c where c: "run_ops cache_exec xs (dns_cache_new t w []) = Some c"
    using answers.run_returns by blast
  have pos: "last_write cache_writes k xs = Some e" if "map_of (memory c) k = Some e" for k e
    using answers.run_last_write [OF TrueI c that] empty by simp
  have neg: "last_write negative_writes k xs = Some e" if "map_of (negatives c) k = Some e" for k e
    using denials.run_last_write [OF _ c that] empty by simp
  have ttl: "\<exists>t0 life. ce_expires e = t0 + from_secs life
      \<and> (t0 \<le> now \<longrightarrow> 1 \<le> unat (decayed_ttl (ce_expires e) now) \<and> unat (decayed_ttl (ce_expires e) now) \<le> unat life
           \<and> now + from_secs (decayed_ttl (ce_expires e) now) < ce_expires e + 1000000000)"
    if "map_of (memory c) k = Some e" "now < ce_expires e" for k e now
    using last_write_SomeD [OF pos [OF that(1)]] cache_writes_ttl [OF _ that(2)] by metis
  show ?thesis
  proof (intro exI [of _ c] conjI allI impI)
    fix now name rt rs
    assume hit: "fst (cache_lookup_mem now name rt c) = rs \<and> rs \<noteq> []"
    obtain e where e: "map_of (memory c) (cache_key name rt) = Some e" "now < ce_expires e"
      "rs = (if ce_local e then ce_records e else map (\<lambda>r. r\<lparr>dr_ttl := decayed_ttl (ce_expires e) now\<rparr>) (ce_records e))"
      using hit by (auto simp: cache_lookup_mem_def Let_def split: option.splits if_splits)
    show "\<exists>e. last_write cache_writes (cache_key name rt) xs = Some e \<and> now < ce_expires e
            \<and> (if ce_local e then rs = ce_records e
               else rs = map (\<lambda>r. r\<lparr>dr_ttl := decayed_ttl (ce_expires e) now\<rparr>) (ce_records e))
            \<and> (\<exists>t0 life. ce_expires e = t0 + from_secs life
                 \<and> (t0 \<le> now \<longrightarrow> 1 \<le> unat (decayed_ttl (ce_expires e) now)
                      \<and> unat (decayed_ttl (ce_expires e) now) \<le> unat life
                      \<and> now + from_secs (decayed_ttl (ce_expires e) now) < ce_expires e + 1000000000))"
      using pos [OF e(1)] ttl [OF e(1,2)] e(2,3) by (intro exI [of _ e]) simp
  next
    fix now name rt rs
    assume "fst (lookup_local_only now name rt c) = rs \<and> rs \<noteq> []"
    then show "\<exists>e. last_write cache_writes (cache_key name rt) xs = Some e \<and> now < ce_expires e
            \<and> ce_local e \<and> rs = ce_records e"
      using pos by (auto simp: lookup_local_only_def Let_def split: option.splits if_splits)
  next
    fix now name rt kind
    assume "fst (lookup_negative now name rt c) = Some kind"
    then show "\<exists>e. last_write negative_writes (cache_key name rt) xs = Some e \<and> now < ne_expires e \<and> ne_kind e = kind"
      using neg by (auto simp: lookup_negative_def Let_def split: option.splits if_splits)
  qed (rule c)
qed

theorem dns_cache_last_write_witness:
  "\<exists>c. run_ops cache_exec sample_cache_run (dns_cache_new 0 1000 []) = Some c
     \<and> (\<exists>e. last_write cache_writes ''www.example.com.:A'' sample_cache_run = Some e \<and> 100000000000 < ce_expires e
          \<and> map dr_value (fst (cache_lookup_mem 100000000000 ''WWW.example.com.'' (Some A) c)) = map dr_value (ce_records e))
     \<and> map dr_ttl (fst (cache_lookup_mem 100000000000 ''WWW.example.com.'' (Some A) c)) = [200]
     \<and> fst (lookup_local_only 0 ''www.example.com.'' (Some A) c) = []
     \<and> fst (lookup_negative 59000000000 ''gone.example.com.'' (Some A) c) = Some NxDomain"
proof -
  let ?run = "run_ops cache_exec sample_cache_run (dns_cache_new 0 1000 [])"
  obtain c where c: "?run = Some c"
    "\<forall>now name rt rs. fst (cache_lookup_mem now name rt c) = rs \<and> rs \<noteq> [] \<longrightarrow>
         (\<exists>e. last_write cache_writes (cache_key name rt) sample_cache_run = Some e \<and> now < ce_expires e
            \<and> (if ce_local e then rs = ce_records e
               else rs = map (\<lambda>r. r\<lparr>dr_ttl := decayed_ttl (ce_expires e) now\<rparr>) (ce_records e))
            \<and> (\<exists>t0 life. ce_expires e = t0 + from_secs life
                 \<and> (t0 \<le> now \<longrightarrow> 1 \<le> unat (decayed_ttl (ce_expires e) now)
                      \<and> unat (decayed_ttl (ce_expires e) now) \<le> unat life
                      \<and> now + from_secs (decayed_ttl (ce_expires e) now) < ce_expires e + 1000000000)))"
    using dns_cache_last_write [of sample_cache_run 0 1000] by (elim exE conjE) (rule that)
  let ?rs = "fst (cache_lookup_mem 100000000000 ''WWW.example.com.'' (Some A) c)"
  have eval: "(case ?run of None \<Rightarrow> False | Some c \<Rightarrow>
       map dr_ttl (fst (cache_lookup_mem 100000000000 ''WWW.example.com.'' (Some A) c)) = [200]
       \<and> fst (lookup_local_only 0 ''www.example.com.'' (Some A) c) = []
       \<and> fst (lookup_negative 59000000000 ''gone.example.com.'' (Some A) c) = Some NxDomain)"
    and key: "cache_key ''WWW.example.com.'' (Some A) = ''www.example.com.:A''"
    by code_simp+
  have c': "map dr_ttl ?rs = [200]" "fst (lookup_local_only 0 ''www.example.com.'' (Some A) c) = []"
    "fst (lookup_negative 59000000000 ''gone.example.com.'' (Some A) c) = Some NxDomain"
    using eval unfolding c(1) option.case by blast+
  then have "?rs \<noteq> []"
    by (metis list.distinct(1) list.simps(8))
  then have "\<exists>e. last_write cache_writes (cache_key ''WWW.example.com.'' (Some A)) sample_cache_run = Some e
      \<and> 100000000000 < ce_expires e
      \<and> (if ce_local e then ?rs = ce_records e
         else ?rs = map (\<lambda>r. r\<lparr>dr_ttl := decayed_ttl (ce_expires e) 100000000000\<rparr>) (ce_records e))"
    using c(2) by (elim allE [of _ "100000000000 :: nat"] allE [of _ "''WWW.example.com.''"] allE [of _ "Some A"]
        allE [of _ ?rs]) blast
  then obtain e where e: "last_write cache_writes ''www.example.com.:A'' sample_cache_run = Some e" "100000000000 < ce_expires e"
    "if ce_local e then ?rs = ce_records e
     else ?rs = map (\<lambda>r. r\<lparr>dr_ttl := decayed_ttl (ce_expires e) 100000000000\<rparr>) (ce_records e)"
    unfolding key by blast
  have "map dr_value ?rs = map dr_value (ce_records e)"
    using e(3) by (cases "ce_local e") (simp_all only: if_True if_False dr_value_set_ttl)
  then show ?thesis
    by (intro exI [of _ c] exI [of _ e] conjI) (rule c(1) e(1,2) c' | assumption)+
qed

text \<open>
  C27: a restart answers from the table exactly the rows that are still alive, each under its own name
  and type, and an entry is not kept past the time of its shortest-lived row.
\<close>

theorem dns_cache_restart:
  assumes "\<forall>r\<in>set rows. cw_ttl r < 2 ^ 32 \<and> cw_cached_at r \<le> wall"
  shows "case map_of (memory (dns_cache_new now wall rows)) k of
      None \<Rightarrow> \<forall>r\<in>set rows. wall < cw_cached_at r + cw_ttl r \<longrightarrow>
        k \<noteq> cache_key (cw_name r) (Some (row_kind r))
    | Some e \<Rightarrow> \<not> ce_local e
        \<and> map dr_value (ce_records e) =
            map cw_value (filter (\<lambda>r. wall < cw_cached_at r + cw_ttl r
              \<and> k = cache_key (cw_name r) (Some (row_kind r))) rows)
        \<and> (\<forall>r\<in>set rows. wall < cw_cached_at r + cw_ttl r \<longrightarrow>
             k = cache_key (cw_name r) (Some (row_kind r)) \<longrightarrow>
             ce_expires e \<le> now + nat (cw_cached_at r + cw_ttl r - wall) * 1000000000)"
proof -
  let ?loads = "cache_load_all wall rows"
  let ?key = "\<lambda>r. cache_key (cw_name r) (Some (row_kind r))"
  have rec: "dr_name (row_record n r) = cw_name r" "dr_type (row_record n r) = row_kind r"
    "dr_value (row_record n r) = cw_value r" for n r
    by (simp_all add: row_record_def)
  have loads: "?loads = map (\<lambda>r. (row_record (cw_ttl r - (wall - cw_cached_at r)) r, of_int (cw_ttl r - (wall - cw_cached_at r))))
      (filter (\<lambda>r. wall < cw_cached_at r + cw_ttl r) rows)"
    unfolding cache_load_all_def Let_def filter_filter by (rule arg_cong [of _ _ "map _"], rule filter_cong) auto
  have mem: "memory (dns_cache_new now wall rows) = fold (load_row now) ?loads []"
    by (simp add: dns_cache_new_def)
  have key_filter: "filter (\<lambda>(rec, _). cache_key (dr_name rec) (Some (dr_type rec)) = k) ?loads =
      map (\<lambda>r. (row_record (cw_ttl r - (wall - cw_cached_at r)) r, of_int (cw_ttl r - (wall - cw_cached_at r))))
        (filter (\<lambda>r. wall < cw_cached_at r + cw_ttl r \<and> k = ?key r) rows)"
    unfolding loads filter_map o_def filter_filter
    by (rule arg_cong [of _ _ "map _"], rule filter_cong) (auto simp: rec)
  have life: "from_secs (of_int (cw_ttl r - (wall - cw_cached_at r))) = nat (cw_cached_at r + cw_ttl r - wall) * 1000000000"
    if "r \<in> set rows" "wall < cw_cached_at r + cw_ttl r" for r
    using assms that by (subst from_secs_of_int) (auto simp: algebra_simps)
  show ?thesis
  proof (cases "map_of (memory (dns_cache_new now wall rows)) k")
    case None
    then show ?thesis
      using load_rows [where now = now and loads = ?loads and k = k] unfolding mem key_filter by (auto simp: filter_empty_conv)
  next
    case (Some e)
    then have ld: "loaded_from now ?loads k e"
      using load_rows [where now = now and loads = ?loads and k = k] unfolding mem by simp
    have "ce_expires e \<le> now + nat (cw_cached_at r + cw_ttl r - wall) * 1000000000"
      if r: "r \<in> set rows" "wall < cw_cached_at r + cw_ttl r" "k = ?key r" for r
    proof -
      have "(row_record (cw_ttl r - (wall - cw_cached_at r)) r, of_int (cw_ttl r - (wall - cw_cached_at r))) \<in> set ?loads"
        unfolding loads using r by auto
      then show ?thesis
        using ld r(3) life [OF r(1,2)] unfolding loaded_from_def by (force simp: rec)
    qed
    moreover have "map dr_value (ce_records e) =
            map cw_value (filter (\<lambda>r. wall < cw_cached_at r + cw_ttl r \<and> k = ?key r) rows)"
      using ld unfolding loaded_from_def key_filter by (simp add: rec)
    ultimately show ?thesis
      using ld Some by (simp add: loaded_from_def)
  qed
qed

theorem dns_cache_restart_witness:
  "map_of (memory (dns_cache_new 0 1100 sample_cache_rows)) ''old.example.com.:A'' = None
   \<and> (\<exists>e. map_of (memory (dns_cache_new 0 1100 sample_cache_rows)) ''www.example.com.:A'' = Some e
        \<and> map dr_value (ce_records e) = [''192.0.2.1''] \<and> ce_expires e = 200 * 1000000000 \<and> \<not> ce_local e)"
proof -
  have "list_all (\<lambda>r. cw_ttl r < 2 ^ 32 \<and> cw_cached_at r \<le> 1100) sample_cache_rows"
    by code_simp
  then have hyp: "\<forall>r\<in>set sample_cache_rows. cw_ttl r < 2 ^ 32 \<and> cw_cached_at r \<le> 1100"
    by (simp only: list_all_iff)
  have eval: "map_option (\<lambda>e. (map dr_value (ce_records e), ce_expires e))
        (map_of (memory (dns_cache_new 0 1100 sample_cache_rows)) ''www.example.com.:A'')
      = Some ([''192.0.2.1''], 200 * 1000000000)"
    "map_of (memory (dns_cache_new 0 1100 sample_cache_rows)) ''old.example.com.:A'' = None"
    by code_simp+
  obtain e where e: "map_of (memory (dns_cache_new 0 1100 sample_cache_rows)) ''www.example.com.:A'' = Some e"
    "map dr_value (ce_records e) = [''192.0.2.1'']" "ce_expires e = 200 * 1000000000"
    using eval(1) unfolding map_option_eq_Some prod.inject by (elim exE conjE) (rule that)
  have "\<not> ce_local e"
    using dns_cache_restart [OF hyp, where now = 0 and k = "''www.example.com.:A''"] unfolding e(1) option.case by (rule conjunct1)
  then show ?thesis
    by (intro conjI exI [of _ e]) (rule eval(2) e | assumption)+
qed

text \<open>
  What the disk copy does not preserve. A chained answer is stored under the type of the question, so
  after a restart the alias comes back as an address record whose value is a name; a mail exchanger
  comes back with preference zero; and a value that a later, smaller answer dropped comes back beside
  it, because rows are only ever added or refreshed.
\<close>

theorem restart_turns_alias_into_address:
  "(case run_ops cache_exec
       [CacheInsert 0 ''index.crates.io.'' (Some A)
          [answer ''index.crates.io.'' CNAME ''fastly.crates.io.'' 300 0, answer ''fastly.crates.io.'' A ''192.0.2.7'' 300 0] 300,
        CachePersist 1000] (dns_cache_new 0 1000 []) of
      None \<Rightarrow> False
    | Some c \<Rightarrow> map (\<lambda>r. (dr_name r, dr_type r, dr_value r))
          (fst (cache_lookup_mem 0 ''index.crates.io.'' (Some A) (dns_cache_new 0 1001 (cache_rows c)))) =
        [(''index.crates.io.'', A, ''fastly.crates.io.''), (''index.crates.io.'', A, ''192.0.2.7'')])"
  by code_simp

theorem restart_forgets_preference:
  "(case run_ops cache_exec
       [CacheInsert 0 ''example.com.'' (Some MX) [answer ''example.com.'' MX ''mail.example.com.'' 300 10] 300,
        CachePersist 1000] (dns_cache_new 0 1000 []) of
      None \<Rightarrow> False
    | Some c \<Rightarrow> map dr_priority (fst (cache_lookup_mem 0 ''example.com.'' (Some MX) c)) = [10]
        \<and> map dr_priority (fst (cache_lookup_mem 0 ''example.com.'' (Some MX) (dns_cache_new 0 1001 (cache_rows c)))) = [0])"
  by code_simp

theorem restart_revives_dropped_address:
  "(case run_ops cache_exec
       [CacheInsert 0 ''a.example.'' (Some A) [answer ''a.example.'' A ''192.0.2.1'' 3600 0] 3600, CachePersist 1000,
        CacheInsert 9 ''a.example.'' (Some A) [answer ''a.example.'' A ''192.0.2.2'' 3600 0] 3600, CachePersist 1001]
       (dns_cache_new 0 1000 []) of
      None \<Rightarrow> False
    | Some c \<Rightarrow> map dr_value (fst (cache_lookup_mem 10 ''a.example.'' (Some A) c)) = [''192.0.2.2'']
        \<and> map dr_value (fst (cache_lookup_mem 10 ''a.example.'' (Some A) (dns_cache_new 0 1002 (cache_rows c)))) =
            [''192.0.2.1'', ''192.0.2.2''])"
  by code_simp

text \<open>
  \<open>invalidate_negative\<close> compares the keys with the name as it is given, while the keys are in lower
  case: a name in another case leaves the cached denial in place.
\<close>

theorem mixed_case_invalidation_misses:
  "(case run_ops cache_exec
       [CacheInsertNegative 0 ''NAS.home.'' (Some A) NxDomain 60, CacheInvalidateNegative ''NAS.home.'']
       (dns_cache_new 0 1000 []) of
      None \<Rightarrow> False
    | Some c \<Rightarrow> fst (lookup_negative 1 ''NAS.home.'' (Some A) c) = Some NxDomain)"
  by code_simp

end
