(* ===== verification/Wire.thy ===== *)
theory Wire
  imports Addresses
begin

text \<open>
  Byte sequences: the bytes of a text, big-endian integers and their reading back. Shared by the
  records of RFC 9460 and by the DNSSEC encodings.
\<close>

definition bytes_of :: "string \<Rightarrow> u8 list" where
  "bytes_of s = map of_char s"

definition u16_be :: "u16 \<Rightarrow> u8 list" where
  "u16_be x = [ucast (drop_bit 8 x), ucast x]"

definition u32_be :: "u32 \<Rightarrow> u8 list" where
  "u32_be x = [ucast (drop_bit 24 x), ucast (drop_bit 16 x), ucast (drop_bit 8 x), ucast x]"

lemma length_u16_be [simp]: "length (u16_be x) = 2"
  by (simp add: u16_be_def)

lemma length_u32_be [simp]: "length (u32_be x) = 4"
  by (simp add: u32_be_def)

lemma length_bytes_of [simp]: "length (bytes_of s) = length s"
  by (simp add: bytes_of_def)

lemma bytes_of_append [simp]: "bytes_of (s @ t) = bytes_of s @ bytes_of t"
  by (simp add: bytes_of_def)

lemma of_char_u8: "unat (of_char c :: u8) = of_char c"
proof -
  have "(of_char c :: u8) = of_nat (of_char c)"
    by (rule of_nat_of_char [symmetric])
  then show ?thesis
    using of_char_lt_256 [of c] by (simp add: unsigned_of_nat take_bit_nat_eq_self)
qed

lemma bytes_of_inject [simp]: "bytes_of s = bytes_of t \<longleftrightarrow> s = t"
  unfolding bytes_of_def
proof (rule inj_map_eq_map, rule injI)
  fix c d
  assume "(of_char c :: u8) = of_char d"
  then have "(of_char c :: nat) = of_char d"
    by (metis of_char_u8)
  then show "c = d" by simp
qed

text \<open>The value of big-endian bytes.\<close>

lemma u16_be_value: "unat (u16_be x ! 0) * 256 + unat (u16_be x ! 1) = unat x"
proof -
  have "unat x < 65536"
    using unsigned_less [of x, where 'a = nat] by simp
  then have "unat (ucast (drop_bit 8 x) :: u8) = unat x div 256" "unat (ucast x :: u8) = unat x mod 256"
    by (simp_all add: unsigned_ucast_eq unsigned_drop_bit_eq drop_bit_eq_div take_bit_eq_mod unat_div_distrib)
  then show ?thesis
    by (simp add: u16_be_def)
qed

lemma u16_be_inject [simp]: "u16_be x = u16_be y \<longleftrightarrow> x = y"
  by (metis u16_be_value word_unat_eq_iff)

section \<open>Fields separated by blanks\<close>

definition is_field :: "string \<Rightarrow> bool" where
  "is_field f \<longleftrightarrow> f \<noteq> [] \<and> (\<forall>c\<in>set f. \<not> is_ws c)"

lemma split_ws_aux_run:
  "\<forall>c\<in>set f. \<not> is_ws c \<Longrightarrow> split_ws_aux acc (f @ s) = split_ws_aux (rev f @ acc) s"
  by (induction f arbitrary: acc) auto

lemma split_ws_field: "is_field f \<Longrightarrow> split_ws f = [f]"
  using split_ws_aux_run [of f "[]" "[]"] by (simp add: split_ws_def is_field_def)

lemma split_ws_Cons: "is_field f \<Longrightarrow> split_ws (f @ CHR '' '' # s) = f # split_ws s"
  using split_ws_aux_run [of f "[]" "CHR '' '' # s"] by (simp add: split_ws_def is_field_def is_ws_def)

lemma split_ws_join: "fs \<noteq> [] \<Longrightarrow> \<forall>f\<in>set fs. is_field f \<Longrightarrow> split_ws (join_with '' '' fs) = fs"
  by (induction fs rule: induct_list012) (simp_all add: split_ws_field split_ws_Cons)

lemma not_ws_digit: "is_digit c \<Longrightarrow> \<not> is_ws c"
  by (auto simp: is_digit_def is_ws_def)

lemma show_nat_not_ws [simp]: "\<forall>c\<in>set (show_nat n). \<not> is_ws c"
  using show_nat_digits [of _ n] not_ws_digit by blast

lemma field_show_nat [simp]: "is_field (show_nat n)"
  by (simp add: is_field_def)

lemma field_append: "is_field f \<Longrightarrow> \<forall>c\<in>set g. \<not> is_ws c \<Longrightarrow> is_field (f @ g)"
  by (auto simp: is_field_def)

end
