(* ===== verification/Type_Bitmap.thy ===== *)
theory Type_Bitmap
  imports Wire "HOL-Library.Multiset"
begin

unbundle bit_operations_syntax

text \<open>
  The type bit map of NSEC records (\<open>encode_type_bitmap\<close> in \<open>src/src/dnssec.rs\<close>): the encoder over
  window blocks, how a validator reads a bit map, and that the encoder is the canonical inverse of it.
\<close>

section \<open>The encoder\<close>

definition set_code_bit :: "u16 \<Rightarrow> u8 list \<Rightarrow> u8 list" where
  "set_code_bit code block =
     (let lo = unat (code AND 255) in block[lo div 8 := block ! (lo div 8) OR drop_bit (lo mod 8) 128])"

definition add_code :: "u16 \<Rightarrow> (u8, u8 list) table \<Rightarrow> (u8, u8 list) table" where
  "add_code code windows =
     (let window = ucast (drop_bit 8 code);
          block = (case map_of windows window of Some b \<Rightarrow> b | None \<Rightarrow> replicate 32 0)
      in AList.update window (set_code_bit code block) windows)"

definition trim_zeros :: "u8 list \<Rightarrow> u8 list" where
  "trim_zeros block = rev (dropWhile (\<lambda>b. b = 0) (rev block))"

definition encode_type_bitmap :: "u16 list \<Rightarrow> u8 list" where
  "encode_type_bitmap types =
     concat (map (\<lambda>(window, block).
         let used = trim_zeros block
         in if used = [] then [] else window # of_nat (length used) # used)
       (sort_key fst (fold add_code types [])))"

section \<open>The encoder is canonical\<close>

text \<open>How a validator reads a bit map (RFC 4034, section 4.1.2).\<close>

function bitmap_has :: "u8 list \<Rightarrow> u16 \<Rightarrow> bool" where
  "bitmap_has (w # n # rest) code \<longleftrightarrow>
     (ucast (drop_bit 8 code) = w \<and>
        unat (code AND 255) div 8 < min (unat n) (length rest) \<and>
        bit (rest ! (unat (code AND 255) div 8)) (7 - unat (code AND 255) mod 8))
     \<or> bitmap_has (drop (unat n) rest) code"
| "bitmap_has [w] code \<longleftrightarrow> False"
| "bitmap_has [] code \<longleftrightarrow> False"
  by pat_completeness auto
termination
  by (relation "measure (length \<circ> fst)") auto

abbreviation code_hi :: "u16 \<Rightarrow> u8" where
  "code_hi c \<equiv> ucast (drop_bit 8 c)"

abbreviation code_lo :: "u16 \<Rightarrow> nat" where
  "code_lo c \<equiv> unat (c AND 255)"

lemma code_lo_less: "code_lo c < 256"
proof -
  have "c AND 255 \<le> 255"
    by (rule word_and_le1)
  then show ?thesis
    by (simp add: word_le_nat_alt)
qed

lemma code_split: "c = d \<longleftrightarrow> code_hi c = code_hi d \<and> code_lo c = code_lo d"
proof
  assume e: "code_hi c = code_hi d \<and> code_lo c = code_lo d"
  show "c = d"
  proof (rule bit_word_eqI)
    fix n assume n: "n < LENGTH(16)"
    have "c AND 255 = d AND 255"
      using e by (intro unsigned_word_eqI [where ?'a = nat]) simp
    then have "bit (c AND mask 8) n = bit (d AND mask 8) n"
      by (simp add: mask_eq_exp_minus_1)
    moreover have "bit (code_hi c) (n - 8) = bit (code_hi d) (n - 8)"
      using e by simp
    ultimately show "bit c n = bit d n"
      using n by (cases "n < 8") (auto simp: bit_simps)
  qed
qed simp

text \<open>The block of a window, bit by bit.\<close>

definition window_block :: "u16 set \<Rightarrow> u8 \<Rightarrow> u8 list" where
  "window_block S w =
     map (\<lambda>i. horner_sum of_bool 2
                (map (\<lambda>b. \<exists>c\<in>S. code_hi c = w \<and> code_lo c = 8 * i + (7 - b)) [0..<8])) [0..<32]"

lemma length_window_block [simp]: "length (window_block S w) = 32"
  by (simp add: window_block_def)

lemma bit_window_block:
  "i < 32 \<Longrightarrow> bit (window_block S w ! i) b \<longleftrightarrow> b < 8 \<and> (\<exists>c\<in>S. code_hi c = w \<and> code_lo c = 8 * i + (7 - b))"
  by (auto simp: window_block_def bit_horner_sum_bit_word_iff)

lemma window_block_empty: "window_block {} w = replicate 32 0"
  by (rule nth_equalityI) (auto simp: window_block_def bit_eq_iff bit_horner_sum_bit_word_iff)

lemma bit_128: "bit (128 :: u8) n \<longleftrightarrow> n = 7"
  using bit_exp_iff [of 7 n, where 'a = u8] by (auto simp: bit_word_def)

lemma bit_drop_128: "bit (drop_bit k (128 :: u8)) b \<longleftrightarrow> k + b = 7"
  unfolding bit_drop_bit_eq o_def bit_128 ..

lemma code_position:
  assumes "(b :: nat) < 8"
  shows "k = 8 * i + (7 - b) \<longleftrightarrow> k div 8 = i \<and> k mod 8 + b = 7"
proof -
  have "k = 8 * i + r \<longleftrightarrow> k div 8 = i \<and> k mod 8 = r" if "r < 8" for r
    using that by auto
  from this [of "7 - b"] show ?thesis
    using assms by auto
qed

lemma set_code_bit_block: "set_code_bit c (window_block S (code_hi c)) = window_block (insert c S) (code_hi c)"
proof (rule nth_equalityI)
  fix i assume "i < length (set_code_bit c (window_block S (code_hi c)))"
  then have i: "i < 32"
    by (simp add: set_code_bit_def Let_def)
  show "set_code_bit c (window_block S (code_hi c)) ! i = window_block (insert c S) (code_hi c) ! i"
  proof (rule bit_word_eqI)
    fix b assume "b < LENGTH(8)"
    then have "b < 8" by simp
    have "bit (set_code_bit c (window_block S (code_hi c)) ! i) b \<longleftrightarrow>
        bit (window_block S (code_hi c) ! i) b \<or> code_lo c div 8 = i \<and> code_lo c mod 8 + b = 7"
      using i by (cases "code_lo c div 8 = i") (simp_all add: set_code_bit_def Let_def bit_or_iff bit_drop_128)
    also have "\<dots> \<longleftrightarrow> bit (window_block (insert c S) (code_hi c) ! i) b"
      unfolding bit_window_block [OF i] code_position [OF \<open>b < 8\<close>, symmetric] using \<open>b < 8\<close> by blast
    finally show "bit (set_code_bit c (window_block S (code_hi c)) ! i) b = bit (window_block (insert c S) (code_hi c) ! i) b" .
  qed
qed (simp add: set_code_bit_def Let_def)

lemma window_block_other: "w \<noteq> code_hi c \<Longrightarrow> window_block (insert c S) w = window_block S w"
  by (simp add: window_block_def)

lemma add_code_table:
  assumes "wf_table t" "\<forall>w. map_of t w = (if w \<in> code_hi ` S then Some (window_block S w) else None)"
  shows "wf_table (add_code c t)"
    "\<forall>w. map_of (add_code c t) w =
           (if w \<in> code_hi ` insert c S then Some (window_block (insert c S) w) else None)"
proof -
  have "(case map_of t (code_hi c) of Some b \<Rightarrow> b | None \<Rightarrow> replicate 32 0) = window_block S (code_hi c)"
  proof (cases "code_hi c \<in> code_hi ` S")
    case False
    then have "window_block S (code_hi c) = window_block {} (code_hi c)"
      unfolding window_block_def by (intro map_cong arg_cong2 [where f = "horner_sum of_bool"]) (force simp: image_iff)+
    then show ?thesis
      using False assms(2) by (simp add: window_block_empty)
  qed (simp add: assms(2))
  then show "wf_table (add_code c t)"
    "\<forall>w. map_of (add_code c t) w =
           (if w \<in> code_hi ` insert c S then Some (window_block (insert c S) w) else None)"
    using assms by (auto simp: add_code_def Let_def set_code_bit_block window_block_other)
qed

lemma fold_add_code:
  assumes "wf_table t" "\<forall>w. map_of t w = (if w \<in> code_hi ` S then Some (window_block S w) else None)"
  shows "wf_table (fold add_code cs t) \<and>
    (\<forall>w. map_of (fold add_code cs t) w =
           (if w \<in> code_hi ` (S \<union> set cs) then Some (window_block (S \<union> set cs) w) else None))"
  using assms
proof (induction cs arbitrary: t S)
  case (Cons c cs)
  show ?case
    using Cons.IH [OF add_code_table [OF Cons.prems, of c]] by simp
qed simp

lemma sorted_windows:
  "sort_key fst (fold add_code cs []) =
     map (\<lambda>w. (w, window_block (set cs) w)) (sorted_list_of_set (code_hi ` set cs))"
proof (rule sort_key_inj_key_eq)
  let ?t = "fold add_code cs []"
  have t: "wf_table ?t" "\<And>w. map_of ?t w = (if w \<in> code_hi ` set cs then Some (window_block (set cs) w) else None)"
    using fold_add_code [of "[]" "{}" cs] by simp_all
  have d: "distinct ?t" "distinct (map fst ?t)"
    using t(1) by (simp_all add: wf_table_def distinct_map)
  have "(w, b) \<in> set ?t \<longleftrightarrow> w \<in> code_hi ` set cs \<and> b = window_block (set cs) w" for w b
    using map_of_eq_Some_iff [OF d(2), of w b] unfolding t(2) by (auto split: if_splits)
  then have "set ?t = set (map (\<lambda>w. (w, window_block (set cs) w)) (sorted_list_of_set (code_hi ` set cs)))"
    by auto
  moreover have "distinct (map (\<lambda>w. (w, window_block (set cs) w)) (sorted_list_of_set (code_hi ` set cs)))"
    by (simp add: distinct_map inj_on_def)
  ultimately show "mset ?t = mset (map (\<lambda>w. (w, window_block (set cs) w)) (sorted_list_of_set (code_hi ` set cs)))"
    using d(1) by (simp only: set_eq_iff_mset_eq_distinct)
  show "inj_on fst (set ?t)"
    using d(2) by (simp add: distinct_map)
  show "sorted (map fst (map (\<lambda>w. (w, window_block (set cs) w)) (sorted_list_of_set (code_hi ` set cs))))"
    by (simp add: comp_def)
qed

definition window_bytes :: "u8 \<Rightarrow> u8 list \<Rightarrow> u8 list" where
  "window_bytes w block =
     (let used = trim_zeros block in if used = [] then [] else w # of_nat (length used) # used)"

lemma encode_type_bitmap_windows:
  "encode_type_bitmap cs =
     concat (map (\<lambda>w. window_bytes w (window_block (set cs) w)) (sorted_list_of_set (code_hi ` set cs)))"
  by (simp add: encode_type_bitmap_def sorted_windows window_bytes_def comp_def Let_def)

lemma trim_zeros_nth:
  "length (trim_zeros b) \<le> length b" "i < length (trim_zeros b) \<Longrightarrow> trim_zeros b ! i = b ! i"
  "length (trim_zeros b) \<le> i \<Longrightarrow> i < length b \<Longrightarrow> b ! i = 0"
proof (induction b rule: rev_induct)
  case (snoc x b)
  {
    case 1
    show ?case using snoc by (simp add: trim_zeros_def)
  next
    case 2
    then show ?case using snoc by (cases "x = 0") (auto simp: trim_zeros_def nth_append)
  next
    case 3
    then show ?case using snoc by (cases "x = 0") (auto simp: trim_zeros_def nth_append split: if_splits)
  }
qed (simp_all add: trim_zeros_def)

lemma bitmap_has_window:
  assumes "length block = 32"
  shows "bitmap_has (window_bytes w block @ rest) code \<longleftrightarrow>
     code_hi code = w \<and> bit (block ! (code_lo code div 8)) (7 - code_lo code mod 8) \<or> bitmap_has rest code"
proof -
  let ?u = "trim_zeros block" and ?i = "code_lo code div 8"
  have len: "length ?u \<le> 32"
    using trim_zeros_nth(1) [of block] assms by simp
  then have n: "unat (of_nat (length ?u) :: u8) = length ?u"
    by (simp add: unat_of_nat)
  have i: "?i < 32"
    using code_lo_less [of code] by simp
  have b: "?i < length ?u \<and> bit (?u ! ?i) (7 - code_lo code mod 8) \<longleftrightarrow> bit (block ! ?i) (7 - code_lo code mod 8)"
    using trim_zeros_nth(2) [of ?i block] trim_zeros_nth(3) [of block ?i] assms i by (cases "?i < length ?u") auto
  show ?thesis
  proof (cases "?u = []")
    case True
    then show ?thesis
      using b by (simp add: window_bytes_def)
  next
    case False
    then show ?thesis
      using b by (auto simp: window_bytes_def Let_def n nth_append)
  qed
qed

lemma bitmap_has_windows:
  "bitmap_has (concat (map (\<lambda>w. window_bytes w (window_block S w)) ws)) code \<longleftrightarrow>
     code_hi code \<in> set ws \<and> bit (window_block S (code_hi code) ! (code_lo code div 8)) (7 - code_lo code mod 8)"
  by (induction ws) (auto simp: bitmap_has_window)

lemma bitmap_has_encode: "bitmap_has (encode_type_bitmap cs) code \<longleftrightarrow> code \<in> set cs"
proof -
  have i: "code_lo code div 8 < 32"
    using code_lo_less [of code] by simp
  have "8 * (code_lo code div 8) + (7 - (7 - code_lo code mod 8)) = code_lo code"
    by simp
  then show ?thesis
    unfolding encode_type_bitmap_windows bitmap_has_windows bit_window_block [OF i]
    using code_split by (auto simp: image_iff) metis+
qed

text \<open>
  C37: the type bit map is canonical. A validator reads exactly the encoded types from it, and two
  lists of types have the same bytes exactly when they hold the same types, whatever their order and
  repetitions.
\<close>

theorem type_bitmap_canonical:
  "(bitmap_has (encode_type_bitmap cs) code \<longleftrightarrow> code \<in> set cs) \<and>
   (encode_type_bitmap cs = encode_type_bitmap ds \<longleftrightarrow> set cs = set ds)"
  using bitmap_has_encode [of cs] bitmap_has_encode [of ds] by (auto simp: encode_type_bitmap_windows)

end
