(* ===== verification/Nsec_Chain.thy ===== *)
theory Nsec_Chain
  imports Type_Bitmap Records "HOL-Library.List_Lexorder"
begin

text \<open>
  The name-level part of DNSSEC signing (\<open>src/src/dnssec.rs\<close>): canonical wire names, the canonical
  order of owner names, NSEC records with their stored form, and the chain of NSEC
  records of a zone.

  The code compares names by a loop over their labels from the right; \<open>canon_key\<close> is the list this
  amounts to, ordered lexicographically, and the chain is read as a ring over these keys.
\<close>

section \<open>Definitions\<close>

datatype Ordering = Less | Equal | Greater

definition cmp :: "'a :: linorder \<Rightarrow> 'a \<Rightarrow> Ordering" where
  "cmp x y = (if x < y then Less else if x = y then Equal else Greater)"

text \<open>\<open>Iterator::cmp\<close>.\<close>

fun iter_cmp :: "('a :: linorder) list \<Rightarrow> 'a list \<Rightarrow> Ordering" where
  "iter_cmp [] [] = Equal"
| "iter_cmp [] (y # ys) = Less"
| "iter_cmp (x # xs) [] = Greater"
| "iter_cmp (x # xs) (y # ys) = (if cmp x y = Equal then iter_cmp xs ys else cmp x y)"

text \<open>\<open>slice::sort_by\<close>, the stable sort by a comparison.\<close>

fun insort_by :: "('a \<Rightarrow> 'a \<Rightarrow> Ordering) \<Rightarrow> 'a \<Rightarrow> 'a list \<Rightarrow> 'a list" where
  "insort_by f x [] = [x]"
| "insort_by f x (y # ys) = (if f x y = Greater then y # insort_by f x ys else x # y # ys)"

definition sort_by :: "('a \<Rightarrow> 'a \<Rightarrow> Ordering) \<Rightarrow> 'a list \<Rightarrow> 'a list" where
  "sort_by f xs = foldr (insort_by f) xs []"

fun wire_labels :: "string list \<Rightarrow> u8 list option" where
  "wire_labels [] = Some []"
| "wire_labels (l # ls) =
     (if l = [] \<or> length l > 63 then None
      else map_option (\<lambda>out. of_nat (length l) # bytes_of l @ out) (wire_labels ls))"

definition canonical_name :: "string \<Rightarrow> u8 list option" where
  "canonical_name name =
     (let trimmed = trim_end_dots (lower (trim name))
      in if trimmed = [] then Some [0]
         else map_option (\<lambda>out. out @ [0]) (wire_labels (split_on dot trimmed)))"

definition label_count :: "string \<Rightarrow> u8" where
  "label_count name =
     (let trimmed = trim_end_dots (lower (trim name))
      in if trimmed = [] then 0
         else (let ls = split_on dot trimmed;
                   ls' = (if hd ls = ''*'' then tl ls else ls)
               in of_nat (min (length ls') 255)))"

fun chunks :: "nat \<Rightarrow> 'a list \<Rightarrow> 'a list list" where
  "chunks n xs = (if n = 0 \<or> xs = [] then [] else take n xs # chunks n (drop n xs))"

declare chunks.simps [simp del]

definition character_strings :: "string \<Rightarrow> u8 list" where
  "character_strings value =
     (let bytes = bytes_of value
      in if bytes = [] then [0]
         else concat (map (\<lambda>chunk. of_nat (length chunk) # chunk) (chunks 255 bytes)))"

fun labels_loop :: "string list \<Rightarrow> string list \<Rightarrow> Ordering" where
  "labels_loop (x # xs) (y # ys) =
     (let ord = iter_cmp (bytes_of (lower x)) (bytes_of (lower y))
      in if ord \<noteq> Equal then ord else labels_loop xs ys)"
| "labels_loop _ _ = Equal"

definition canonical_name_cmp :: "string \<Rightarrow> string \<Rightarrow> Ordering" where
  "canonical_name_cmp a b =
     (let a_labels = rev (split_on dot (trim_end_dots a));
          b_labels = rev (split_on dot (trim_end_dots b));
          ord = labels_loop a_labels b_labels
      in if ord \<noteq> Equal then ord else cmp (length a_labels) (length b_labels))"

subsection \<open>NSEC records\<close>

record nsec =
  next_owner :: string
  nsec_types :: "RecordKind list"

datatype nsec_error = NsecEmpty | NsecUnknownType string

definition nsec_to_value :: "nsec \<Rightarrow> string" where
  "nsec_to_value n =
     next_owner n @ concat (map (\<lambda>t. '' '' @ as_str t) (remdups_adj (sort_key wire_type (nsec_types n))))"

fun nsec_parse_types :: "string list \<Rightarrow> nsec_error + RecordKind list" where
  "nsec_parse_types [] = Inr []"
| "nsec_parse_types (f # fs) =
     (case kind_parse f of
        None \<Rightarrow> Inl (NsecUnknownType f)
      | Some k \<Rightarrow> (case nsec_parse_types fs of Inl e \<Rightarrow> Inl e | Inr ks \<Rightarrow> Inr (k # ks)))"

definition nsec_parse :: "string \<Rightarrow> nsec_error + nsec" where
  "nsec_parse value =
     (case split_ws value of
        [] \<Rightarrow> Inl NsecEmpty
      | owner # fs \<Rightarrow>
          (case nsec_parse_types fs of
             Inl e \<Rightarrow> Inl e
           | Inr types \<Rightarrow> Inr \<lparr>next_owner = owner, nsec_types = types\<rparr>))"

definition nsec_rdata :: "nsec \<Rightarrow> u8 list option" where
  "nsec_rdata n =
     map_option (\<lambda>out. out @ encode_type_bitmap (remdups_adj (sort (map wire_type (nsec_types n)))))
       (canonical_name (next_owner n))"

definition nsec_covers :: "string \<Rightarrow> string \<Rightarrow> string \<Rightarrow> bool" where
  "nsec_covers owner next_name name =
     (if canonical_name_cmp next_name owner = Greater
      then canonical_name_cmp owner name = Less \<and> canonical_name_cmp name next_name = Less
      else canonical_name_cmp owner name = Less \<or> canonical_name_cmp name next_name = Less)"

subsection \<open>The chain of a zone\<close>

text \<open>\<open>by_name.entry(name).or_default()\<close>, extended by \<open>ks\<close>.\<close>

definition push_types :: "string \<Rightarrow> RecordKind list \<Rightarrow> (string, RecordKind list) table \<Rightarrow> (string, RecordKind list) table" where
  "push_types name ks t =
     AList.update name ((case map_of t name of Some old \<Rightarrow> old | None \<Rightarrow> []) @ ks) t"

definition chain_step :: "string \<Rightarrow> dns_record \<Rightarrow> (string, RecordKind list) table \<Rightarrow> (string, RecordKind list) table" where
  "chain_step apex record by_name =
     (let name = normalize_name (dr_name record)
      in if \<not> name_in_zone name apex then by_name
         else if dr_type record = RRSIG \<or> dr_type record = NSEC then by_name
         else if dr_type record = ANAME then push_types name [] by_name
         else push_types name [dr_type record] by_name)"

definition build_nsec_chain :: "string \<Rightarrow> dns_record list \<Rightarrow> (string \<times> nsec) list" where
  "build_nsec_chain zone records =
     (let apex = normalize_name zone;
          by_name = fold (chain_step apex) records [];
          names = push_types apex [] by_name;
          ordered = sort_by canonical_name_cmp (sort_key bytes_of (map fst names))
      in map (\<lambda>i.
           let owner = ordered ! i;
               nxt = (if Suc i < length ordered then ordered ! Suc i else ordered ! 0);
               types = (case map_of names owner of Some ks \<Rightarrow> ks | None \<Rightarrow> []) @ [NSEC, RRSIG]
           in (owner, \<lparr>next_owner = nxt, nsec_types = types\<rparr>)) [0..<length ordered])"

section \<open>The canonical order\<close>

definition canon_key :: "string \<Rightarrow> u8 list list" where
  "canon_key n = map (\<lambda>l. bytes_of (lower l)) (rev (split_on dot (trim_end_dots n)))"

lemma iter_cmp_cmp: "iter_cmp xs ys = cmp xs ys"
  by (induction xs ys rule: iter_cmp.induct) (auto simp: cmp_def)

lemma labels_loop_cmp:
  "(if labels_loop xs ys \<noteq> Equal then labels_loop xs ys else cmp (length xs) (length ys)) =
     cmp (map (\<lambda>l. bytes_of (lower l)) xs) (map (\<lambda>l. bytes_of (lower l)) ys)"
proof (induction xs ys rule: labels_loop.induct)
  case (1 x xs y ys)
  then show ?case
    by (auto simp: iter_cmp_cmp Let_def cmp_def split: if_splits)
qed (auto simp: cmp_def neq_Nil_conv)

lemma canonical_name_cmp_key: "canonical_name_cmp a b = cmp (canon_key a) (canon_key b)"
  unfolding canonical_name_cmp_def Let_def canon_key_def
  using labels_loop_cmp [of "rev (split_on dot (trim_end_dots a))" "rev (split_on dot (trim_end_dots b))"]
  by simp

lemma cmp_eqs [simp]:
  "cmp x y = Less \<longleftrightarrow> x < y" "cmp x y = Equal \<longleftrightarrow> x = y" "cmp x y = Greater \<longleftrightarrow> y < x"
  for x y :: "'a :: linorder"
  by (auto simp: cmp_def)

lemma sort_by_key:
  assumes "\<And>x y. f x y = cmp (key x) (key y)"
  shows "sort_by f xs = sort_key key xs"
proof -
  have "insort_by f x ys = insort_key key x ys" for x ys
    by (induction ys) (auto simp: assms)
  then have "insort_by f = insort_key key"
    by blast
  then show ?thesis
    by (simp add: sort_by_def sort_key_def)
qed

lemma nsec_covers_key:
  "nsec_covers owner next_name name \<longleftrightarrow>
     (if canon_key owner < canon_key next_name
      then canon_key owner < canon_key name \<and> canon_key name < canon_key next_name
      else canon_key owner < canon_key name \<or> canon_key name < canon_key next_name)"
  by (simp add: nsec_covers_def canonical_name_cmp_key)

section \<open>Rings of keys\<close>

definition ring_covers :: "'a :: linorder \<Rightarrow> 'a \<Rightarrow> 'a \<Rightarrow> bool" where
  "ring_covers a b x = (if a < b then a < x \<and> x < b else a < x \<or> x < b)"

definition ring_next :: "'a list \<Rightarrow> nat \<Rightarrow> 'a" where
  "ring_next ks i = (if Suc i < length ks then ks ! Suc i else ks ! 0)"

lemma strict_sorted_nth_le:
  fixes ks :: "'a :: linorder list"
  shows "sorted_wrt (<) ks \<Longrightarrow> i \<le> j \<Longrightarrow> j < length ks \<Longrightarrow> ks ! i \<le> ks ! j"
  by (cases "i = j") (auto simp: sorted_wrt_iff_nth_less less_imp_le)

lemma ring_covers_inner:
  fixes ks :: "'a :: linorder list"
  assumes "sorted_wrt (<) ks" "Suc i < length ks"
  shows "ring_covers (ks ! i) (ring_next ks i) x \<longleftrightarrow> ks ! i < x \<and> x < ks ! Suc i"
  using assms sorted_wrt_nth_less [OF assms(1), of i "Suc i"]
  by (simp add: ring_covers_def ring_next_def)

lemma ring_covers_last:
  fixes ks :: "'a :: linorder list"
  assumes "sorted_wrt (<) ks" "Suc i = length ks"
  shows "ring_covers (ks ! i) (ring_next ks i) x \<longleftrightarrow> ks ! i < x \<or> x < ks ! 0"
  using assms strict_sorted_nth_le [OF assms(1), of 0 i]
  by (auto simp: ring_covers_def ring_next_def)

lemma ring_covers_unique:
  fixes ks :: "'a :: linorder list"
  assumes s: "sorted_wrt (<) ks" and ij: "i < j" "j < length ks"
    and c: "ring_covers (ks ! i) (ring_next ks i) x" "ring_covers (ks ! j) (ring_next ks j) x"
  shows False
proof -
  have i: "ks ! i < x" "x < ks ! Suc i"
    using c(1) ring_covers_inner [OF s, of i x] ij by auto
  have "ks ! Suc i \<le> ks ! j" "ks ! 0 \<le> ks ! i"
    using ij strict_sorted_nth_le [OF s, of "Suc i" j] strict_sorted_nth_le [OF s, of 0 i] by auto
  with i have "\<not> ks ! j < x" "\<not> x < ks ! 0"
    by auto
  with c(2) ij show False
    using ring_covers_inner [OF s, of j x] ring_covers_last [OF s, of j x]
    by (cases "Suc j < length ks") auto
qed

lemma ring_covers_member:
  fixes ks :: "'a :: linorder list"
  assumes s: "sorted_wrt (<) ks" and i: "i < length ks" and x: "x \<in> set ks"
  shows "\<not> ring_covers (ks ! i) (ring_next ks i) x"
proof -
  obtain j where j: "j < length ks" "x = ks ! j"
    using x by (auto simp: in_set_conv_nth)
  show ?thesis
  proof (cases "Suc i < length ks")
    case True
    have "j \<le> i \<or> Suc i \<le> j"
      by arith
    then have "x \<le> ks ! i \<or> ks ! Suc i \<le> x"
      using strict_sorted_nth_le [OF s] i j True by auto
    then show ?thesis
      using ring_covers_inner [OF s True, of x] by auto
  next
    case False
    then have "Suc i = length ks"
      using i by simp
    moreover have "x \<le> ks ! i" "ks ! 0 \<le> x"
      using strict_sorted_nth_le [OF s] i j False by auto
    ultimately show ?thesis
      using ring_covers_last [OF s, of i x] by auto
  qed
qed

lemma ring_covers_exists:
  fixes ks :: "'a :: linorder list"
  assumes s: "sorted_wrt (<) ks" and ne: "ks \<noteq> []" and x: "x \<notin> set ks"
  shows "\<exists>i<length ks. ring_covers (ks ! i) (ring_next ks i) x"
proof (cases "x < ks ! 0 \<or> ks ! (length ks - 1) < x")
  case True
  then show ?thesis
    using ring_covers_last [OF s, of "length ks - 1" x] ne by (intro exI [of _ "length ks - 1"]) auto
next
  case False
  define I where "I = {i. i < length ks \<and> ks ! i < x}"
  have "ks ! 0 < x" "x < ks ! (length ks - 1)"
    using False ne x by (metis length_greater_0_conv linorder_cases nth_mem)
      (metis False ne x diff_less length_greater_0_conv less_numeral_extra(1) linorder_cases nth_mem)
  then have I: "0 \<in> I" "finite I" "length ks - 1 \<notin> I"
    using ne by (auto simp: I_def)
  define i where "i = Max I"
  have i: "i \<in> I" "Suc i \<notin> I"
    using I Max_in [OF I(2)] Max_ge [OF I(2), of "Suc (Max I)"] unfolding i_def by fastforce+
  then have "i \<noteq> length ks - 1" "i < length ks" "ks ! i < x"
    using I by (auto simp: I_def)
  then have i': "Suc i < length ks"
    by simp
  then have "\<not> ks ! Suc i < x" "ks ! Suc i \<noteq> x"
    using i x by (auto simp: I_def)
  then show ?thesis
    using ring_covers_inner [OF s i', of x] \<open>ks ! i < x\<close> i' by (intro exI [of _ i]) auto
qed

lemma ring_tiles:
  fixes ks :: "'a :: linorder list"
  assumes s: "sorted_wrt (<) ks" and ne: "ks \<noteq> []"
  shows "(\<exists>!i. i < length ks \<and> ring_covers (ks ! i) (ring_next ks i) x) \<longleftrightarrow> x \<notin> set ks"
    and "(\<exists>i<length ks. ring_covers (ks ! i) (ring_next ks i) x) \<longleftrightarrow> x \<notin> set ks"
proof -
  show e: "(\<exists>i<length ks. ring_covers (ks ! i) (ring_next ks i) x) \<longleftrightarrow> x \<notin> set ks"
    using ring_covers_member [OF s] ring_covers_exists [OF s ne] by blast
  have "i = j" if "i < length ks" "ring_covers (ks ! i) (ring_next ks i) x"
      "j < length ks" "ring_covers (ks ! j) (ring_next ks j) x" for i j
    using ring_covers_unique [OF s, of i j x] ring_covers_unique [OF s, of j i x] that
    by (cases i j rule: linorder_cases) auto
  then show "(\<exists>!i. i < length ks \<and> ring_covers (ks ! i) (ring_next ks i) x) \<longleftrightarrow> x \<notin> set ks"
    using e by blast
qed

section \<open>Keys of stored names\<close>

text \<open>A name without an empty label at its end, such as a stray second dot.\<close>

definition single_dot :: "string \<Rightarrow> bool" where
  "single_dot n \<longleftrightarrow> \<not> ends_with (normalize_name n) ''..''"

lemma split_on_sep: "split_on c (p @ c # q) = split_on c p @ split_on c q"
  by (induction p) (auto split: list.splits)

lemma split_on_inject: "split_on c s = split_on c t \<longleftrightarrow> s = t"
  by (metis join_split_on)

lemma map_lower_split: "map lower (split_on dot s) = split_on dot (lower s)"
  by (induction s) (auto split: list.splits simp: neq_Nil_conv)

lemma lower_trim_end_dots: "lower (trim_end_dots s) = trim_end_dots (lower s)"
  by (induction s rule: rev_induct) (auto simp: trim_end_dots_def)

lemma canon_key_lower: "canon_key n = map bytes_of (rev (split_on dot (trim_end_dots (lower n))))"
  by (simp add: canon_key_def lower_trim_end_dots [symmetric] map_lower_split [symmetric] rev_map)

lemma single_dot_trim:
  assumes "single_dot n"
  shows "trim_end_dots (normalize_name n) @ [dot] = normalize_name n"
proof -
  obtain s where s: "normalize_name n = s @ [dot]"
    using normalize_name_last [of n] by (metis append_butlast_last_id)
  have "s = [] \<or> last s \<noteq> dot"
    using assms by (cases s rule: rev_cases) (auto simp: single_dot_def s ends_with_def suffix_def)
  then show ?thesis
    by (simp add: s trim_end_dots_id)
qed

lemma canon_key_inject:
  assumes "single_dot m" "single_dot n"
  shows "canon_key (normalize_name m) = canon_key (normalize_name n) \<longleftrightarrow> normalize_name m = normalize_name n"
proof
  assume "canon_key (normalize_name m) = canon_key (normalize_name n)"
  then have "map bytes_of (split_on dot (trim_end_dots (normalize_name m))) =
      map bytes_of (split_on dot (trim_end_dots (normalize_name n)))"
    by (simp add: canon_key_lower rev_map [symmetric])
  then have "split_on dot (trim_end_dots (normalize_name m)) = split_on dot (trim_end_dots (normalize_name n))"
    by (rule map_injective) (rule injI, rule iffD1 [OF bytes_of_inject])
  then have "trim_end_dots (normalize_name m) = trim_end_dots (normalize_name n)"
    by (rule iffD1 [OF split_on_inject])
  then show "normalize_name m = normalize_name n"
    using single_dot_trim [OF assms(1)] single_dot_trim [OF assms(2)] by metis
qed simp

lemma le_append: "xs \<le> xs @ ys" for xs ys :: "'a :: linorder list"
  by (induction xs) auto

text \<open>The apex of a zone comes before every other name of the zone.\<close>

lemma canon_key_apex:
  assumes z: "name_in_zone n apex" and p: "single_dot n" "single_dot apex"
  shows "canon_key (normalize_name apex) \<le> canon_key (normalize_name n)"
proof (cases "normalize_name n = normalize_name apex")
  case False
  show ?thesis
  proof (cases "normalize_name apex = [dot]")
    case True
    have "[[]] \<le> k" if "k \<noteq> []" for k :: "u8 list list"
      using that by (cases k; cases "hd k") auto
    moreover have "canon_key [dot] = [[]]" "canon_key (normalize_name n) \<noteq> []"
      by (simp_all add: canon_key_def trim_end_dots_def bytes_of_def)
    ultimately show ?thesis
      unfolding True by simp
  next
    case nr: False
    then obtain q where q: "normalize_name n = q @ dot # normalize_name apex"
      using z False by (auto simp: name_in_zone_def Let_def ends_with_def suffix_def)
    have "trim_end_dots (normalize_name n) = q @ dot # trim_end_dots (normalize_name apex)"
      using single_dot_trim [OF p(1)] single_dot_trim [OF p(2)] unfolding q
      by (metis append_Cons append_assoc append_same_eq)
    then have "\<exists>ls. canon_key (normalize_name n) = canon_key (normalize_name apex) @ ls"
      by (simp add: canon_key_def split_on_sep)
    then show ?thesis
      using le_append by auto
  qed
qed simp

section \<open>What the chain holds\<close>

abbreviation types_of :: "(string, RecordKind list) table \<Rightarrow> string \<Rightarrow> RecordKind list" where
  "types_of t n \<equiv> (case map_of t n of Some ks \<Rightarrow> ks | None \<Rightarrow> [])"

text \<open>The records that put their owner on the chain.\<close>

definition chained :: "string \<Rightarrow> dns_record \<Rightarrow> bool" where
  "chained apex r \<longleftrightarrow> name_in_zone (dr_name r) apex \<and> dr_type r \<noteq> RRSIG \<and> dr_type r \<noteq> NSEC"

lemma push_types_props [simp]:
  "types_of (push_types n ks t) m = types_of t m @ (if m = n then ks else [])"
  "fst ` set (push_types n ks t) = insert n (fst ` set t)"
  "wf_table t \<Longrightarrow> wf_table (push_types n ks t)"
  by (simp_all add: push_types_def dom_update)

lemma chain_step_props:
  "types_of (chain_step apex r t) m =
     types_of t m @ (if chained apex r \<and> dr_type r \<noteq> ANAME \<and> normalize_name (dr_name r) = m then [dr_type r] else [])"
  "fst ` set (chain_step apex r t) =
     (if chained apex r then insert (normalize_name (dr_name r)) (fst ` set t) else fst ` set t)"
  "wf_table t \<Longrightarrow> wf_table (chain_step apex r t)"
  by (auto simp: chain_step_def chained_def Let_def)

lemma chain_fold_props:
  "types_of (fold (chain_step apex) rs t) m =
     types_of t m @ map dr_type (filter (\<lambda>r. chained apex r \<and> dr_type r \<noteq> ANAME \<and> normalize_name (dr_name r) = m) rs)"
  "fst ` set (fold (chain_step apex) rs t) =
     fst ` set t \<union> (\<lambda>r. normalize_name (dr_name r)) ` {r \<in> set rs. chained apex r}"
  "wf_table t \<Longrightarrow> wf_table (fold (chain_step apex) rs t)"
proof (induction rs arbitrary: t)
  case (Cons r rs)
  {
    case 1
    show ?case by (simp add: Cons.IH(1) chain_step_props)
  next
    case 2
    show ?case by (auto simp: Cons.IH(2) chain_step_props)
  next
    case 3
    then show ?case by (simp add: Cons.IH(3) chain_step_props)
  }
qed simp_all

text \<open>The owners of the chain in canonical order, and the types each of them lists.\<close>

definition zone_owners :: "string \<Rightarrow> dns_record list \<Rightarrow> string set" where
  "zone_owners zone records =
     insert (normalize_name zone)
       ((\<lambda>r. normalize_name (dr_name r)) ` {r \<in> set records. chained zone r})"

definition owner_list :: "string \<Rightarrow> dns_record list \<Rightarrow> string list" where
  "owner_list zone records =
     sort_key canon_key (sort_key bytes_of (map fst
       (push_types (normalize_name zone) [] (fold (chain_step (normalize_name zone)) records []))))"

definition owner_types :: "string \<Rightarrow> dns_record list \<Rightarrow> string \<Rightarrow> RecordKind list" where
  "owner_types zone records owner =
     map dr_type (filter (\<lambda>r. chained zone r \<and> dr_type r \<noteq> ANAME \<and> normalize_name (dr_name r) = owner) records)
     @ [NSEC, RRSIG]"

lemma chained_normalize [simp]: "chained (normalize_name zone) r = chained zone r"
  by (simp add: chained_def)

lemma build_nsec_chain_eq:
  "build_nsec_chain zone records =
     map (\<lambda>i. (owner_list zone records ! i,
               \<lparr>next_owner = ring_next (owner_list zone records) i,
                nsec_types = owner_types zone records (owner_list zone records ! i)\<rparr>))
         [0..<length (owner_list zone records)]"
  unfolding build_nsec_chain_def Let_def sort_by_key [OF canonical_name_cmp_key] owner_list_def [symmetric]
    ring_next_def [symmetric]
  by (simp add: chain_fold_props owner_types_def)

lemma owner_list_props:
  "set (owner_list zone records) = zone_owners zone records" "distinct (owner_list zone records)"
  "sorted (map canon_key (owner_list zone records))"
proof -
  have "wf_table (push_types (normalize_name zone) [] (fold (chain_step (normalize_name zone)) records []))"
    by (simp add: chain_fold_props)
  then show "distinct (owner_list zone records)"
    by (simp add: owner_list_def wf_table_def)
  show "set (owner_list zone records) = zone_owners zone records"
    by (simp add: owner_list_def chain_fold_props zone_owners_def)
  show "sorted (map canon_key (owner_list zone records))"
    by (simp add: owner_list_def)
qed

lemma owner_normal: "n \<in> zone_owners zone records \<Longrightarrow> normalize_name n = n"
  by (auto simp: zone_owners_def)

lemma owner_proper:
  assumes "single_dot zone" "\<forall>r\<in>set records. single_dot (dr_name r)" "n \<in> zone_owners zone records"
  shows "single_dot n"
  using assms by (auto simp: zone_owners_def single_dot_def)

lemma owner_keys:
  assumes "single_dot zone" "\<forall>r\<in>set records. single_dot (dr_name r)"
  shows "sorted_wrt (<) (map canon_key (owner_list zone records))"
    and "owner_list zone records \<noteq> []" and "owner_list zone records ! 0 = normalize_name zone"
proof -
  note own = owner_list_props [of zone records]
  have inj: "inj_on canon_key (zone_owners zone records)"
    using canon_key_inject owner_proper [OF assms] owner_normal unfolding inj_on_def by metis
  then have "distinct (map canon_key (owner_list zone records))"
    using own by (simp add: distinct_map)
  then show s: "sorted_wrt (<) (map canon_key (owner_list zone records))"
    using own(3) by (simp add: strict_sorted_iff)
  have apex: "normalize_name zone \<in> set (owner_list zone records)"
    unfolding own by (simp add: zone_owners_def)
  then show ne: "owner_list zone records \<noteq> []"
    by auto
  obtain i where i: "i < length (owner_list zone records)" "owner_list zone records ! i = normalize_name zone"
    using apex by (auto simp: in_set_conv_nth)
  have first: "owner_list zone records ! 0 \<in> zone_owners zone records"
    using ne own(1) by (metis length_greater_0_conv nth_mem)
  then have "name_in_zone (owner_list zone records ! 0) zone"
    by (auto simp: zone_owners_def chained_def)
  then have "canon_key (normalize_name zone) \<le> canon_key (owner_list zone records ! 0)"
    using canon_key_apex [of "owner_list zone records ! 0" zone] owner_proper [OF assms first] owner_normal [OF first] assms(1)
    by simp
  moreover have "i \<noteq> 0 \<Longrightarrow> canon_key (owner_list zone records ! 0) < canon_key (normalize_name zone)"
    using sorted_wrt_nth_less [OF s, of 0 i] i ne by (simp add: nth_map [of 0])
  ultimately show "owner_list zone records ! 0 = normalize_name zone"
    using i by (cases "i = 0") auto
qed

lemma ring_next_map: "i < length xs \<Longrightarrow> ring_next (map f xs) i = f (ring_next xs i)"
  by (cases xs) (auto simp: ring_next_def)

lemma set_nsec_chain:
  "set (build_nsec_chain zone records) =
     (\<lambda>i. (owner_list zone records ! i,
           \<lparr>next_owner = ring_next (owner_list zone records) i,
            nsec_types = owner_types zone records (owner_list zone records ! i)\<rparr>)) ` {i. i < length (owner_list zone records)}"
  by (auto simp: build_nsec_chain_eq)

lemma ex1_image:
  assumes "\<And>i j. f i = f j \<Longrightarrow> i < m \<Longrightarrow> j < m \<Longrightarrow> i = j" "\<And>i. i < m \<Longrightarrow> P (f i) = Q i"
  shows "(\<exists>!y. y \<in> f ` {i. i < m} \<and> P y) \<longleftrightarrow> (\<exists>!i. i < (m :: nat) \<and> Q i)"
proof
  assume "\<exists>!y. y \<in> f ` {i. i < m} \<and> P y"
  then obtain y where y: "y \<in> f ` {i. i < m}" "P y" "\<And>z. z \<in> f ` {i. i < m} \<Longrightarrow> P z \<Longrightarrow> z = y"
    by auto
  from y(1) obtain i where "i < m" "y = f i"
    by auto
  show "\<exists>!i. i < m \<and> Q i"
  proof (rule ex1I [of _ i])
    show "i < m \<and> Q i"
      using \<open>i < m\<close> \<open>y = f i\<close> y(2) assms(2) by simp
    show "j = i" if "j < m \<and> Q j" for j
      using that assms(2) [of j] y(3) [of "f j"] \<open>y = f i\<close> by (intro assms(1) \<open>i < m\<close>) auto
  qed
next
  assume "\<exists>!i. i < m \<and> Q i"
  then obtain i where i: "i < m" "Q i" and u: "\<forall>j. j < m \<and> Q j \<longrightarrow> j = i"
    by (auto simp: Ex1_def)
  show "\<exists>!y. y \<in> f ` {i. i < m} \<and> P y"
  proof (rule ex1I [of _ "f i"])
    show "f i \<in> f ` {i. i < m} \<and> P (f i)"
      using i assms(2) by simp
    show "y = f i" if y: "y \<in> f ` {i. i < m} \<and> P y" for y
    proof -
      obtain j where "j < m" "y = f j"
        using y by auto
      then have "j = i"
        using y u assms(2) by blast
      with \<open>y = f j\<close> show ?thesis by simp
    qed
  qed
qed

lemma nsec_chain_covers:
  assumes "single_dot zone" "\<forall>r\<in>set records. single_dot (dr_name r)"
  shows "(\<exists>!link. link \<in> set (build_nsec_chain zone records) \<and> nsec_covers (fst link) (next_owner (snd link)) n) \<longleftrightarrow>
           (\<forall>owner\<in>zone_owners zone records. canonical_name_cmp owner n \<noteq> Equal)"
    and "(\<exists>link\<in>set (build_nsec_chain zone records). nsec_covers (fst link) (next_owner (snd link)) n) \<longleftrightarrow>
           (\<forall>owner\<in>zone_owners zone records. canonical_name_cmp owner n \<noteq> Equal)"
proof -
  let ?os = "owner_list zone records"
  let ?link = "\<lambda>i. (?os ! i, \<lparr>next_owner = ring_next ?os i, nsec_types = owner_types zone records (?os ! i)\<rparr>)"
  let ?C = "\<lambda>i. ring_covers (map canon_key ?os ! i) (ring_next (map canon_key ?os) i) (canon_key n)"
  note keys = owner_keys [OF assms]
  have c: "nsec_covers (fst (?link i)) (next_owner (snd (?link i))) n \<longleftrightarrow> ?C i" if "i < length ?os" for i
    using that by (simp add: nsec_covers_key ring_covers_def ring_next_map)
  have out: "canon_key n \<notin> set (map canon_key ?os) \<longleftrightarrow>
      (\<forall>owner\<in>zone_owners zone records. canonical_name_cmp owner n \<noteq> Equal)"
    unfolding set_map owner_list_props(1) canonical_name_cmp_key cmp_eqs by (force simp: image_iff)
  have tiles: "(\<exists>!i. i < length ?os \<and> ?C i) \<longleftrightarrow> canon_key n \<notin> set (map canon_key ?os)"
    "(\<exists>i<length ?os. ?C i) \<longleftrightarrow> canon_key n \<notin> set (map canon_key ?os)"
    using ring_tiles [OF keys(1), of "canon_key n"] keys(2) by simp_all
  have inj: "?link i = ?link j \<Longrightarrow> i < length ?os \<Longrightarrow> j < length ?os \<Longrightarrow> i = j" for i j
    by (simp add: nth_eq_iff_index_eq owner_list_props(2))
  have S: "set (build_nsec_chain zone records) = ?link ` {i. i < length ?os}"
    by (rule set_nsec_chain)
  show "(\<exists>link\<in>set (build_nsec_chain zone records). nsec_covers (fst link) (next_owner (snd link)) n) \<longleftrightarrow>
           (\<forall>owner\<in>zone_owners zone records. canonical_name_cmp owner n \<noteq> Equal)"
    unfolding out [symmetric] tiles(2) [symmetric] S using c by blast
  have "(\<exists>!link. link \<in> ?link ` {i. i < length ?os} \<and> nsec_covers (fst link) (next_owner (snd link)) n) \<longleftrightarrow>
      (\<exists>!i. i < length ?os \<and> ?C i)"
    by (rule ex1_image [where f = ?link and P = "\<lambda>link. nsec_covers (fst link) (next_owner (snd link)) n", OF inj c])
  then show "(\<exists>!link. link \<in> set (build_nsec_chain zone records) \<and> nsec_covers (fst link) (next_owner (snd link)) n) \<longleftrightarrow>
           (\<forall>owner\<in>zone_owners zone records. canonical_name_cmp owner n \<noteq> Equal)"
    unfolding out [symmetric] tiles(1) [symmetric] S .
qed

lemma nsec_chain_owners: "fst ` set (build_nsec_chain zone records) = zone_owners zone records"
  unfolding owner_list_props(1) [symmetric] set_nsec_chain by (auto simp: set_conv_nth image_iff)

lemma nsec_chain_types:
  "\<forall>(owner, link)\<in>set (build_nsec_chain zone records).
     set (nsec_types link) =
       {NSEC, RRSIG} \<union> {dr_type r | r. r \<in> set records \<and> chained zone r \<and> dr_type r \<noteq> ANAME \<and>
                                        normalize_name (dr_name r) = owner}"
  unfolding set_nsec_chain by (auto simp: owner_types_def)

text \<open>
  C29: the NSEC chain of a zone tiles the name space. Its owners are exactly the apex and the names of
  the zone that hold records other than signatures and old chain records; each owner lists exactly the
  types stored at it, with NSEC and RRSIG; the ring closes at the apex; every name that is not an owner
  is covered by exactly one link; and no link denies an owner.
\<close>

theorem nsec_chain_tiles:
  assumes "single_dot zone" "\<forall>r\<in>set records. single_dot (dr_name r)"
  shows "fst ` set (build_nsec_chain zone records) = zone_owners zone records \<and>
    (\<forall>(owner, link)\<in>set (build_nsec_chain zone records).
       set (nsec_types link) =
         {NSEC, RRSIG} \<union> {dr_type r | r. r \<in> set records \<and> chained zone r \<and> dr_type r \<noteq> ANAME \<and>
                                          normalize_name (dr_name r) = owner}) \<and>
    next_owner (snd (last (build_nsec_chain zone records))) = normalize_name zone \<and>
    ((\<exists>!link. link \<in> set (build_nsec_chain zone records) \<and> nsec_covers (fst link) (next_owner (snd link)) n) \<longleftrightarrow>
       (\<forall>owner\<in>zone_owners zone records. canonical_name_cmp owner n \<noteq> Equal)) \<and>
    ((\<exists>link\<in>set (build_nsec_chain zone records). nsec_covers (fst link) (next_owner (snd link)) n) \<longleftrightarrow>
       (\<forall>owner\<in>zone_owners zone records. canonical_name_cmp owner n \<noteq> Equal))"
proof -
  have "next_owner (snd (last (build_nsec_chain zone records))) = normalize_name zone"
    using owner_keys [OF assms] by (simp add: build_nsec_chain_eq last_map ring_next_def)
  then show ?thesis
    by (intro conjI nsec_chain_owners nsec_chain_types nsec_chain_covers [OF assms])
qed

definition sample_zone :: "dns_record list" where
  "sample_zone =
     [\<lparr>dr_id = None, dr_name = ''example.com.'', dr_type = SOA, dr_value = [], dr_ttl = 300, dr_priority = 0\<rparr>,
      \<lparr>dr_id = None, dr_name = ''WWW.example.com.'', dr_type = A, dr_value = ''192.0.2.1'', dr_ttl = 300, dr_priority = 0\<rparr>,
      \<lparr>dr_id = None, dr_name = ''mail.example.com.'', dr_type = A, dr_value = ''192.0.2.2'', dr_ttl = 300, dr_priority = 0\<rparr>]"

theorem nsec_chain_tiles_witness:
  "build_nsec_chain ''example.com'' sample_zone =
     [(''example.com.'', \<lparr>next_owner = ''mail.example.com.'', nsec_types = [SOA, NSEC, RRSIG]\<rparr>),
      (''mail.example.com.'', \<lparr>next_owner = ''www.example.com.'', nsec_types = [A, NSEC, RRSIG]\<rparr>),
      (''www.example.com.'', \<lparr>next_owner = ''example.com.'', nsec_types = [A, NSEC, RRSIG]\<rparr>)] \<and>
   (\<exists>!link. link \<in> set (build_nsec_chain ''example.com'' sample_zone) \<and>
            nsec_covers (fst link) (next_owner (snd link)) ''nothere.example.com.'')"
proof -
  have h: "single_dot ''example.com''" "\<forall>r\<in>set sample_zone. single_dot (dr_name r)"
    "\<forall>owner\<in>zone_owners ''example.com'' sample_zone. canonical_name_cmp owner ''nothere.example.com.'' \<noteq> Equal"
    by code_simp+
  have c: "build_nsec_chain ''example.com'' sample_zone =
     [(''example.com.'', \<lparr>next_owner = ''mail.example.com.'', nsec_types = [SOA, NSEC, RRSIG]\<rparr>),
      (''mail.example.com.'', \<lparr>next_owner = ''www.example.com.'', nsec_types = [A, NSEC, RRSIG]\<rparr>),
      (''www.example.com.'', \<lparr>next_owner = ''example.com.'', nsec_types = [A, NSEC, RRSIG]\<rparr>)]"
    by code_simp
  show ?thesis
    using c nsec_chain_tiles [OF h(1,2), THEN conjunct2, THEN conjunct2, THEN conjunct2, THEN conjunct1, THEN iffD2, OF h(3)]
    by (rule conjI)
qed

end
