(* ===== verification/Svcb.thy ===== *)
theory Svcb
  imports Wire "HOL-Library.Multiset"
begin

text \<open>
  SVCB and HTTPS record values (\<open>src/src/svcb.rs\<close>): the strict parser of the stored presentation
  format with every rejection it makes, and the designation records by which a resolver announces its
  encrypted endpoints.

  Of the DNS library the parser uses the name parser \<open>name_of\<close>, the root name and the numbering
  \<open>code\<close> of parameter keys; \<open>svc_codes\<close> is what RFC 9460 fixes of the latter.
\<close>

datatype SvcParamKey = KeyAlpn | KeyNoDefaultAlpn | KeyPort | KeyUnknown u16

datatype SvcParamValue = Alpn "string list" | NoDefaultAlpn | Port u16 | UnknownValue "u8 list"

record 'n svcb =
  svc_priority :: u16
  svc_target :: 'n
  svc_params :: "(SvcParamKey \<times> SvcParamValue) list"

datatype svcb_error =
  NoPriority | BadPriority | NoTarget | BadTarget
| AlpnNeedsValue | AlpnEmpty | TakesNoValue | PortNeedsValue | BadPort
| DohpathNeedsValue | DohpathNotRooted | UnknownParameter | BadKeyNumber
| AliasWithParams | DuplicateKey

definition DDR_DESIGNATION_NAME :: string where
  "DDR_DESIGNATION_NAME = ''_dns.resolver.arpa.''"

definition SVC_PARAM_KEY_DOHPATH :: u16 where
  "SVC_PARAM_KEY_DOHPATH = 7"

definition parse_u16 :: "string \<Rightarrow> u16 option" where
  "parse_u16 s = map_option of_nat (parse_uint 65535 s)"

definition parse_target :: "(string \<Rightarrow> 'n option) \<Rightarrow> 'n \<Rightarrow> string \<Rightarrow> svcb_error + 'n" where
  "parse_target name_of root raw =
     (if raw = [dot] then Inr root
      else case name_of raw of Some n \<Rightarrow> Inr n | None \<Rightarrow> Inl BadTarget)"

definition parse_param :: "string \<Rightarrow> string option \<Rightarrow> svcb_error + SvcParamKey \<times> SvcParamValue" where
  "parse_param key val =
     (if key = ''alpn'' then
        (case val of
           None \<Rightarrow> Inl AlpnNeedsValue
         | Some v \<Rightarrow>
             (let tokens = filter (\<lambda>t. t \<noteq> []) (split_on (CHR '','') v)
              in if tokens = [] then Inl AlpnEmpty else Inr (KeyAlpn, Alpn tokens)))
      else if key = ''no-default-alpn'' then
        (if val \<noteq> None then Inl TakesNoValue else Inr (KeyNoDefaultAlpn, NoDefaultAlpn))
      else if key = ''port'' then
        (case val of
           None \<Rightarrow> Inl PortNeedsValue
         | Some v \<Rightarrow> (case parse_u16 v of None \<Rightarrow> Inl BadPort | Some p \<Rightarrow> Inr (KeyPort, Port p)))
      else if key = ''dohpath'' then
        (case val of
           None \<Rightarrow> Inl DohpathNeedsValue
         | Some v \<Rightarrow>
             if \<not> starts_with v ''/'' then Inl DohpathNotRooted
             else Inr (KeyUnknown SVC_PARAM_KEY_DOHPATH, UnknownValue (bytes_of v)))
      else
        (case strip_prefix ''key'' key of
           None \<Rightarrow> Inl UnknownParameter
         | Some num \<Rightarrow>
             (case parse_u16 num of
                None \<Rightarrow> Inl BadKeyNumber
              | Some n \<Rightarrow> Inr (KeyUnknown n, UnknownValue (case val of Some v \<Rightarrow> bytes_of v | None \<Rightarrow> [])))))"

definition split_param :: "string \<Rightarrow> string \<times> string option" where
  "split_param field =
     (case split_once (CHR ''='') field of Some (k, v) \<Rightarrow> (k, Some v) | None \<Rightarrow> (field, None))"

fun parse_params :: "string list \<Rightarrow> svcb_error + (SvcParamKey \<times> SvcParamValue) list" where
  "parse_params [] = Inr []"
| "parse_params (field # fs) =
     (case parse_param (fst (split_param field)) (snd (split_param field)) of
        Inl e \<Rightarrow> Inl e
      | Inr p \<Rightarrow> (case parse_params fs of Inl e \<Rightarrow> Inl e | Inr ps \<Rightarrow> Inr (p # ps)))"

text \<open>\<open>windows(2)\<close> with equal neighbours.\<close>

fun adjacent_equal :: "'a list \<Rightarrow> bool" where
  "adjacent_equal (x # y # zs) \<longleftrightarrow> x = y \<or> adjacent_equal (y # zs)"
| "adjacent_equal _ \<longleftrightarrow> False"

definition svcb_parse ::
  "(string \<Rightarrow> 'n option) \<Rightarrow> 'n \<Rightarrow> (SvcParamKey \<Rightarrow> u16) \<Rightarrow> string \<Rightarrow> svcb_error + 'n svcb" where
  "svcb_parse name_of root code value =
     (case split_ws value of
        [] \<Rightarrow> Inl NoPriority
      | p # rest \<Rightarrow>
          (case parse_u16 p of
             None \<Rightarrow> Inl BadPriority
           | Some priority \<Rightarrow>
               (case rest of
                  [] \<Rightarrow> Inl NoTarget
                | t # fs \<Rightarrow>
                    (case parse_target name_of root t of
                       Inl e \<Rightarrow> Inl e
                     | Inr target \<Rightarrow>
                         (case parse_params fs of
                            Inl e \<Rightarrow> Inl e
                          | Inr params \<Rightarrow>
                              if priority = 0 \<and> params \<noteq> [] then Inl AliasWithParams
                              else (let sorted = sort_key (\<lambda>p. code (fst p)) params
                                    in if adjacent_equal (map (\<lambda>p. code (fst p)) sorted) then Inl DuplicateKey
                                       else Inr \<lparr>svc_priority = priority, svc_target = target,
                                                 svc_params = sorted\<rparr>))))))"

definition svcb_canonical_rdata ::
  "(string \<Rightarrow> 'n option) \<Rightarrow> 'n \<Rightarrow> (SvcParamKey \<Rightarrow> u16) \<Rightarrow> ('n svcb \<Rightarrow> u8 list option) \<Rightarrow> string \<Rightarrow> u8 list option" where
  "svcb_canonical_rdata name_of root code emit value =
     (case svcb_parse name_of root code value of Inl _ \<Rightarrow> None | Inr svcb \<Rightarrow> emit svcb)"

definition designation ::
  "string \<Rightarrow> (u16 \<times> string \<times> bool) option \<Rightarrow> u16 option \<Rightarrow> u16 option \<Rightarrow> string list" where
  "designation name doh dot_port doq =
     (let p0 = (1 :: u16);
          out1 = (case doh of
                    Some (port, path, http3) \<Rightarrow>
                      [show_nat (unat p0) @ '' '' @ name @ '' alpn='' @ (if http3 then ''h2,h3'' else ''h2'')
                         @ '' port='' @ show_nat (unat port) @ '' dohpath='' @ path]
                  | None \<Rightarrow> []);
          p1 = (if doh = None then p0 else p0 + 1);
          out2 = (case dot_port of
                    Some port \<Rightarrow> [show_nat (unat p1) @ '' '' @ name @ '' alpn=dot port='' @ show_nat (unat port)]
                  | None \<Rightarrow> []);
          p2 = (if dot_port = None then p1 else p1 + 1);
          out3 = (case doq of
                    Some port \<Rightarrow> [show_nat (unat p2) @ '' '' @ name @ '' alpn=doq port='' @ show_nat (unat port)]
                  | None \<Rightarrow> [])
      in out1 @ out2 @ out3)"

text \<open>The numbers RFC 9460 assigns to the keys.\<close>

definition svc_codes :: "(SvcParamKey \<Rightarrow> u16) \<Rightarrow> bool" where
  "svc_codes code \<longleftrightarrow> code KeyAlpn = 1 \<and> code KeyNoDefaultAlpn = 2 \<and> code KeyPort = 3 \<and> (\<forall>n. code (KeyUnknown n) = n)"

text \<open>What a designation announces: one service per transport, in order of preference.\<close>

definition designated ::
  "'n \<Rightarrow> (u16 \<times> string \<times> bool) option \<Rightarrow> u16 option \<Rightarrow> u16 option \<Rightarrow> 'n svcb list" where
  "designated n doh dot_port doq =
     (case doh of
        Some (port, path, http3) \<Rightarrow>
          [\<lparr>svc_priority = 1, svc_target = n,
            svc_params = [(KeyAlpn, Alpn (if http3 then [''h2'', ''h3''] else [''h2''])), (KeyPort, Port port),
                          (KeyUnknown SVC_PARAM_KEY_DOHPATH, UnknownValue (bytes_of path))]\<rparr>]
      | None \<Rightarrow> [])
     @ (case dot_port of
          Some port \<Rightarrow>
            [\<lparr>svc_priority = (if doh = None then 1 else 2), svc_target = n,
              svc_params = [(KeyAlpn, Alpn [''dot'']), (KeyPort, Port port)]\<rparr>]
        | None \<Rightarrow> [])
     @ (case doq of
          Some port \<Rightarrow>
            [\<lparr>svc_priority = 1 + (if doh = None then 0 else 1) + (if dot_port = None then 0 else 1), svc_target = n,
              svc_params = [(KeyAlpn, Alpn [''doq'']), (KeyPort, Port port)]\<rparr>]
        | None \<Rightarrow> [])"

section \<open>What the parser accepts\<close>

lemma sorted_no_adjacent_equal:
  fixes xs :: "'a :: linorder list"
  shows "sorted xs \<Longrightarrow> \<not> adjacent_equal xs \<Longrightarrow> sorted_wrt (<) xs"
  by (induction xs rule: induct_list012) (auto simp: order.strict_iff_order)

lemma strictly_sorted_no_adjacent_equal:
  fixes xs :: "'a :: linorder list"
  shows "sorted_wrt (<) xs \<Longrightarrow> \<not> adjacent_equal xs"
  by (induction xs rule: induct_list012) auto

text \<open>The sorted parameters pass the neighbour test exactly when they are the one strictly sorted permutation.\<close>

lemma sorted_params_iff:
  fixes code :: "'k \<Rightarrow> 'c :: linorder" and ps qs :: "('k \<times> 'v) list"
  shows "\<not> adjacent_equal (map (\<lambda>p. code (fst p)) (sort_key (\<lambda>p. code (fst p)) ps)) \<and>
           qs = sort_key (\<lambda>p. code (fst p)) ps \<longleftrightarrow>
         mset qs = mset ps \<and> sorted_wrt (<) (map (\<lambda>p. code (fst p)) qs)" (is "?L \<longleftrightarrow> ?R")
proof
  show "?L \<Longrightarrow> ?R"
    by (auto intro: sorted_no_adjacent_equal)
next
  assume r: ?R
  then have "sorted (map (\<lambda>p. code (fst p)) qs)" "distinct (map (\<lambda>p. code (fst p)) qs)"
    by (auto simp: strict_sorted_iff)
  moreover from this(2) have "inj_on (\<lambda>p. code (fst p)) (set ps)"
    using r mset_eq_setD [of qs ps] by (simp add: distinct_map)
  ultimately have "sort_key (\<lambda>p. code (fst p)) ps = qs"
    using r by (intro sort_key_inj_key_eq) simp_all
  then show ?L
    using r strictly_sorted_no_adjacent_equal by auto
qed

section \<open>Designations parse\<close>

lemma parse_u16_show [simp]: "parse_u16 (show_nat (unat (x :: u16))) = Some x"
proof -
  have "unat x \<le> 65535"
    using unsigned_less [of x, where 'a = nat] by simp
  then show ?thesis
    by (simp add: parse_u16_def parse_uint_show)
qed

lemma parse_u16_1 [simp]: "parse_u16 ''1'' = Some 1" and parse_u16_2 [simp]: "parse_u16 ''2'' = Some 2"
  and parse_u16_3 [simp]: "parse_u16 ''3'' = Some 3"
  by code_simp+

lemma split_once_absent: "c \<notin> set k \<Longrightarrow> split_once c (k @ c # v) = Some (k, v)"
  by (induction k) auto

lemma split_param_eq:
  "split_param (''alpn='' @ v) = (''alpn'', Some v)" "split_param (''port='' @ v) = (''port'', Some v)"
  "split_param (''dohpath='' @ v) = (''dohpath'', Some v)"
  using split_once_absent [of "CHR ''=''" "''alpn''" v] split_once_absent [of "CHR ''=''" "''port''" v]
    split_once_absent [of "CHR ''=''" "''dohpath''" v]
  by (simp_all add: split_param_def)

lemma designation_fields:
  assumes "is_field p" "is_field name" "is_field a" "is_field q"
  shows "split_ws (p @ '' '' @ name @ '' alpn='' @ a @ '' port='' @ q) = [p, name, ''alpn='' @ a, ''port='' @ q]"
    and "is_field path \<Longrightarrow>
      split_ws (p @ '' '' @ name @ '' alpn='' @ a @ '' port='' @ q @ '' dohpath='' @ path) =
        [p, name, ''alpn='' @ a, ''port='' @ q, ''dohpath='' @ path]"
proof -
  have k: "is_field (''alpn='' @ a)" "is_field (''port='' @ q)" "is_field path \<Longrightarrow> is_field (''dohpath='' @ path)"
    using assms by (auto simp: is_field_def is_ws_def)
  show "split_ws (p @ '' '' @ name @ '' alpn='' @ a @ '' port='' @ q) = [p, name, ''alpn='' @ a, ''port='' @ q]"
    using split_ws_join [of "[p, name, ''alpn='' @ a, ''port='' @ q]"] assms k by simp
  show "is_field path \<Longrightarrow>
      split_ws (p @ '' '' @ name @ '' alpn='' @ a @ '' port='' @ q @ '' dohpath='' @ path) =
        [p, name, ''alpn='' @ a, ''port='' @ q, ''dohpath='' @ path]"
    using split_ws_join [of "[p, name, ''alpn='' @ a, ''port='' @ q, ''dohpath='' @ path]"] assms k by simp
qed

lemma alpn_tokens:
  "split_on (CHR '','') ''h2,h3'' = [''h2'', ''h3'']" "split_on (CHR '','') ''h2'' = [''h2'']"
  "split_on (CHR '','') ''dot'' = [''dot'']" "split_on (CHR '','') ''doq'' = [''doq'']"
  by code_simp+

lemma is_field_literals:
  "is_field ''1''" "is_field ''2''" "is_field ''3''" "is_field ''h2,h3''" "is_field ''h2''" "is_field ''dot''"
  "is_field ''doq''"
  by code_simp+

lemma show_small: "show_nat 1 = ''1''" "show_nat 2 = ''2''" "show_nat 3 = ''3''" "show_nat (Suc 0) = ''1''"
  by code_simp+

lemma parse_param_alpn:
  "filter (\<lambda>t. t \<noteq> []) (split_on (CHR '','') v) \<noteq> [] \<Longrightarrow>
    parse_param ''alpn'' (Some v) = Inr (KeyAlpn, Alpn (filter (\<lambda>t. t \<noteq> []) (split_on (CHR '','') v)))"
  by (simp add: parse_param_def Let_def)

lemma parse_param_port: "parse_param ''port'' (Some (show_nat (unat (q :: u16)))) = Inr (KeyPort, Port q)"
  by (simp add: parse_param_def)

lemma parse_param_dohpath:
  "parse_param ''dohpath'' (Some (CHR ''/'' # v)) =
     Inr (KeyUnknown SVC_PARAM_KEY_DOHPATH, UnknownValue (bytes_of (CHR ''/'' # v)))"
  by (simp add: parse_param_def starts_with_def)

lemma designation_entry:
  assumes codes: "svc_codes code" and n: "name_of name = Some n" "name \<noteq> [dot]" "is_field name"
    and p: "is_field p" "parse_u16 p = Some prio" "prio \<noteq> 0" and a: "is_field a"
    and t: "filter (\<lambda>t. t \<noteq> []) (split_on (CHR '','') a) = toks" "toks \<noteq> []"
  shows "svcb_parse name_of root code
           (p @ '' '' @ name @ '' alpn='' @ a @ '' port='' @ show_nat (unat (q :: u16))) =
         Inr \<lparr>svc_priority = prio, svc_target = n, svc_params = [(KeyAlpn, Alpn toks), (KeyPort, Port q)]\<rparr>"
    and "is_field (CHR ''/'' # path) \<Longrightarrow>
         svcb_parse name_of root code
           (p @ '' '' @ name @ '' alpn='' @ a @ '' port='' @ show_nat (unat q) @ '' dohpath='' @ CHR ''/'' # path) =
         Inr \<lparr>svc_priority = prio, svc_target = n,
              svc_params = [(KeyAlpn, Alpn toks), (KeyPort, Port q),
                            (KeyUnknown SVC_PARAM_KEY_DOHPATH, UnknownValue (bytes_of (CHR ''/'' # path)))]\<rparr>"
proof -
  have tok: "parse_param ''alpn'' (Some a) = Inr (KeyAlpn, Alpn toks)"
    using parse_param_alpn [of a] t by simp
  have target: "parse_target name_of root name = Inr n"
    using n by (simp add: parse_target_def)
  have code: "code KeyAlpn = 1" "code KeyPort = 3" "code (KeyUnknown SVC_PARAM_KEY_DOHPATH) = 7"
    using codes by (simp_all add: svc_codes_def SVC_PARAM_KEY_DOHPATH_def)
  have params: "parse_params [''alpn='' @ a, ''port='' @ show_nat (unat q)] = Inr [(KeyAlpn, Alpn toks), (KeyPort, Port q)]"
    "parse_params [''alpn='' @ a, ''port='' @ show_nat (unat q), ''dohpath='' @ CHR ''/'' # path] =
       Inr [(KeyAlpn, Alpn toks), (KeyPort, Port q),
            (KeyUnknown SVC_PARAM_KEY_DOHPATH, UnknownValue (bytes_of (CHR ''/'' # path)))]"
    unfolding parse_params.simps split_param_eq fst_conv snd_conv tok parse_param_port parse_param_dohpath
    by simp_all
  show "svcb_parse name_of root code
           (p @ '' '' @ name @ '' alpn='' @ a @ '' port='' @ show_nat (unat (q :: u16))) =
         Inr \<lparr>svc_priority = prio, svc_target = n, svc_params = [(KeyAlpn, Alpn toks), (KeyPort, Port q)]\<rparr>"
    unfolding svcb_parse_def designation_fields(1) [OF p(1) n(3) a field_show_nat] list.case p(2) option.case
      target sum.case params
    using p(3) by (simp add: code Let_def)
  assume path: "is_field (CHR ''/'' # path)"
  show "svcb_parse name_of root code
           (p @ '' '' @ name @ '' alpn='' @ a @ '' port='' @ show_nat (unat q) @ '' dohpath='' @ CHR ''/'' # path) =
         Inr \<lparr>svc_priority = prio, svc_target = n,
              svc_params = [(KeyAlpn, Alpn toks), (KeyPort, Port q),
                            (KeyUnknown SVC_PARAM_KEY_DOHPATH, UnknownValue (bytes_of (CHR ''/'' # path)))]\<rparr>"
    unfolding svcb_parse_def designation_fields(2) [OF p(1) n(3) a field_show_nat path] list.case p(2) option.case
      target sum.case params
    using p(3) by (simp add: code Let_def)
qed

lemma designation_doh_parses:
  assumes "svc_codes code" and "name_of name = Some n" "name \<noteq> [dot]" "is_field name"
    and "is_field path \<and> starts_with path ''/''"
  shows "svcb_parse name_of root code
      (show_nat (unat (1 :: u16)) @ '' '' @ name @ '' alpn='' @ (if http3 then ''h2,h3'' else ''h2'')
         @ '' port='' @ show_nat (unat port) @ '' dohpath='' @ path) =
    Inr \<lparr>svc_priority = 1, svc_target = n,
         svc_params = [(KeyAlpn, Alpn (if http3 then [''h2'', ''h3''] else [''h2''])), (KeyPort, Port port),
                       (KeyUnknown SVC_PARAM_KEY_DOHPATH, UnknownValue (bytes_of path))]\<rparr>"
proof -
  note entry = designation_entry(2) [where name_of = name_of and name = name and n = n and code = code and root = root
      and q = port, OF assms(1-4) is_field_literals(1) parse_u16_1]
  obtain v where v: "path = CHR ''/'' # v" "is_field (CHR ''/'' # v)"
    using assms(5) by (cases path) (auto simp: starts_with_def)
  show ?thesis
    using entry [where toks = "[''h2'', ''h3'']", OF _ is_field_literals(4) _ _ v(2)]
      entry [where toks = "[''h2'']", OF _ is_field_literals(5) _ _ v(2)]
    by (cases http3) (simp_all add: v(1) show_small alpn_tokens)
qed

lemma designation_plain_parses:
  assumes "svc_codes code" and "name_of name = Some n" "name \<noteq> [dot]" "is_field name"
    and "a = ''dot'' \<or> a = ''doq''" "p \<noteq> 0"
  shows "svcb_parse name_of root code
      (show_nat (unat (p :: u16)) @ '' '' @ name @ '' alpn='' @ a @ '' port='' @ show_nat (unat port)) =
    Inr \<lparr>svc_priority = p, svc_target = n, svc_params = [(KeyAlpn, Alpn [a]), (KeyPort, Port port)]\<rparr>"
  using assms(5) is_field_literals alpn_tokens
    designation_entry(1) [where name_of = name_of and name = name and n = n and code = code and root = root
      and a = a and toks = "[a]" and q = port, OF assms(1-4) field_show_nat [of "unat p"] parse_u16_show assms(6)]
  by auto

lemma designation_values:
  "designation name doh dot_port doq =
     (case doh of
        Some (port, path, http3) \<Rightarrow>
          [show_nat (unat (1 :: u16)) @ '' '' @ name @ '' alpn='' @ (if http3 then ''h2,h3'' else ''h2'')
             @ '' port='' @ show_nat (unat port) @ '' dohpath='' @ path]
      | None \<Rightarrow> []) @
     (case dot_port of
        Some port \<Rightarrow>
          [show_nat (unat (if doh = None then 1 else 2 :: u16)) @ '' '' @ name @ '' alpn='' @ ''dot'' @ '' port=''
             @ show_nat (unat port)]
      | None \<Rightarrow> []) @
     (case doq of
        Some port \<Rightarrow>
          [show_nat (unat (1 + (if doh = None then 0 else 1) + (if dot_port = None then 0 else 1) :: u16))
             @ '' '' @ name @ '' alpn='' @ ''doq'' @ '' port='' @ show_nat (unat port)]
      | None \<Rightarrow> [])"
  by (cases doh; cases dot_port; cases doq) (simp_all add: designation_def Let_def)

text \<open>
  C39: the values \<open>designation\<close> writes are values \<open>parse\<close> reads, and what it reads is one service per
  configured transport (DNS over HTTPS, then TLS, then QUIC) on the configured port, with priorities
  counting up from 1, and for HTTPS the configured path.
\<close>

theorem designation_parses:
  assumes "svc_codes code" and "name_of name = Some n" "name \<noteq> [dot]" "is_field name"
    and "\<forall>port path http3. doh = Some (port, path, http3) \<longrightarrow> is_field path \<and> starts_with path ''/''"
  shows "map (svcb_parse name_of root code) (designation name doh dot_port doq) =
           map Inr (designated n doh dot_port doq)"
proof -
  note d = designation_plain_parses [where name_of = name_of and root = root, OF assms(1-4)]
  have h: "map (svcb_parse name_of root code)
      (case doh of
         Some (port, path, http3) \<Rightarrow>
           [show_nat (unat (1 :: u16)) @ '' '' @ name @ '' alpn='' @ (if http3 then ''h2,h3'' else ''h2'')
              @ '' port='' @ show_nat (unat port) @ '' dohpath='' @ path]
       | None \<Rightarrow> []) = map Inr (designated n doh None None)"
    using designation_doh_parses [where name_of = name_of and root = root, OF assms(1-4)] assms(5)
    by (simp add: designated_def split: option.split prod.split)
  show ?thesis
    unfolding designation_values map_append h
    using d [of "''dot''" 1] d [of "''dot''" 2] d [of "''doq''" 1] d [of "''doq''" 2] d [of "''doq''" 3]
    by (cases doh; cases dot_port; cases doq) (simp_all add: designated_def)
qed

theorem designation_parses_witness:
  "map (svcb_parse Some '''' (\<lambda>k. case k of KeyAlpn \<Rightarrow> 1 | KeyNoDefaultAlpn \<Rightarrow> 2 | KeyPort \<Rightarrow> 3 | KeyUnknown n \<Rightarrow> n))
     (designation ''dns.example.'' (Some (443, ''/dns-query'', True)) (Some 853) None) =
   [Inr \<lparr>svc_priority = 1, svc_target = ''dns.example.'',
         svc_params = [(KeyAlpn, Alpn [''h2'', ''h3'']), (KeyPort, Port 443),
                       (KeyUnknown 7, UnknownValue (bytes_of ''/dns-query''))]\<rparr>,
    Inr \<lparr>svc_priority = 2, svc_target = ''dns.example.'',
         svc_params = [(KeyAlpn, Alpn [''dot'']), (KeyPort, Port 853)]\<rparr>]"
proof -
  have c: "svc_codes (\<lambda>k. case k of KeyAlpn \<Rightarrow> 1 | KeyNoDefaultAlpn \<Rightarrow> 2 | KeyPort \<Rightarrow> 3 | KeyUnknown n \<Rightarrow> n)"
    by (simp add: svc_codes_def)
  have n: "''dns.example.'' \<noteq> [dot]" "is_field ''dns.example.''" "is_field ''/dns-query'' \<and> starts_with ''/dns-query'' ''/''"
    by code_simp+
  show ?thesis
    using n(3)
    by (subst designation_parses [where n = "''dns.example.''", OF c _ n(1,2)])
      (auto simp: designated_def SVC_PARAM_KEY_DOHPATH_def)
qed

text \<open>
  C38: the parser is strict. It accepts a value exactly when the value has a priority, a target and
  parameters that all parse, no parameter beside an alias (priority 0) and no key twice; and what it
  returns are those parameters in strictly increasing order of their keys.
\<close>

theorem svcb_parse_strict:
  "svcb_parse name_of root code value = Inr r \<longleftrightarrow>
     (\<exists>p t fs ps. split_ws value = p # t # fs \<and> parse_u16 p = Some (svc_priority r) \<and>
        parse_target name_of root t = Inr (svc_target r) \<and> parse_params fs = Inr ps \<and>
        (svc_priority r = 0 \<longrightarrow> ps = []) \<and> mset (svc_params r) = mset ps \<and>
        sorted_wrt (<) (map (\<lambda>q. code (fst q)) (svc_params r)))"
proof (cases "split_ws value")
  case Nil
  then show ?thesis by (simp add: svcb_parse_def)
next
  case (Cons p rest)
  show ?thesis
  proof (cases r)
    case (fields prio n ps)
    have "svcb_parse name_of root code value = Inr r \<longleftrightarrow>
        (\<exists>t fs qs. rest = t # fs \<and> parse_u16 p = Some prio \<and> parse_target name_of root t = Inr n \<and>
           parse_params fs = Inr qs \<and> (prio = 0 \<longrightarrow> qs = []) \<and>
           \<not> adjacent_equal (map (\<lambda>p. code (fst p)) (sort_key (\<lambda>p. code (fst p)) qs)) \<and>
           ps = sort_key (\<lambda>p. code (fst p)) qs)"
      by (auto simp: svcb_parse_def Cons fields Let_def split: list.splits option.splits sum.splits)
    then show ?thesis
      unfolding sorted_params_iff by (simp add: Cons fields)
  qed
qed

theorem svcb_parse_strict_witness:
  "svcb_parse Some '''' (\<lambda>k. case k of KeyAlpn \<Rightarrow> 1 | KeyNoDefaultAlpn \<Rightarrow> 2 | KeyPort \<Rightarrow> 3 | KeyUnknown n \<Rightarrow> n)
     ''1 dns.example. port=853 alpn=dot'' =
   Inr \<lparr>svc_priority = 1, svc_target = ''dns.example.'',
        svc_params = [(KeyAlpn, Alpn [''dot'']), (KeyPort, Port 853)]\<rparr>"
proof -
  have v: "split_ws ''1 dns.example. port=853 alpn=dot'' = [''1'', ''dns.example.'', ''port=853'', ''alpn=dot'']"
    "parse_target Some '''' ''dns.example.'' = Inr ''dns.example.''"
    "parse_params [''port=853'', ''alpn=dot''] = Inr [(KeyPort, Port 853), (KeyAlpn, Alpn [''dot''])]"
    by code_simp+
  show ?thesis
    unfolding svcb_parse_strict
    by (rule exI [of _ "''1''"], rule exI [of _ "''dns.example.''"], rule exI [of _ "[''port=853'', ''alpn=dot'']"],
        rule exI [of _ "[(KeyPort, Port 853), (KeyAlpn, Alpn [''dot''])]"]) (simp add: v del: parse_params.simps)
qed

end
