(* ===== verification/Dnssec.thy ===== *)
theory Dnssec
  imports Nsec_Chain Cidr Svcb "HOL-Library.Monad_Syntax"
begin

text \<open>
  Keys, RRSIG records and signatures (\<open>src/src/dnssec.rs\<close>): the algorithms and key types with their
  spellings, loading of stored keys, key tags, the canonical RDATA of every record kind, the stored form
  of RRSIG records, the bytes a signature covers, signing and verification.

  What the code takes from libraries is collected in two records of functions: \<open>codecs\<close> (hexadecimal,
  base64, the name parser and encoder of the DNS library) and \<open>crypto\<close> (key parsing, signing and
  verification of \<open>ring\<close>, SHA-256). \<open>base64_laws\<close> and \<open>crypto_laws\<close> state what the proofs use of them.
  A random number generator is a value given to the signing call.
\<close>

section \<open>Algorithms and keys\<close>

datatype DnssecAlgorithm = RsaSha256 | EcdsaP256Sha256 | EcdsaP384Sha384 | Ed25519

datatype KeyType = ZSK | KSK

datatype dnssec_error =
    UnsupportedAlgorithm | BadKeyMaterial | NotUncompressed | WrongKeyLength nat | GenerateFailed
  | CannotEncode RecordKind string | BadOwnerName string | BadSignerName string | RdataTooLong
  | EmptyRrset | RrsigRrset | SigningFailed
  | RrsigFields nat | UnknownCoveredType string | UnknownAlgorithm string | BadField string
  | VerificationFailed

record 'n codecs =
  hex_decode :: "string \<Rightarrow> u8 list option"
  hex_encode :: "u8 list \<Rightarrow> string"
  b64_decode :: "string \<Rightarrow> u8 list option"
  b64_encode :: "u8 list \<Rightarrow> string"
  name_from_utf8 :: "string \<Rightarrow> 'n option"
  name_root :: 'n
  param_code :: "SvcParamKey \<Rightarrow> u16"
  svcb_emit :: "'n svcb \<Rightarrow> u8 list option"

record ('k, 'r) crypto =
  ed25519_from_pkcs8 :: "u8 list \<Rightarrow> 'k option"
  ecdsa_from_pkcs8 :: "DnssecAlgorithm \<Rightarrow> u8 list \<Rightarrow> 'k option"
  ring_public_key :: "'k \<Rightarrow> u8 list"
  ed25519_sign :: "'k \<Rightarrow> u8 list \<Rightarrow> u8 list"
  ecdsa_sign :: "'k \<Rightarrow> 'r \<Rightarrow> u8 list \<Rightarrow> u8 list option"
  ring_verify :: "DnssecAlgorithm \<Rightarrow> u8 list \<Rightarrow> u8 list \<Rightarrow> u8 list \<Rightarrow> bool"
  sha256 :: "u8 list \<Rightarrow> u8 list"

definition alg_parse :: "string \<Rightarrow> DnssecAlgorithm option" where
  "alg_parse s =
     (let l = lower s
      in if l \<in> {''rsa-sha256'', ''rsasha256'', ''8''} then Some RsaSha256
         else if l \<in> {''ecdsa-p256'', ''ecdsap256sha256'', ''ecdsa-p256-sha256'', ''13''} then Some EcdsaP256Sha256
         else if l \<in> {''ecdsa-p384'', ''ecdsap384sha384'', ''ecdsa-p384-sha384'', ''14''} then Some EcdsaP384Sha384
         else if l \<in> {''ed25519'', ''15''} then Some Ed25519
         else None)"

fun alg_as_str :: "DnssecAlgorithm \<Rightarrow> string" where
  "alg_as_str RsaSha256 = ''RSA-SHA256''"
| "alg_as_str EcdsaP256Sha256 = ''ECDSA-P256-SHA256''"
| "alg_as_str EcdsaP384Sha384 = ''ECDSA-P384-SHA384''"
| "alg_as_str Ed25519 = ''Ed25519''"

fun alg_number :: "DnssecAlgorithm \<Rightarrow> u8" where
  "alg_number RsaSha256 = 8"
| "alg_number EcdsaP256Sha256 = 13"
| "alg_number EcdsaP384Sha384 = 14"
| "alg_number Ed25519 = 15"

definition signing_supported :: "DnssecAlgorithm \<Rightarrow> bool" where
  "signing_supported a \<longleftrightarrow> a \<noteq> RsaSha256"

fun public_key_len :: "DnssecAlgorithm \<Rightarrow> nat option" where
  "public_key_len Ed25519 = Some 32"
| "public_key_len EcdsaP256Sha256 = Some 64"
| "public_key_len EcdsaP384Sha384 = Some 96"
| "public_key_len RsaSha256 = None"

definition keytype_parse :: "string \<Rightarrow> KeyType option" where
  "keytype_parse s =
     (if upper s = ''ZSK'' then Some ZSK else if upper s = ''KSK'' then Some KSK else None)"

fun keytype_as_str :: "KeyType \<Rightarrow> string" where
  "keytype_as_str ZSK = ''ZSK''"
| "keytype_as_str KSK = ''KSK''"

fun keytype_flags :: "KeyType \<Rightarrow> u16" where
  "keytype_flags ZSK = 256"
| "keytype_flags KSK = 257"

definition dnskey_rdata :: "DnssecAlgorithm \<Rightarrow> KeyType \<Rightarrow> u8 list \<Rightarrow> u8 list" where
  "dnskey_rdata algorithm kt public_key = u16_be (keytype_flags kt) @ [3, alg_number algorithm] @ public_key"

definition compute_key_tag :: "DnssecAlgorithm \<Rightarrow> KeyType \<Rightarrow> u8 list \<Rightarrow> u16" where
  "compute_key_tag algorithm kt public_key =
     (let rdata = dnskey_rdata algorithm kt public_key;
          ac = fold (\<lambda>(i, byte) ac. if even i then ac + push_bit 8 (ucast byte) else ac + ucast byte)
                 (enumerate 0 rdata) (0 :: u32);
          ac' = ac + (drop_bit 16 ac AND 65535)
      in ucast (ac' AND 65535))"

definition compute_ds_sha256 ::
  "'n codecs \<Rightarrow> ('k, 'r) crypto \<Rightarrow> string \<Rightarrow> u16 \<Rightarrow> DnssecAlgorithm \<Rightarrow> u8 list \<Rightarrow> KeyType \<Rightarrow> string" where
  "compute_ds_sha256 cd cr zone tag algorithm public_key kt =
     (let owner = concat (map (\<lambda>label. of_nat (length label) # bytes_of label) (split_on dot (trim_end_dots zone)));
          input = owner @ [0] @ u16_be (keytype_flags kt) @ [3, alg_number algorithm] @ public_key
      in join_with '' '' [show_nat (unat tag), show_nat (unat (alg_number algorithm)), ''1'', ''1'',
                          hex_encode cd (sha256 cr input)])"

datatype 'k key_material = Ed25519Key 'k | EcdsaKey 'k

record 'k signing_key =
  sk_algorithm :: DnssecAlgorithm
  sk_type :: KeyType
  sk_tag :: u16
  sk_public :: "u8 list"
  sk_material :: "'k key_material"

definition load_material ::
  "('k, 'r) crypto \<Rightarrow> DnssecAlgorithm \<Rightarrow> u8 list \<Rightarrow> dnssec_error + 'k key_material \<times> u8 list" where
  "load_material cr algorithm pkcs8 =
     (case algorithm of
        Ed25519 \<Rightarrow>
          (case ed25519_from_pkcs8 cr pkcs8 of
             None \<Rightarrow> Inl BadKeyMaterial
           | Some kp \<Rightarrow> Inr (Ed25519Key kp, ring_public_key cr kp))
      | RsaSha256 \<Rightarrow> Inl UnsupportedAlgorithm
      | _ \<Rightarrow>
          (case ecdsa_from_pkcs8 cr algorithm pkcs8 of
             None \<Rightarrow> Inl BadKeyMaterial
           | Some kp \<Rightarrow>
               (case ring_public_key cr kp of
                  [] \<Rightarrow> Inl NotUncompressed
                | t # xy \<Rightarrow> if t = 4 then Inr (EcdsaKey kp, xy) else Inl NotUncompressed)))"

definition from_pkcs8 ::
  "('k, 'r) crypto \<Rightarrow> DnssecAlgorithm \<Rightarrow> KeyType \<Rightarrow> u8 list \<Rightarrow> dnssec_error + 'k signing_key" where
  "from_pkcs8 cr algorithm kt pkcs8 =
     (if \<not> signing_supported algorithm then Inl UnsupportedAlgorithm
      else case load_material cr algorithm pkcs8 of
        Inl e \<Rightarrow> Inl e
      | Inr (material, public_key) \<Rightarrow>
          if public_key_len algorithm \<noteq> Some (length public_key) then Inl (WrongKeyLength (length public_key))
          else Inr \<lparr>sk_algorithm = algorithm, sk_type = kt,
                    sk_tag = compute_key_tag algorithm kt public_key, sk_public = public_key,
                    sk_material = material\<rparr>)"

definition key_sign :: "('k, 'r) crypto \<Rightarrow> 'k signing_key \<Rightarrow> 'r \<Rightarrow> u8 list \<Rightarrow> dnssec_error + u8 list" where
  "key_sign cr key rng message =
     (case sk_material key of
        Ed25519Key kp \<Rightarrow> Inr (ed25519_sign cr kp message)
      | EcdsaKey kp \<Rightarrow>
          (case ecdsa_sign cr kp rng message of None \<Rightarrow> Inl SigningFailed | Some sig \<Rightarrow> Inr sig))"

record key_pair =
  kp_zone :: string
  kp_algorithm :: DnssecAlgorithm
  kp_type :: KeyType
  kp_private :: "u8 list"
  kp_public :: "u8 list"
  kp_tag :: u16

text \<open>\<open>generate\<close> is \<open>generate_pkcs8\<close> of the algorithm on fresh randomness.\<close>

definition generate_key ::
  "('k, 'r) crypto \<Rightarrow> (DnssecAlgorithm \<Rightarrow> u8 list option) \<Rightarrow> string \<Rightarrow> DnssecAlgorithm \<Rightarrow> KeyType
     \<Rightarrow> dnssec_error + key_pair" where
  "generate_key cr generate zone algorithm kt =
     (if \<not> signing_supported algorithm then Inl UnsupportedAlgorithm
      else case generate algorithm of
        None \<Rightarrow> Inl GenerateFailed
      | Some private_key \<Rightarrow>
          (case from_pkcs8 cr algorithm kt private_key of
             Inl e \<Rightarrow> Inl e
           | Inr key \<Rightarrow>
               Inr \<lparr>kp_zone = zone, kp_algorithm = algorithm, kp_type = kt, kp_private = private_key,
                    kp_public = sk_public key, kp_tag = sk_tag key\<rparr>))"

section \<open>RRSIG records\<close>

record rrsig =
  type_covered :: RecordKind
  sig_algorithm :: DnssecAlgorithm
  sig_labels :: u8
  original_ttl :: u32
  expiration :: u32
  inception :: u32
  sig_key_tag :: u16
  signer_name :: string
  signature :: "u8 list"

definition rrsig_to_value :: "'n codecs \<Rightarrow> rrsig \<Rightarrow> string" where
  "rrsig_to_value cd r =
     join_with '' ''
       [as_str (type_covered r), show_nat (unat (alg_number (sig_algorithm r))), show_nat (unat (sig_labels r)),
        show_nat (unat (original_ttl r)), show_nat (unat (expiration r)), show_nat (unat (inception r)),
        show_nat (unat (sig_key_tag r)), signer_name r, b64_encode cd (signature r)]"

definition parse_u8 :: "string \<Rightarrow> u8 option" where
  "parse_u8 s = map_option of_nat (parse_uint 255 s)"

definition parse_u32 :: "string \<Rightarrow> u32 option" where
  "parse_u32 s = map_option of_nat (parse_uint 4294967295 s)"

definition require :: "'e \<Rightarrow> 'a option \<Rightarrow> 'e + 'a" where
  "require e x = (case x of Some v \<Rightarrow> Inr v | None \<Rightarrow> Inl e)"

definition and_then :: "'e + 'a \<Rightarrow> ('a \<Rightarrow> 'e + 'b) \<Rightarrow> 'e + 'b" where
  "and_then x f = (case x of Inl e \<Rightarrow> Inl e | Inr v \<Rightarrow> f v)"

definition rrsig_parse :: "'n codecs \<Rightarrow> string \<Rightarrow> dnssec_error + rrsig" where
  "rrsig_parse cd value =
     (let fs = split_ws value
      in if length fs < 9 then Inl (RrsigFields (length fs))
         else
           and_then (require (UnknownCoveredType (fs ! 0)) (kind_parse (fs ! 0))) (\<lambda>t.
           and_then (require (UnknownAlgorithm (fs ! 1)) (alg_parse (fs ! 1))) (\<lambda>a.
           and_then (require (BadField (fs ! 2)) (parse_u8 (fs ! 2))) (\<lambda>l.
           and_then (require (BadField (fs ! 3)) (parse_u32 (fs ! 3))) (\<lambda>ttl.
           and_then (require (BadField (fs ! 4)) (parse_u32 (fs ! 4))) (\<lambda>ex.
           and_then (require (BadField (fs ! 5)) (parse_u32 (fs ! 5))) (\<lambda>inc.
           and_then (require (BadField (fs ! 6)) (parse_u16 (fs ! 6))) (\<lambda>tag.
           and_then (require (BadField (fs ! 8)) (b64_decode cd (fs ! 8))) (\<lambda>sig.
             Inr \<lparr>type_covered = t, sig_algorithm = a, sig_labels = l, original_ttl = ttl, expiration = ex,
                  inception = inc, sig_key_tag = tag, signer_name = fs ! 7, signature = sig\<rparr>)))))))))"

definition signed_prefix :: "rrsig \<Rightarrow> u8 list option" where
  "signed_prefix r =
     map_option (\<lambda>name.
         u16_be (wire_type (type_covered r)) @ [alg_number (sig_algorithm r), sig_labels r]
         @ u32_be (original_ttl r) @ u32_be (expiration r) @ u32_be (inception r)
         @ u16_be (sig_key_tag r) @ name)
       (canonical_name (signer_name r))"

definition rrsig_rdata :: "rrsig \<Rightarrow> u8 list option" where
  "rrsig_rdata r = map_option (\<lambda>out. out @ signature r) (signed_prefix r)"

section \<open>Canonical RDATA\<close>

text \<open>\<open>s.find(sub)\<close>.\<close>

fun str_find :: "string \<Rightarrow> string \<Rightarrow> nat option" where
  "str_find sub [] = (if sub = [] then Some 0 else None)"
| "str_find sub (c # s) = (if starts_with (c # s) sub then Some 0 else map_option Suc (str_find sub s))"

text \<open>\<open>u16::try_from(priority)\<close>.\<close>

definition u16_try_from :: "u32 \<Rightarrow> u16 option" where
  "u16_try_from p = (if unat p \<le> 65535 then Some (ucast p) else None)"

definition parse_u32s :: "string list \<Rightarrow> u8 list option" where
  "parse_u32s fs = map_option concat (those (map (\<lambda>f. map_option u32_be (parse_u32 f)) fs))"

definition canonical_rdata :: "'n codecs \<Rightarrow> dns_record \<Rightarrow> u8 list option" where
  "canonical_rdata cd record =
     (let value = trim (dr_value record); fs = split_ws value
      in case dr_type record of
        A \<Rightarrow> map_option (\<lambda>ip. map of_nat (octets4 ip)) (parse_ipv4 value)
      | AAAA \<Rightarrow>
          (case read_ipv6_addr value of Some (ip, []) \<Rightarrow> Some (map of_nat (octets6 ip)) | _ \<Rightarrow> None)
      | CNAME \<Rightarrow> canonical_name value
      | NS \<Rightarrow> canonical_name value
      | PTR \<Rightarrow> canonical_name value
      | DNAME \<Rightarrow> canonical_name value
      | MX \<Rightarrow> do { p \<leftarrow> u16_try_from (dr_priority record); n \<leftarrow> canonical_name value; Some (u16_be p @ n) }
      | TXT \<Rightarrow> Some (character_strings value)
      | SOA \<Rightarrow>
          if length fs < 7 then None
          else do {
            m \<leftarrow> canonical_name (fs ! 0);
            r \<leftarrow> canonical_name (fs ! 1);
            ns \<leftarrow> parse_u32s (take 5 (drop 2 fs));
            Some (m @ r @ ns) }
      | SRV \<Rightarrow>
          if length fs < 3 then None
          else do {
            p \<leftarrow> u16_try_from (dr_priority record);
            w \<leftarrow> parse_u16 (fs ! 0);
            port \<leftarrow> parse_u16 (fs ! 1);
            n \<leftarrow> canonical_name (fs ! 2);
            Some (u16_be p @ u16_be w @ u16_be port @ n) }
      | SSHFP \<Rightarrow>
          if length fs < 3 then None
          else do {
            a \<leftarrow> parse_u8 (fs ! 0);
            t \<leftarrow> parse_u8 (fs ! 1);
            d \<leftarrow> hex_decode cd (fs ! 2);
            Some ([a, t] @ d) }
      | TLSA \<Rightarrow>
          if length fs < 4 then None
          else do {
            u \<leftarrow> parse_u8 (fs ! 0);
            s \<leftarrow> parse_u8 (fs ! 1);
            m \<leftarrow> parse_u8 (fs ! 2);
            d \<leftarrow> hex_decode cd (fs ! 3);
            Some ([u, s, m] @ d) }
      | SVCB \<Rightarrow> svcb_canonical_rdata (name_from_utf8 cd) (name_root cd) (param_code cd) (svcb_emit cd) value
      | HTTPS \<Rightarrow> svcb_canonical_rdata (name_from_utf8 cd) (name_root cd) (param_code cd) (svcb_emit cd) value
      | CERT \<Rightarrow>
          if length fs < 4 then None
          else do {
            t \<leftarrow> parse_u16 (fs ! 0);
            k \<leftarrow> parse_u16 (fs ! 1);
            a \<leftarrow> parse_u8 (fs ! 2);
            d \<leftarrow> b64_decode cd (fs ! 3);
            Some (u16_be t @ u16_be k @ [a] @ d) }
      | URI \<Rightarrow>
          if length fs < 3 then None
          else do {
            p \<leftarrow> parse_u16 (fs ! 0);
            w \<leftarrow> parse_u16 (fs ! 1);
            target_at \<leftarrow> str_find (fs ! 2) value;
            Some (u16_be p @ u16_be w @ bytes_of (trim (drop target_at value))) }
      | ZONEMD \<Rightarrow>
          if length fs < 4 then None
          else do {
            s \<leftarrow> parse_u32 (fs ! 0);
            m \<leftarrow> parse_u8 (fs ! 1);
            h \<leftarrow> parse_u8 (fs ! 2);
            d \<leftarrow> hex_decode cd (fs ! 3);
            Some (u32_be s @ [m, h] @ d) }
      | DNSKEY \<Rightarrow>
          if length fs < 4 then None
          else do {
            f \<leftarrow> parse_u16 (fs ! 0);
            p \<leftarrow> parse_u8 (fs ! 1);
            a \<leftarrow> parse_u8 (fs ! 2);
            k \<leftarrow> b64_decode cd (fs ! 3);
            Some (u16_be f @ [p, a] @ k) }
      | DS \<Rightarrow>
          if length fs < 4 then None
          else do {
            t \<leftarrow> parse_u16 (fs ! 0);
            a \<leftarrow> parse_u8 (fs ! 1);
            d \<leftarrow> parse_u8 (fs ! 2);
            h \<leftarrow> hex_decode cd (fs ! 3);
            Some (u16_be t @ [a, d] @ h) }
      | RRSIG \<Rightarrow> (case rrsig_parse cd value of Inl _ \<Rightarrow> None | Inr r \<Rightarrow> rrsig_rdata r)
      | NSEC \<Rightarrow> (case nsec_parse value of Inl _ \<Rightarrow> None | Inr n \<Rightarrow> nsec_rdata n)
      | ANAME \<Rightarrow> None
      | NSEC3 \<Rightarrow> None
      | NSEC3PARAM \<Rightarrow> None)"

section \<open>Signing and verification\<close>

fun encode_all :: "'n codecs \<Rightarrow> dns_record list \<Rightarrow> dnssec_error + u8 list list" where
  "encode_all cd [] = Inr []"
| "encode_all cd (r # rs) =
     (case canonical_rdata cd r of
        None \<Rightarrow> Inl (CannotEncode (dr_type r) (dr_value r))
      | Some d \<Rightarrow> (case encode_all cd rs of Inl e \<Rightarrow> Inl e | Inr ds \<Rightarrow> Inr (d # ds)))"

fun append_rdatas :: "u8 list \<Rightarrow> rrsig \<Rightarrow> u8 list list \<Rightarrow> dnssec_error + u8 list" where
  "append_rdatas owner_wire r [] = Inr []"
| "append_rdatas owner_wire r (d # ds) =
     (if length d > 65535 then Inl RdataTooLong
      else case append_rdatas owner_wire r ds of
        Inl e \<Rightarrow> Inl e
      | Inr rest \<Rightarrow>
          Inr (owner_wire @ u16_be (wire_type (type_covered r)) @ u16_be 1 @ u32_be (original_ttl r)
               @ u16_be (of_nat (length d)) @ d @ rest))"

definition signing_input :: "'n codecs \<Rightarrow> rrsig \<Rightarrow> string \<Rightarrow> dns_record list \<Rightarrow> dnssec_error + u8 list" where
  "signing_input cd r owner rrset =
     and_then (encode_all cd rrset) (\<lambda>rdatas.
     and_then (require (BadOwnerName owner) (canonical_name owner)) (\<lambda>owner_wire.
     and_then (require (BadSignerName (signer_name r)) (signed_prefix r)) (\<lambda>input.
     and_then (append_rdatas owner_wire r (remdups_adj (sort rdatas))) (\<lambda>rest.
       Inr (input @ rest)))))"

record rrset_to_sign =
  rs_signer_zone :: string
  rs_owner :: string
  rs_type :: RecordKind
  rs_ttl :: u32
  rs_rrset :: "dns_record list"
  rs_inception :: u32
  rs_expiration :: u32

definition unsigned_rrsig :: "'k signing_key \<Rightarrow> rrset_to_sign \<Rightarrow> rrsig" where
  "unsigned_rrsig key rs =
     \<lparr>type_covered = rs_type rs, sig_algorithm = sk_algorithm key, sig_labels = label_count (rs_owner rs),
      original_ttl = rs_ttl rs, expiration = rs_expiration rs, inception = rs_inception rs,
      sig_key_tag = sk_tag key, signer_name = normalize_name (rs_signer_zone rs), signature = []\<rparr>"

definition sign_rrset ::
  "'n codecs \<Rightarrow> ('k, 'r) crypto \<Rightarrow> 'r \<Rightarrow> 'k signing_key \<Rightarrow> rrset_to_sign \<Rightarrow> dnssec_error + string" where
  "sign_rrset cd cr rng key rs =
     (if rs_rrset rs = [] then Inl EmptyRrset
      else if rs_type rs = RRSIG then Inl RrsigRrset
      else
        and_then (signing_input cd (unsigned_rrsig key rs) (rs_owner rs) (rs_rrset rs)) (\<lambda>input.
        and_then (key_sign cr key rng input) (\<lambda>sig.
          Inr (rrsig_to_value cd ((unsigned_rrsig key rs)\<lparr>signature := sig\<rparr>)))))"

definition verify_rrsig ::
  "'n codecs \<Rightarrow> ('k, 'r) crypto \<Rightarrow> string \<Rightarrow> string \<Rightarrow> dns_record list \<Rightarrow> u8 list \<Rightarrow> dnssec_error + unit" where
  "verify_rrsig cd cr rrsig_value owner rrset public_key =
     and_then (rrsig_parse cd rrsig_value) (\<lambda>r.
     and_then (signing_input cd r owner rrset) (\<lambda>input.
       case sig_algorithm r of
         Ed25519 \<Rightarrow>
           if ring_verify cr Ed25519 public_key input (signature r) then Inr () else Inl VerificationFailed
       | RsaSha256 \<Rightarrow> Inl UnsupportedAlgorithm
       | alg \<Rightarrow>
           if ring_verify cr alg (4 # public_key) input (signature r) then Inr () else Inl VerificationFailed))"

section \<open>What the libraries promise\<close>

definition base64_laws :: "'n codecs \<Rightarrow> bool" where
  "base64_laws cd \<longleftrightarrow> (\<forall>x. b64_decode cd (b64_encode cd x) = Some x \<and> (x \<noteq> [] \<longrightarrow> is_field (b64_encode cd x)))"

definition crypto_laws :: "('k, 'r) crypto \<Rightarrow> bool" where
  "crypto_laws cr \<longleftrightarrow>
     (\<forall>p k m. ed25519_from_pkcs8 cr p = Some k \<longrightarrow>
        ed25519_sign cr k m \<noteq> [] \<and> ring_verify cr Ed25519 (ring_public_key cr k) m (ed25519_sign cr k m)) \<and>
     (\<forall>a p k rng m sig. ecdsa_from_pkcs8 cr a p = Some k \<longrightarrow> ecdsa_sign cr k rng m = Some sig \<longrightarrow>
        sig \<noteq> [] \<and> ring_verify cr a (ring_public_key cr k) m sig)"

section \<open>Stored forms round trip\<close>

lemma parse_u8_show [simp]: "parse_u8 (show_nat (unat (x :: u8))) = Some x"
proof -
  have "unat x \<le> 255"
    using unsigned_less [of x, where 'a = nat] by simp
  then show ?thesis
    by (simp add: parse_u8_def parse_uint_show)
qed

lemma parse_u32_show [simp]: "parse_u32 (show_nat (unat (x :: u32))) = Some x"
proof -
  have "unat x \<le> 4294967295"
    using unsigned_less [of x, where 'a = nat] by simp
  then show ?thesis
    by (simp add: parse_u32_def parse_uint_show)
qed

lemma is_field_as_str [simp]: "is_field (as_str k)"
  by (cases k) (simp_all add: is_field_def is_ws_def)

lemma alg_parse_number [simp]: "alg_parse (show_nat (unat (alg_number a))) = Some a"
proof -
  have "alg_parse (show_nat 8) = Some RsaSha256" "alg_parse (show_nat 13) = Some EcdsaP256Sha256"
    "alg_parse (show_nat 14) = Some EcdsaP384Sha384" "alg_parse (show_nat 15) = Some Ed25519"
    by code_simp+
  then show ?thesis
    by (cases a) simp_all
qed

lemma alg_parse_as_str [simp]: "alg_parse (alg_as_str a) = Some a"
  by (cases a; hypsubst; code_simp)

lemma keytype_parse_as_str [simp]: "keytype_parse (keytype_as_str k) = Some k"
  by (cases k; hypsubst; code_simp)

lemma and_then_simps [simp]: "and_then (Inr v) f = f v" "and_then (Inl e) f = Inl e"
  by (simp_all add: and_then_def)

lemma require_simps [simp]: "require e (Some v) = Inr v" "require e None = Inl e"
  by (simp_all add: require_def)

lemma and_then_Inr: "and_then x f = Inr y \<longleftrightarrow> (\<exists>v. x = Inr v \<and> f v = Inr y)"
  by (cases x) (simp_all add: and_then_def)

lemma require_Inr: "require e x = Inr v \<longleftrightarrow> x = Some v"
  by (cases x) (simp_all add: require_def)

lemma rrsig_parse_to_value:
  assumes "base64_laws cd" "is_field (signer_name r)" "signature r \<noteq> []"
  shows "rrsig_parse cd (rrsig_to_value cd r) = Inr r"
proof -
  have b: "b64_decode cd (b64_encode cd (signature r)) = Some (signature r)" "is_field (b64_encode cd (signature r))"
    using assms by (simp_all add: base64_laws_def)
  have "split_ws (rrsig_to_value cd r) =
      [as_str (type_covered r), show_nat (unat (alg_number (sig_algorithm r))), show_nat (unat (sig_labels r)),
       show_nat (unat (original_ttl r)), show_nat (unat (expiration r)), show_nat (unat (inception r)),
       show_nat (unat (sig_key_tag r)), signer_name r, b64_encode cd (signature r)]"
    unfolding rrsig_to_value_def using assms(2) b(2) by (intro split_ws_join) simp_all
  then show ?thesis
    using b(1) by (simp add: rrsig_parse_def)
qed

lemma concat_fields: "f0 @ concat (map (\<lambda>t. '' '' @ f t) ts) = join_with '' '' (f0 # map f ts)"
proof (induction ts arbitrary: f0)
  case (Cons t ts)
  show ?case
    using Cons.IH [of "f t"] by simp
qed simp

lemma nsec_parse_types_as_str: "nsec_parse_types (map as_str ts) = Inr ts"
  by (induction ts) simp_all

lemma nsec_parse_to_value:
  assumes "is_field (next_owner n)"
  shows "nsec_parse (nsec_to_value n) = Inr (n\<lparr>nsec_types := remdups_adj (sort_key wire_type (nsec_types n))\<rparr>)"
proof -
  let ?ts = "remdups_adj (sort_key wire_type (nsec_types n))"
  have "split_ws (nsec_to_value n) = next_owner n # map as_str ?ts"
    unfolding nsec_to_value_def concat_fields using assms by (intro split_ws_join) auto
  then show ?thesis
    by (simp add: nsec_parse_def nsec_parse_types_as_str)
qed

section \<open>Signatures\<close>

lemma encode_all_Inr: "encode_all cd rs = Inr ds \<longleftrightarrow> map (canonical_rdata cd) rs = map Some ds"
proof (induction rs arbitrary: ds)
  case (Cons r rs)
  show ?case
    using Cons.IH by (cases ds; cases "canonical_rdata cd r"; cases "encode_all cd rs") auto
qed auto

lemma remdups_adj_sort: "remdups_adj (sort xs) = sorted_list_of_set (set xs)"
proof (rule sorted_distinct_set_unique)
  have "distinct (remdups_adj ys)" if "sorted ys" for ys :: "'a list"
    using that by (induction ys rule: remdups_adj.induct) (auto simp: order_le_less)
  then show "distinct (remdups_adj (sort xs))"
    by simp
qed simp_all

text \<open>The signed bytes depend only on the set of canonical record data, not on order, repetition or current TTLs.\<close>

lemma signing_input_cong:
  assumes "set (map (canonical_rdata cd) rrset) = set (map (canonical_rdata cd) rrset')"
    and "canonical_name owner = canonical_name owner'" and "signing_input cd r owner rrset = Inr input"
  shows "signing_input cd r owner' rrset' = Inr input"
proof -
  obtain ds where ds: "encode_all cd rrset = Inr ds"
    using assms(3) by (auto simp: signing_input_def and_then_Inr)
  have "\<forall>x\<in>set (map (canonical_rdata cd) rrset'). x \<noteq> None"
    using ds unfolding assms(1) [symmetric] encode_all_Inr by auto
  then have "map (canonical_rdata cd) rrset' = map Some (map (the \<circ> canonical_rdata cd) rrset')"
    by (induction rrset') auto
  then obtain ds' where ds': "encode_all cd rrset' = Inr ds'"
    unfolding encode_all_Inr [symmetric] by blast
  have "Some ` set ds = Some ` set ds'"
    using assms(1) ds ds' unfolding encode_all_Inr by (simp add: image_set [symmetric])
  then have "set ds = set ds'"
    by (simp add: inj_image_eq_iff)
  then show ?thesis
    using assms(2,3) ds ds' by (simp add: signing_input_def remdups_adj_sort and_then_Inr require_Inr)
qed

lemma signing_input_signature [simp]: "signing_input cd (r\<lparr>signature := sig\<rparr>) owner rrset = signing_input cd r owner rrset"
proof -
  have "append_rdatas w (r\<lparr>signature := sig\<rparr>) ds = append_rdatas w r ds" for w ds
    by (induction ds) (simp_all split: sum.split)
  then show ?thesis
    by (simp add: signing_input_def signed_prefix_def)
qed

lemma from_pkcs8_Inr:
  assumes "from_pkcs8 cr algorithm kt pkcs8 = Inr key"
  shows "sk_algorithm key = algorithm" "sk_type key = kt" "sk_tag key = compute_key_tag algorithm kt (sk_public key)"
    "load_material cr algorithm pkcs8 = Inr (sk_material key, sk_public key)" "algorithm \<noteq> RsaSha256"
  using assms by (auto simp: from_pkcs8_def signing_supported_def split: if_splits sum.splits)

text \<open>The check \<open>verify_rrsig\<close> makes on a signature.\<close>

definition verifies :: "('k, 'r) crypto \<Rightarrow> DnssecAlgorithm \<Rightarrow> u8 list \<Rightarrow> u8 list \<Rightarrow> u8 list \<Rightarrow> bool" where
  "verifies cr alg public_key input sig =
     (case alg of
        Ed25519 \<Rightarrow> ring_verify cr Ed25519 public_key input sig
      | RsaSha256 \<Rightarrow> False
      | _ \<Rightarrow> ring_verify cr alg (4 # public_key) input sig)"

lemma verify_rrsig_Inr:
  "verify_rrsig cd cr v owner rrset public_key = Inr () \<longleftrightarrow>
     (\<exists>r input. rrsig_parse cd v = Inr r \<and> signing_input cd r owner rrset = Inr input \<and>
                verifies cr (sig_algorithm r) public_key input (signature r))"
proof -
  have "(case a of
         Ed25519 \<Rightarrow> if ring_verify cr Ed25519 public_key input s then Inr () else Inl VerificationFailed
       | RsaSha256 \<Rightarrow> Inl UnsupportedAlgorithm
       | alg \<Rightarrow> if ring_verify cr alg (4 # public_key) input s then Inr () else Inl VerificationFailed) = Inr ()
    \<longleftrightarrow> verifies cr a public_key input s" for a input s
    by (cases a) (simp_all add: verifies_def)
  then show ?thesis
    by (simp add: verify_rrsig_def and_then_Inr)
qed

lemma key_sign_verifies:
  assumes "crypto_laws cr" "from_pkcs8 cr algorithm kt pkcs8 = Inr key" "key_sign cr key rng m = Inr sig"
  shows "sig \<noteq> []" "verifies cr algorithm (sk_public key) m sig"
proof -
  note key = from_pkcs8_Inr [OF assms(2)]
  have "sig \<noteq> [] \<and> verifies cr algorithm (sk_public key) m sig"
  proof (cases "algorithm = Ed25519")
    case True
    then obtain k where k: "ed25519_from_pkcs8 cr pkcs8 = Some k" "sk_material key = Ed25519Key k"
        "sk_public key = ring_public_key cr k"
      using key(4) by (auto simp: load_material_def split: option.splits)
    then show ?thesis
      using assms(1,3) True by (auto simp: key_sign_def verifies_def crypto_laws_def)
  next
    case False
    then have e: "algorithm = EcdsaP256Sha256 \<or> algorithm = EcdsaP384Sha384"
      using key(5) by (cases algorithm) auto
    then obtain k where k: "ecdsa_from_pkcs8 cr algorithm pkcs8 = Some k" "sk_material key = EcdsaKey k"
        "ring_public_key cr k = 4 # sk_public key"
      using key(4) by (auto simp: load_material_def split: option.splits list.splits if_splits)
    moreover have "ecdsa_sign cr k rng m = Some sig"
      using assms(3) k(2) by (auto simp: key_sign_def split: option.splits)
    ultimately have "sig \<noteq> [] \<and> ring_verify cr algorithm (4 # sk_public key) m sig"
      using assms(1) unfolding crypto_laws_def by metis
    then show ?thesis
      using e by (auto simp: verifies_def)
  qed
  then show "sig \<noteq> []" "verifies cr algorithm (sk_public key) m sig"
    by simp_all
qed

lemma sign_rrset_Inr:
  assumes "base64_laws cd" "crypto_laws cr" "from_pkcs8 cr algorithm kt pkcs8 = Inr key"
    and "is_field (normalize_name (rs_signer_zone rs))" "sign_rrset cd cr rng key rs = Inr v"
  obtains sig input where "rrsig_parse cd v = Inr ((unsigned_rrsig key rs)\<lparr>signature := sig\<rparr>)"
    "signing_input cd (unsigned_rrsig key rs) (rs_owner rs) (rs_rrset rs) = Inr input"
    "verifies cr algorithm (sk_public key) input sig"
proof -
  obtain input sig where i: "signing_input cd (unsigned_rrsig key rs) (rs_owner rs) (rs_rrset rs) = Inr input"
      "key_sign cr key rng input = Inr sig" "v = rrsig_to_value cd ((unsigned_rrsig key rs)\<lparr>signature := sig\<rparr>)"
    using assms(5) by (auto simp: sign_rrset_def and_then_Inr split: if_splits)
  note k = key_sign_verifies [OF assms(2,3) i(2)]
  have "rrsig_parse cd v = Inr ((unsigned_rrsig key rs)\<lparr>signature := sig\<rparr>)"
    unfolding i(3) using assms(1,4) k(1) by (intro rrsig_parse_to_value) (simp_all add: unsigned_rrsig_def)
  then show ?thesis
    using i(1) k(2) by (rule that)
qed

lemma append_rdatas_total: "\<forall>d\<in>set ds. length d \<le> 65535 \<Longrightarrow> \<exists>out. append_rdatas w r ds = Inr out"
  by (induction ds) auto

lemma sign_rrset_total:
  assumes "rs_rrset rs \<noteq> []" "rs_type rs \<noteq> RRSIG" "map (canonical_rdata cd) (rs_rrset rs) = map Some ds"
    and "\<forall>d\<in>set ds. length d \<le> 65535" "canonical_name (rs_owner rs) = Some ow"
    and "canonical_name (normalize_name (rs_signer_zone rs)) = Some sw" "\<And>m. \<exists>sig. key_sign cr key rng m = Inr sig"
  shows "\<exists>v. sign_rrset cd cr rng key rs = Inr v"
proof -
  have "encode_all cd (rs_rrset rs) = Inr ds"
    using assms(3) by (simp add: encode_all_Inr)
  moreover obtain prefix where "signed_prefix (unsigned_rrsig key rs) = Some prefix"
    using assms(6) by (simp add: signed_prefix_def unsigned_rrsig_def)
  moreover obtain out where "append_rdatas ow (unsigned_rrsig key rs) (remdups_adj (sort ds)) = Inr out"
    using append_rdatas_total [of "remdups_adj (sort ds)" ow "unsigned_rrsig key rs"] assms(4) by auto
  ultimately have "signing_input cd (unsigned_rrsig key rs) (rs_owner rs) (rs_rrset rs) = Inr (prefix @ out)"
    using assms(5) by (simp add: signing_input_def)
  then show ?thesis
    using assms(1,2,7) by (auto simp: sign_rrset_def and_then_Inr)
qed

lemma sign_rrset_verifies:
  assumes "base64_laws cd" "crypto_laws cr" "from_pkcs8 cr algorithm kt pkcs8 = Inr key"
    and "is_field (normalize_name (rs_signer_zone rs))" "sign_rrset cd cr rng key rs = Inr v"
    and "set (map (canonical_rdata cd) (rs_rrset rs)) = set (map (canonical_rdata cd) rrset)"
    and "canonical_name (rs_owner rs) = canonical_name owner"
  shows "verify_rrsig cd cr v owner rrset (sk_public key) = Inr ()"
proof -
  obtain sig input where s: "rrsig_parse cd v = Inr ((unsigned_rrsig key rs)\<lparr>signature := sig\<rparr>)"
    "signing_input cd (unsigned_rrsig key rs) (rs_owner rs) (rs_rrset rs) = Inr input"
    "verifies cr algorithm (sk_public key) input sig"
    using sign_rrset_Inr [OF assms(1-5)] .
  have "signing_input cd (unsigned_rrsig key rs) owner rrset = Inr input"
    using signing_input_cong [OF assms(6,7) s(2)] .
  moreover have "sig_algorithm (unsigned_rrsig key rs) = algorithm"
    using from_pkcs8_Inr(1) [OF assms(3)] by (simp add: unsigned_rrsig_def)
  ultimately show ?thesis
    unfolding verify_rrsig_Inr using s(1,3)
    by (intro exI [of _ "(unsigned_rrsig key rs)\<lparr>signature := sig\<rparr>"] exI [of _ input]) simp
qed

text \<open>
  C30: what \<open>sign_rrset\<close> signs, \<open>verify_rrsig\<close> accepts. For a key loaded from storage, the produced value
  verifies under the key's public part against any arrangement of the same record data: in any order,
  with repetitions, under another spelling of the owner; and it parses back to an RRSIG with the
  requested type, times and TTL, the key's tag and algorithm and the normalised zone as signer.
\<close>

theorem signed_rrset_verifies:
  assumes "base64_laws cd" "crypto_laws cr" "from_pkcs8 cr algorithm kt pkcs8 = Inr key"
    and "is_field (normalize_name (rs_signer_zone rs))" "sign_rrset cd cr rng key rs = Inr v"
    and "set (map (canonical_rdata cd) (rs_rrset rs)) = set (map (canonical_rdata cd) rrset)"
    and "canonical_name (rs_owner rs) = canonical_name owner"
  shows "verify_rrsig cd cr v owner rrset (sk_public key) = Inr () \<and>
    (\<exists>sig. rrsig_parse cd v =
       Inr \<lparr>type_covered = rs_type rs, sig_algorithm = algorithm, sig_labels = label_count (rs_owner rs),
            original_ttl = rs_ttl rs, expiration = rs_expiration rs, inception = rs_inception rs,
            sig_key_tag = compute_key_tag algorithm kt (sk_public key),
            signer_name = normalize_name (rs_signer_zone rs), signature = sig\<rparr>)"
proof
  show "verify_rrsig cd cr v owner rrset (sk_public key) = Inr ()"
    by (rule sign_rrset_verifies [OF assms])
  show "\<exists>sig. rrsig_parse cd v =
       Inr \<lparr>type_covered = rs_type rs, sig_algorithm = algorithm, sig_labels = label_count (rs_owner rs),
            original_ttl = rs_ttl rs, expiration = rs_expiration rs, inception = rs_inception rs,
            sig_key_tag = compute_key_tag algorithm kt (sk_public key),
            signer_name = normalize_name (rs_signer_zone rs), signature = sig\<rparr>"
    by (rule sign_rrset_Inr [OF assms(1-5)])
      (simp add: unsigned_rrsig_def from_pkcs8_Inr(1,3) [OF assms(3)])
qed

text \<open>A codec and a signature scheme in which the laws hold.\<close>

definition nibble_text :: "u8 list \<Rightarrow> string" where
  "nibble_text bs = concat (map (\<lambda>b. [char_of (65 + unat b div 16), char_of (65 + unat b mod 16)]) bs)"

fun nibble_bytes :: "string \<Rightarrow> u8 list option" where
  "nibble_bytes [] = Some []"
| "nibble_bytes [c] = None"
| "nibble_bytes (c # d # s) =
     map_option (\<lambda>bs. of_nat ((of_char c - 65) * 16 + (of_char d - 65)) # bs) (nibble_bytes s)"

definition sample_codecs :: "string codecs" where
  "sample_codecs =
     \<lparr>hex_decode = nibble_bytes, hex_encode = nibble_text, b64_decode = nibble_bytes, b64_encode = nibble_text,
      name_from_utf8 = Some, name_root = [], param_code = (\<lambda>_. 0), svcb_emit = (\<lambda>_. None)\<rparr>"

definition sample_crypto :: "(u8 list, unit) crypto" where
  "sample_crypto =
     \<lparr>ed25519_from_pkcs8 = Some, ecdsa_from_pkcs8 = (\<lambda>_ _. None), ring_public_key = (\<lambda>k. k),
      ed25519_sign = (\<lambda>k m. 1 # take 3 k @ m), ecdsa_sign = (\<lambda>_ _ _. None),
      ring_verify = (\<lambda>_ pk m s. s = 1 # take 3 pk @ m), sha256 = (\<lambda>m. take 32 m)\<rparr>"

lemma nibble_bytes_text: "nibble_bytes (nibble_text bs) = Some bs"
proof (induction bs)
  case (Cons b bs)
  have n: "unat b < 256"
    using unsigned_less [of b, where ?'a = nat] by simp
  then have "(of_char (char_of (65 + unat b div 16) :: char) :: nat) = 65 + unat b div 16"
    "(of_char (char_of (65 + unat b mod 16) :: char) :: nat) = 65 + unat b mod 16"
    by simp_all
  moreover have "(of_nat (unat b div 16 * 16 + unat b mod 16) :: u8) = b"
    by simp
  ultimately show ?case
    using Cons by (simp add: nibble_text_def)
qed (simp add: nibble_text_def)

lemma sample_base64: "base64_laws sample_codecs"
proof -
  have "\<not> is_ws (char_of (65 + n) :: char)" if "n < 16" for n :: nat
    using that by (simp add: is_ws_def)
  then have "is_field (nibble_text bs)" if "bs \<noteq> []" for bs :: "u8 list"
    using that unsigned_less [where ?'b = 8 and ?'a = nat]
    by (cases bs) (auto simp: is_field_def nibble_text_def less_mult_imp_div_less)
  then show ?thesis
    by (simp add: base64_laws_def sample_codecs_def nibble_bytes_text)
qed

lemma sample_crypto_laws: "crypto_laws sample_crypto"
  by (simp add: crypto_laws_def sample_crypto_def)

definition sample_key :: "u8 list signing_key" where
  "sample_key =
     \<lparr>sk_algorithm = Ed25519, sk_type = ZSK, sk_tag = compute_key_tag Ed25519 ZSK (replicate 32 7),
      sk_public = replicate 32 7, sk_material = Ed25519Key (replicate 32 7)\<rparr>"

definition sample_rrset :: rrset_to_sign where
  "sample_rrset =
     \<lparr>rs_signer_zone = ''Example.com'', rs_owner = ''www.example.com.'', rs_type = A, rs_ttl = 300,
      rs_rrset =
        [\<lparr>dr_id = None, dr_name = ''www.example.com.'', dr_type = A, dr_value = ''192.0.2.1'', dr_ttl = 300, dr_priority = 0\<rparr>,
         \<lparr>dr_id = None, dr_name = ''www.example.com.'', dr_type = A, dr_value = ''192.0.2.2'', dr_ttl = 300, dr_priority = 0\<rparr>],
      rs_inception = 1000, rs_expiration = 2000\<rparr>"

theorem signed_rrset_verifies_witness:
  "\<exists>v. sign_rrset sample_codecs sample_crypto () sample_key sample_rrset = Inr v \<and>
       verify_rrsig sample_codecs sample_crypto v ''WWW.Example.COM'' (rev (rs_rrset sample_rrset)) (replicate 32 7) = Inr ()"
proof -
  have key: "from_pkcs8 sample_crypto Ed25519 ZSK (replicate 32 7) = Inr sample_key"
    by (simp add: from_pkcs8_def sample_key_def load_material_def sample_crypto_def signing_supported_def)
  have f: "is_field (normalize_name (rs_signer_zone sample_rrset))"
    by code_simp
  have n: "canonical_name (rs_owner sample_rrset) = canonical_name ''WWW.Example.COM''"
    by code_simp
  have d: "map (canonical_rdata sample_codecs) (rs_rrset sample_rrset) = map Some [[192, 0, 2, 1], [192, 0, 2, 2]]"
    by code_simp
  have "canonical_name (rs_owner sample_rrset) \<noteq> None" "canonical_name (normalize_name (rs_signer_zone sample_rrset)) \<noteq> None"
    by code_simp+
  then obtain ow sw where w: "canonical_name (rs_owner sample_rrset) = Some ow"
      "canonical_name (normalize_name (rs_signer_zone sample_rrset)) = Some sw"
    by blast
  have k: "\<exists>sig. key_sign sample_crypto sample_key () m = Inr sig" for m
    by (simp add: key_sign_def sample_key_def)
  have r: "rs_rrset sample_rrset \<noteq> []" "rs_type sample_rrset \<noteq> RRSIG"
    by (simp_all add: sample_rrset_def)
  obtain v where v: "sign_rrset sample_codecs sample_crypto () sample_key sample_rrset = Inr v"
    using sign_rrset_total [OF r d _ w k] by (auto simp del: list.map)
  have s: "set (map (canonical_rdata sample_codecs) (rs_rrset sample_rrset)) =
      set (map (canonical_rdata sample_codecs) (rev (rs_rrset sample_rrset)))"
    by simp
  have "sk_public sample_key = replicate 32 7"
    by (simp add: sample_key_def)
  with signed_rrset_verifies [OF sample_base64 sample_crypto_laws key f v s n, THEN conjunct1] v show ?thesis
    by (intro exI [of _ v]) simp
qed

section \<open>Two divergences\<close>

lemma trim_id: "s \<noteq> [] \<Longrightarrow> \<not> is_ws (hd s) \<Longrightarrow> \<not> is_ws (last s) \<Longrightarrow> trim s = s"
proof -
  assume a: "s \<noteq> []" "\<not> is_ws (hd s)" "\<not> is_ws (last s)"
  have "dropWhile is_ws t = t" if "t \<noteq> []" "\<not> is_ws (hd t)" for t
    using that by (cases t) auto
  from this [of s] this [of "rev s"] a show ?thesis
    by (simp add: trim_def hd_rev)
qed

text \<open>
  The text \<open>compute_ds_sha256\<close> produces has five fields, so reading it as a DS record takes the digit
  of the fourth field for the digest, and the record has no canonical form.
\<close>

lemma ds_text_not_encodable:
  assumes "hex_decode cd ''1'' = None" "\<And>m. is_field (hex_encode cd m)"
    "dr_type r = DS" "dr_value r = compute_ds_sha256 cd cr zone tag algorithm public_key kt"
  shows "canonical_rdata cd r = None"
proof -
  let ?fs = "\<lambda>h. [show_nat (unat tag), show_nat (unat (alg_number algorithm)), ''1'', ''1'', h]"
  obtain h where v: "dr_value r = join_with '' '' (?fs h)" and h: "is_field h"
    using assms(2,4) by (auto simp: compute_ds_sha256_def Let_def)
  have "hd (show_nat (unat tag)) \<in> set (show_nat (unat tag))"
    by simp
  then have "\<not> is_ws (hd (show_nat (unat tag)))"
    using show_nat_not_ws by blast
  then have "trim (dr_value r) = dr_value r"
    unfolding v using h by (intro trim_id) (auto simp: is_field_def)
  moreover have "is_field ''1''"
    by code_simp
  then have "split_ws (dr_value r) = ?fs h"
    unfolding v using h by (intro split_ws_join) auto
  ultimately show ?thesis
    using assms(1,3) by (simp add: canonical_rdata_def Let_def)
qed

text \<open>
  The target of a URI record is located by the first occurrence of its text in the value, which may
  lie in an earlier field.
\<close>

lemma uri_target_found_early:
  "canonical_rdata sample_codecs
     \<lparr>dr_id = None, dr_name = ''u.example.'', dr_type = URI, dr_value = ''10 1 1'', dr_ttl = 60, dr_priority = 0\<rparr> =
   Some ([0, 10, 0, 1] @ bytes_of ''10 1 1'')"
  by code_simp

end
