(* ===== verification/Zone_Signer.thy ===== *)
theory Zone_Signer
  imports Dnssec "HOL-Library.Product_Lexorder"
begin

text \<open>
  Signing a zone (\<open>src/src/zone_signer.rs\<close>): loading the keys, republishing the DNSKEY set, rebuilding
  the NSEC chain, replacing every signature, and the marks that bracket the pass, as one operation on
  the record database.

  Randomness for the signatures is the function \<open>draw\<close>, the order in which a hash set is walked the
  function \<open>order\<close>, and the reading of the clock the option \<open>clock\<close>. \<open>publish_zone\<close> is the part of the
  pass after the zone has been read; it takes the records that were read apart from the database, so a
  change that lands in between is a different database argument.
\<close>

section \<open>Definitions\<close>

definition DNSKEY_TTL :: u32 where
  "DNSKEY_TTL = 3600"

definition NSEC_FALLBACK_TTL :: u32 where
  "NSEC_FALLBACK_TTL = 300"

definition RRSIG_INCEPTION_BACKDATE_SECS :: nat where
  "RRSIG_INCEPTION_BACKDATE_SECS = 3600"

definition RRSIG_VALIDITY_SECS :: nat where
  "RRSIG_VALIDITY_SECS = 30 * 86400"

datatype key_warning = WarnAlgorithm int string | WarnKeyType int string | WarnUnusable int string dnssec_error

datatype not_signed = NoKeys | NoUsableKeys "key_warning list"

record sign_summary =
  sum_keys :: nat
  sum_signed :: nat
  sum_nsec :: nat
  sum_skipped :: "string list"
  sum_warnings :: "key_warning list"

datatype sign_outcome = NotSigned not_signed | Signed sign_summary

datatype sign_error = ClockFailed | SignFailed string RecordKind dnssec_error

text \<open>\<open>saturating_sub\<close> and \<open>saturating_add\<close> on \<open>u32\<close>.\<close>

definition sat_sub :: "u32 \<Rightarrow> nat \<Rightarrow> u32" where
  "sat_sub x n = of_nat (unat x - n)"

definition sat_add :: "u32 \<Rightarrow> nat \<Rightarrow> u32" where
  "sat_add x n = of_nat (min (unat x + n) (2 ^ 32 - 1))"

definition apex_negative_ttl :: "dns_record list \<Rightarrow> string \<Rightarrow> u32" where
  "apex_negative_ttl records zone =
     (let apex = normalize_name zone
      in case Option.bind (find (\<lambda>r. dr_type r = SOA \<and> normalize_name (dr_name r) = apex) records)
             (\<lambda>soa. let fs = split_ws (dr_value soa)
                    in if length fs \<le> 6 then None
                       else map_option (\<lambda>minimum. min minimum (dr_ttl soa)) (parse_u32 (fs ! 6))) of
           Some t \<Rightarrow> t
         | None \<Rightarrow> NSEC_FALLBACK_TTL)"

fun load_keys :: "('k, 'r) crypto \<Rightarrow> dnssec_key list \<Rightarrow> key_warning list \<times> 'k signing_key list" where
  "load_keys cr [] = ([], [])"
| "load_keys cr (key # ks) =
     (let (warnings, loaded) = load_keys cr ks
      in case alg_parse (key_algorithm key) of
           None \<Rightarrow> (WarnAlgorithm (key_id key) (key_algorithm key) # warnings, loaded)
         | Some algo \<Rightarrow>
             (case keytype_parse (key_type key) of
                None \<Rightarrow> (WarnKeyType (key_id key) (key_type key) # warnings, loaded)
              | Some kt \<Rightarrow>
                  (case from_pkcs8 cr algo kt (key_private key) of
                     Inr sk \<Rightarrow> (warnings, sk # loaded)
                   | Inl e \<Rightarrow> (WarnUnusable (key_id key) (key_algorithm key) e # warnings, loaded))))"

definition dnskey_record :: "'n codecs \<Rightarrow> string \<Rightarrow> 'k signing_key \<Rightarrow> dns_record" where
  "dnskey_record cd zone key =
     \<lparr>dr_id = None, dr_name = zone, dr_type = DNSKEY,
      dr_value = join_with '' '' [show_nat (unat (keytype_flags (sk_type key))), ''3'',
                                  show_nat (unat (alg_number (sk_algorithm key))), b64_encode cd (sk_public key)],
      dr_ttl = DNSKEY_TTL, dr_priority = 0\<rparr>"

definition add_records :: "dns_record list \<Rightarrow> 'a records_db_scheme \<Rightarrow> 'a records_db_scheme" where
  "add_records rs db = fold (\<lambda>r db. snd (add_record r db)) rs db"

type_synonym rrset_table = "(string \<times> RecordKind, dns_record list) table"

text \<open>One record of the zone as read: the sets to sign and the names whose old signatures go.\<close>

definition group_step :: "string \<Rightarrow> dns_record \<Rightarrow> rrset_table \<times> string list \<Rightarrow> rrset_table \<times> string list" where
  "group_step zone record st =
     (let (rrsets, names) = st
      in if \<not> name_in_zone (dr_name record) zone then (rrsets, names)
         else (let names' = List.insert (dr_name record) names
               in if dr_type record = RRSIG \<or> dr_type record = NSEC then (rrsets, names')
                  else (let key = (dr_name record, dr_type record);
                            old = (case map_of rrsets key of Some rs \<Rightarrow> rs | None \<Rightarrow> [])
                        in (AList.update key (old @ [record]) rrsets, names'))))"

definition clear_name :: "string \<Rightarrow> 'a records_db_scheme \<Rightarrow> 'a records_db_scheme" where
  "clear_name name db =
     snd (remove_records name (Some NSEC) [] (snd (remove_records name (Some RRSIG) [] db)))"

definition nsec_record :: "u32 \<Rightarrow> string \<times> nsec \<Rightarrow> dns_record" where
  "nsec_record ttl link =
     \<lparr>dr_id = None, dr_name = fst link, dr_type = NSEC, dr_value = nsec_to_value (snd link), dr_ttl = ttl,
      dr_priority = 0\<rparr>"

text \<open>The keys that sign a set: the KSKs for the apex DNSKEY set, the ZSKs otherwise, all where there are none.\<close>

definition signers_for :: "string \<Rightarrow> 'k signing_key list \<Rightarrow> string \<Rightarrow> RecordKind \<Rightarrow> 'k signing_key list" where
  "signers_for zone sks owner kind =
     (let wanted = (if kind = DNSKEY \<and> owner = zone then KSK else ZSK);
          signers = filter (\<lambda>k. sk_type k = wanted) sks
      in if signers = [] then sks else signers)"

fun min_ttl :: "dns_record list \<Rightarrow> u32" where
  "min_ttl [] = DNSKEY_TTL"
| "min_ttl [r] = dr_ttl r"
| "min_ttl (r # rs) = min (dr_ttl r) (min_ttl rs)"

definition rrsig_record :: "string \<Rightarrow> u32 \<Rightarrow> string \<Rightarrow> dns_record" where
  "rrsig_record owner ttl val =
     \<lparr>dr_id = None, dr_name = owner, dr_type = RRSIG, dr_value = val, dr_ttl = ttl, dr_priority = 0\<rparr>"

fun sign_with ::
  "'n codecs \<Rightarrow> ('k, 'r) crypto \<Rightarrow> (string \<Rightarrow> RecordKind \<Rightarrow> 'k signing_key \<Rightarrow> 'r) \<Rightarrow> rrset_to_sign
     \<Rightarrow> 'k signing_key list \<Rightarrow> 'a records_db_scheme \<Rightarrow> sign_error option \<times> 'a records_db_scheme" where
  "sign_with cd cr draw rs [] db = (None, db)"
| "sign_with cd cr draw rs (key # ks) db =
     (case sign_rrset cd cr (draw (rs_owner rs) (rs_type rs) key) key rs of
        Inl e \<Rightarrow> (Some (SignFailed (rs_owner rs) (rs_type rs) e), db)
      | Inr val \<Rightarrow>
          sign_with cd cr draw rs ks (snd (add_record (rrsig_record (rs_owner rs) (rs_ttl rs) val) db)))"

definition to_sign :: "string \<Rightarrow> u32 \<Rightarrow> (string \<times> RecordKind) \<times> dns_record list \<Rightarrow> rrset_to_sign" where
  "to_sign zone now entry =
     \<lparr>rs_signer_zone = zone, rs_owner = fst (fst entry), rs_type = snd (fst entry),
      rs_ttl = min_ttl (snd entry), rs_rrset = snd entry,
      rs_inception = sat_sub now RRSIG_INCEPTION_BACKDATE_SECS,
      rs_expiration = sat_add now RRSIG_VALIDITY_SECS\<rparr>"

lemma to_sign_simps [simp]:
  "rs_signer_zone (to_sign zone now e) = zone" "rs_owner (to_sign zone now e) = fst (fst e)"
  "rs_type (to_sign zone now e) = snd (fst e)" "rs_ttl (to_sign zone now e) = min_ttl (snd e)"
  "rs_rrset (to_sign zone now e) = snd e"
  by (simp_all add: to_sign_def)

text \<open>The signing loop, with the count of signed sets and the skipped ones.\<close>

fun sign_sets ::
  "'n codecs \<Rightarrow> ('k, 'r) crypto \<Rightarrow> (string \<Rightarrow> RecordKind \<Rightarrow> 'k signing_key \<Rightarrow> 'r) \<Rightarrow> string \<Rightarrow> u32
     \<Rightarrow> 'k signing_key list \<Rightarrow> ((string \<times> RecordKind) \<times> dns_record list) list \<Rightarrow> 'a records_db_scheme
     \<Rightarrow> (sign_error + nat \<times> string list) \<times> 'a records_db_scheme" where
  "sign_sets cd cr draw zone now sks [] db = (Inr (0, []), db)"
| "sign_sets cd cr draw zone now sks (entry # entries) db =
     (let ((owner, kind), records) = entry
      in if list_ex (\<lambda>r. canonical_rdata cd r = None) records
         then (case sign_sets cd cr draw zone now sks entries db of
                 (Inl e, db') \<Rightarrow> (Inl e, db')
               | (Inr (n, skipped), db') \<Rightarrow> (Inr (n, (owner @ '' '' @ as_str kind) # skipped), db'))
         else (case sign_with cd cr draw (to_sign zone now entry) (signers_for zone sks owner kind) db of
                 (Some e, db') \<Rightarrow> (Inl e, db')
               | (None, db1) \<Rightarrow>
                   (case sign_sets cd cr draw zone now sks entries db1 of
                      (Inl e, db') \<Rightarrow> (Inl e, db')
                    | (Inr (n, skipped), db') \<Rightarrow> (Inr (Suc n, skipped), db'))))"

definition entry_order :: "(string \<times> RecordKind) \<times> dns_record list \<Rightarrow> u8 list \<times> u16" where
  "entry_order entry = (bytes_of (fst (fst entry)), wire_type (snd (fst entry)))"

definition publish_zone ::
  "'n codecs \<Rightarrow> ('k, 'r) crypto \<Rightarrow> (string \<Rightarrow> RecordKind \<Rightarrow> 'k signing_key \<Rightarrow> 'r) \<Rightarrow> (string list \<Rightarrow> string list)
     \<Rightarrow> u32 option \<Rightarrow> string \<Rightarrow> key_warning list \<Rightarrow> 'k signing_key list \<Rightarrow> dns_record list \<Rightarrow> 'a records_db_scheme
     \<Rightarrow> (sign_error + sign_outcome) \<times> 'a records_db_scheme" where
  "publish_zone cd cr draw order clock zone warnings sks candidates db =
     (let chain = build_nsec_chain zone candidates;
          nsec_ttl = apex_negative_ttl candidates zone;
          (rrsets, signed_names) = fold (group_step zone) candidates ([], [])
      in case clock of
           None \<Rightarrow> (Inl ClockFailed, db)
         | Some now \<Rightarrow>
             (let db1 = fold clear_name (order signed_names) db;
                  nsecs = map (nsec_record nsec_ttl) chain;
                  db2 = add_records nsecs db1;
                  rrsets' = fold (\<lambda>r. AList.update (dr_name r, NSEC) [r]) nsecs rrsets
              in case sign_sets cd cr draw zone now sks (sort_key entry_order rrsets') db2 of
                   (Inl e, db3) \<Rightarrow> (Inl e, db3)
                 | (Inr (n, skipped), db3) \<Rightarrow>
                     (Inr (Signed \<lparr>sum_keys = length sks, sum_signed = n, sum_nsec = length chain,
                                   sum_skipped = skipped, sum_warnings = warnings\<rparr>), db3)))"

definition sign_zone_body ::
  "'n codecs \<Rightarrow> ('k, 'r) crypto \<Rightarrow> (string \<Rightarrow> RecordKind \<Rightarrow> 'k signing_key \<Rightarrow> 'r) \<Rightarrow> (string list \<Rightarrow> string list)
     \<Rightarrow> u32 option \<Rightarrow> string \<Rightarrow> 'a records_db_scheme \<Rightarrow> (sign_error + sign_outcome) \<times> 'a records_db_scheme" where
  "sign_zone_body cd cr draw order clock zone db =
     (let all_keys = list_dnssec_keys db zone
      in if all_keys = [] then (Inr (NotSigned NoKeys), db)
         else (let (warnings, sks) = load_keys cr (filter key_active all_keys)
               in if sks = [] then (Inr (NotSigned (NoUsableKeys warnings)), db)
                  else (let db1 = snd (remove_records zone (Some DNSKEY) [] db);
                            db2 = add_records (map (dnskey_record cd zone) sks) db1;
                            db3 = clear_zone_resign_pending zone db2;
                            candidates = list_records db3 (''*.'' @ zone) None
                        in publish_zone cd cr draw order clock zone warnings sks candidates db3)))"

text \<open>The guard's mark is set around the whole pass.\<close>

definition sign_zone ::
  "'n codecs \<Rightarrow> ('k, 'r) crypto \<Rightarrow> (string \<Rightarrow> RecordKind \<Rightarrow> 'k signing_key \<Rightarrow> 'r) \<Rightarrow> (string list \<Rightarrow> string list)
     \<Rightarrow> u32 option \<Rightarrow> string \<Rightarrow> 'a records_db_scheme \<Rightarrow> (sign_error + sign_outcome) \<times> 'a records_db_scheme" where
  "sign_zone cd cr draw order clock zone db =
     (let z = normalize_name zone;
          (result, db') = sign_zone_body cd cr draw order clock z (begin_zone_resign z db)
      in (result, end_zone_resign z db'))"

section \<open>Effects of the single steps\<close>

lemma add_record_marks_product:
  "\<not> is_zone_content (dr_type r) \<Longrightarrow> resign_pending (snd (add_record r db)) = resign_pending db"
  "resign_active (snd (add_record r db)) = resign_active db"
  by (simp_all add: add_record_def Let_def)

lemma remove_records_marks_product:
  "\<not> is_zone_content t \<Longrightarrow> resign_pending (snd (remove_records n (Some t) v db)) = resign_pending db"
  "resign_active (snd (remove_records n (Some t) v db)) = resign_active db"
  by (simp_all add: remove_records_def Let_def split: option.split)

lemma product_kinds [simp]: "\<not> is_zone_content NSEC" "\<not> is_zone_content RRSIG" "\<not> is_zone_content DNSKEY"
  by (simp_all add: is_zone_content_def)

lemma records_inv_add: "records_inv db \<Longrightarrow> records_inv (snd (add_record r db))"
  using records_inv_exec [of db "AddRecord r"] by simp

lemma records_inv_remove: "records_inv db \<Longrightarrow> records_inv (snd (remove_records n t v db))"
  using records_inv_exec [of db "RemoveRecords n t v"] by simp

fun stamped :: "int \<Rightarrow> dns_record list \<Rightarrow> dns_record list" where
  "stamped i [] = []"
| "stamped i (r # rs) = r\<lparr>dr_id := Some i, dr_name := normalize_name (dr_name r)\<rparr> # stamped (i + 1) rs"

lemma add_records_simps [simp]:
  "add_records [] db = db" "add_records (r # rs) db = add_records rs (snd (add_record r db))"
  "add_records (rs @ ss) db = add_records ss (add_records rs db)"
  by (simp_all add: add_records_def)

lemma record_abs_add_records: "record_abs (add_records rs db) = record_abs db @ stamped (next_rowid db) rs"
  by (induction rs arbitrary: db) (simp_all add: add_record_abs)

lemma add_records_props:
  "records_inv db \<Longrightarrow> records_inv (add_records rs db)"
  "resign_active (add_records rs db) = resign_active db"
  "\<forall>r\<in>set rs. \<not> is_zone_content (dr_type r) \<Longrightarrow> resign_pending (add_records rs db) = resign_pending db"
  by (induction rs arbitrary: db) (simp_all add: records_inv_add add_record_marks_product)

lemma set_stamped: "r \<in> set (stamped i rs) \<Longrightarrow> \<exists>s\<in>set rs. \<exists>j. r = s\<lparr>dr_id := j, dr_name := normalize_name (dr_name s)\<rparr>"
  by (induction rs arbitrary: i) auto

lemma stamped_has: "s \<in> set rs \<Longrightarrow> \<exists>j. s\<lparr>dr_id := j, dr_name := normalize_name (dr_name s)\<rparr> \<in> set (stamped i rs)"
  by (induction rs arbitrary: i) auto

lemma filter_stamped:
  assumes "\<And>r j. r \<in> set rs \<Longrightarrow> P (r\<lparr>dr_id := j, dr_name := normalize_name (dr_name r)\<rparr>) = Q r"
  shows "map (\<lambda>r. r\<lparr>dr_id := None\<rparr>) (filter P (stamped i rs)) =
           map (\<lambda>r. r\<lparr>dr_id := None, dr_name := normalize_name (dr_name r)\<rparr>) (filter Q rs)"
  using assms by (induction rs arbitrary: i) auto

lemma clear_name_abs:
  assumes "records_inv db"
  shows "record_abs (clear_name name db) =
           filter (\<lambda>r. \<not> (dr_name r = normalize_name name \<and> (dr_type r = RRSIG \<or> dr_type r = NSEC))) (record_abs db)"
    and "records_inv (clear_name name db)" "resign_pending (clear_name name db) = resign_pending db"
    and "resign_active (clear_name name db) = resign_active db"
proof -
  have i: "records_inv (snd (remove_records name (Some RRSIG) [] db))"
    using assms by (rule records_inv_remove)
  show "record_abs (clear_name name db) =
           filter (\<lambda>r. \<not> (dr_name r = normalize_name name \<and> (dr_type r = RRSIG \<or> dr_type r = NSEC))) (record_abs db)"
    unfolding clear_name_def remove_records_abs(1) [OF i] remove_records_abs(1) [OF assms] filter_filter
    by (rule filter_cong) (auto simp: selects_def)
  show "records_inv (clear_name name db)"
    unfolding clear_name_def by (intro records_inv_remove assms)
qed (simp_all add: clear_name_def remove_records_marks_product)

lemma clear_names_abs:
  assumes "records_inv db"
  shows "record_abs (fold clear_name names db) =
           filter (\<lambda>r. \<not> (dr_name r \<in> normalize_name ` set names \<and> (dr_type r = RRSIG \<or> dr_type r = NSEC))) (record_abs db)
         \<and> records_inv (fold clear_name names db)
         \<and> resign_pending (fold clear_name names db) = resign_pending db
         \<and> resign_active (fold clear_name names db) = resign_active db"
  using assms
proof (induction names arbitrary: db)
  case (Cons n ns)
  note c = clear_name_abs [OF Cons.prems, of n]
  show ?case
    using Cons.IH [OF c(2)] c by (auto intro!: filter_cong)
qed simp

section \<open>Reading the zone\<close>

lemma like_toks_self: "\<exists>ts. like_toks None p = Some ts \<and> like_match ts p"
proof (induction p)
  case (Cons c p)
  then obtain ts where ts: "like_toks None p = Some ts" "like_match ts p"
    by blast
  have "like_match (Any # ts) (d # p)" for d
    unfolding like_match_Any using ts(2) by (auto intro: exI [of _ p] suffix_ConsI)
  with ts show ?case
    by simp
qed simp

lemma sql_like_suffix: "suffix z n \<Longrightarrow> sql_like None (CHR ''%'' # z) n"
  using like_toks_self [of z] by (auto simp: sql_like_def like_match_Any simp del: like_match.simps)

lemma name_in_zone_suffix:
  assumes "name_in_zone n z" "normalize_name n = n" "normalize_name z = z"
  shows "suffix z n"
proof -
  have "suffix [dot] n"
    using normalize_name_last [of n] assms(2) by (simp add: suffix_singleton)
  then show ?thesis
    using assms by (auto simp: name_in_zone_def ends_with_def split: if_splits dest: suffix_ConsD)
qed

lemma zone_records_listed:
  assumes "records_inv db" "normalize_name z = z"
  shows "filter (\<lambda>r. name_in_zone (dr_name r) z \<and> Q r) (list_records db (''*.'' @ z) None) =
         filter (\<lambda>r. name_in_zone (dr_name r) z \<and> Q r) (record_abs db)"
proof -
  have "name_filter_matches (''*.'' @ z) r"
    if "r \<in> set (dns_records db)" "name_in_zone (row_name r) z" for r
    using that assms sql_like_suffix [OF name_in_zone_suffix [of "row_name r" z]]
    by (auto simp: name_filter_matches_def strip_prefix_def records_inv_def stored_rows_def)
  then show ?thesis
    by (auto simp: list_records_def Let_def strip_prefix_def record_abs_def filter_map comp_def intro!: arg_cong [where f = "map row_mapper"] filter_cong)
qed

text \<open>The sets collected from the records read.\<close>

definition in_rrset :: "string \<Rightarrow> string \<times> RecordKind \<Rightarrow> dns_record \<Rightarrow> bool" where
  "in_rrset zone key r \<longleftrightarrow>
     name_in_zone (dr_name r) zone \<and> dr_type r \<noteq> RRSIG \<and> dr_type r \<noteq> NSEC \<and> (dr_name r, dr_type r) = key"

abbreviation rrset_of :: "rrset_table \<Rightarrow> string \<times> RecordKind \<Rightarrow> dns_record list" where
  "rrset_of t key \<equiv> (case map_of t key of Some rs \<Rightarrow> rs | None \<Rightarrow> [])"

lemma group_step_props:
  "rrset_of (fst (group_step zone r st)) key = rrset_of (fst st) key @ (if in_rrset zone key r then [r] else [])"
  "set (snd (group_step zone r st)) = (if name_in_zone (dr_name r) zone then insert (dr_name r) (set (snd st)) else set (snd st))"
  "wf_table (fst st) \<Longrightarrow> wf_table (fst (group_step zone r st))"
  "[] \<notin> ran (map_of (fst st)) \<Longrightarrow> [] \<notin> ran (map_of (fst (group_step zone r st)))"
  by (auto simp: group_step_def in_rrset_def Let_def ran_def split: prod.splits if_splits)

lemma group_fold_props:
  "rrset_of (fst (fold (group_step zone) rs st)) key = rrset_of (fst st) key @ filter (in_rrset zone key) rs"
  "set (snd (fold (group_step zone) rs st)) = set (snd st) \<union> dr_name ` {r \<in> set rs. name_in_zone (dr_name r) zone}"
  "wf_table (fst st) \<Longrightarrow> wf_table (fst (fold (group_step zone) rs st))"
  "[] \<notin> ran (map_of (fst st)) \<Longrightarrow> [] \<notin> ran (map_of (fst (fold (group_step zone) rs st)))"
proof (induction rs arbitrary: st)
  case (Cons r rs)
  {
    case 1
    show ?case by (simp add: Cons.IH(1) group_step_props)
  next
    case 2
    show ?case by (auto simp: Cons.IH(2) group_step_props)
  next
    case 3
    then show ?case by (simp add: Cons.IH(3) group_step_props)
  next
    case 4
    then show ?case by (simp add: Cons.IH(4) group_step_props)
  }
qed simp_all

section \<open>The signing loop\<close>

definition signed_by ::
  "'n codecs \<Rightarrow> ('k, 'r) crypto \<Rightarrow> (string \<Rightarrow> RecordKind \<Rightarrow> 'k signing_key \<Rightarrow> 'r) \<Rightarrow> string \<Rightarrow> u32
     \<Rightarrow> (string \<times> RecordKind) \<times> dns_record list \<Rightarrow> 'k signing_key \<Rightarrow> dns_record \<Rightarrow> bool" where
  "signed_by cd cr draw zone now entry key l \<longleftrightarrow>
     (\<exists>v. sign_rrset cd cr (draw (fst (fst entry)) (snd (fst entry)) key) key (to_sign zone now entry) = Inr v \<and>
          l = rrsig_record (fst (fst entry)) (min_ttl (snd entry)) v)"

lemma sign_with_adds: "\<exists>L. snd (sign_with cd cr draw rs ks db) = add_records L db \<and> (\<forall>l\<in>set L. dr_type l = RRSIG)"
proof (induction ks arbitrary: db)
  case Nil
  show ?case by (intro exI [of _ "[]"]) simp
next
  case (Cons k ks)
  show ?case
  proof (cases "sign_rrset cd cr (draw (rs_owner rs) (rs_type rs) k) k rs")
    case (Inl e)
    then show ?thesis by (intro exI [of _ "[]"]) simp
  next
    case (Inr v)
    let ?r = "rrsig_record (rs_owner rs) (rs_ttl rs) v"
    obtain L where "snd (sign_with cd cr draw rs ks (snd (add_record ?r db))) = add_records L (snd (add_record ?r db))"
        "\<forall>l\<in>set L. dr_type l = RRSIG"
      using Cons.IH by blast
    then show ?thesis
      by (intro exI [of _ "?r # L"]) (simp add: Inr rrsig_record_def)
  qed
qed

lemma sign_sets_adds: "\<exists>L. snd (sign_sets cd cr draw zone now sks entries db) = add_records L db \<and> (\<forall>l\<in>set L. dr_type l = RRSIG)"
proof (induction entries arbitrary: db)
  case Nil
  show ?case by (intro exI [of _ "[]"]) simp
next
  case (Cons e es)
  obtain owner kind records where e: "e = ((owner, kind), records)"
    by (metis surj_pair)
  show ?case
  proof (cases "list_ex (\<lambda>r. canonical_rdata cd r = None) records")
    case True
    then have "snd (sign_sets cd cr draw zone now sks (e # es) db) = snd (sign_sets cd cr draw zone now sks es db)"
      by (auto simp: e split: prod.splits sum.splits)
    then show ?thesis
      using Cons.IH [of db] by simp
  next
    case False
    obtain x db1 where w: "sign_with cd cr draw (to_sign zone now e) (signers_for zone sks owner kind) db = (x, db1)"
      by fastforce
    then obtain L where L: "db1 = add_records L db" "\<forall>l\<in>set L. dr_type l = RRSIG"
      using sign_with_adds [of cd cr draw "to_sign zone now e" "signers_for zone sks owner kind" db] by auto
    obtain M where M: "snd (sign_sets cd cr draw zone now sks es db1) = add_records M db1" "\<forall>l\<in>set M. dr_type l = RRSIG"
      using Cons.IH by blast
    show ?thesis
    proof (cases x)
      case None
      then have "snd (sign_sets cd cr draw zone now sks (e # es) db) = add_records (L @ M) db"
        using False w M L by (auto simp: e split: prod.splits sum.splits)
      then show ?thesis
        using L(2) M(2) by (intro exI [of _ "L @ M"]) auto
    next
      case (Some err)
      then have "snd (sign_sets cd cr draw zone now sks (e # es) db) = add_records L db"
        using False w L by (auto simp: e split: prod.splits)
      then show ?thesis
        using L(2) by blast
    qed
  qed
qed

lemma sign_with_signed:
  assumes "sign_with cd cr draw (to_sign zone now e) ks db = (None, db')"
  shows "\<exists>L. db' = add_records L db \<and> list_all2 (signed_by cd cr draw zone now e) ks L"
  using assms
proof (induction ks arbitrary: db)
  case (Cons k ks)
  obtain v where v: "sign_rrset cd cr (draw (fst (fst e)) (snd (fst e)) k) k (to_sign zone now e) = Inr v"
    using Cons.prems by (auto simp: to_sign_def split: sum.splits)
  let ?r = "rrsig_record (fst (fst e)) (min_ttl (snd e)) v"
  obtain L where "db' = add_records L (snd (add_record ?r db))" "list_all2 (signed_by cd cr draw zone now e) ks L"
    using Cons.IH [of "snd (add_record ?r db)"] Cons.prems v by (auto simp: to_sign_def)
  moreover have "signed_by cd cr draw zone now e k ?r"
    using v by (auto simp: signed_by_def)
  ultimately show ?case
    by (intro exI [of _ "?r # L"]) simp
qed simp

lemma signers_for_props: "set (signers_for zone sks owner kind) \<subseteq> set sks" "sks \<noteq> [] \<Longrightarrow> signers_for zone sks owner kind \<noteq> []"
  by (auto simp: signers_for_def Let_def)

lemma sign_sets_signed:
  assumes "sign_sets cd cr draw zone now sks entries db = (Inr out, db')" "sks \<noteq> []"
  shows "\<exists>L. db' = add_records L db \<and>
    (\<forall>l\<in>set L. \<exists>e\<in>set entries. \<exists>k\<in>set sks. signed_by cd cr draw zone now e k l) \<and>
    (\<forall>e\<in>set entries. (\<forall>r\<in>set (snd e). canonical_rdata cd r \<noteq> None) \<longrightarrow>
       (\<exists>l\<in>set L. \<exists>k\<in>set sks. signed_by cd cr draw zone now e k l))"
  using assms(1)
proof (induction entries arbitrary: db out)
  case Nil
  then show ?case by (intro exI [of _ "[]"]) simp
next
  case (Cons e es)
  obtain owner kind records where e: "e = ((owner, kind), records)"
    by (metis surj_pair)
  show ?case
  proof (cases "list_ex (\<lambda>r. canonical_rdata cd r = None) records")
    case True
    then obtain out' where "sign_sets cd cr draw zone now sks es db = (Inr out', db')"
      using Cons.prems by (auto simp: e split: prod.splits sum.splits)
    from Cons.IH [OF this] obtain L where L: "db' = add_records L db"
        "\<forall>l\<in>set L. \<exists>e\<in>set es. \<exists>k\<in>set sks. signed_by cd cr draw zone now e k l"
        "\<forall>e\<in>set es. (\<forall>r\<in>set (snd e). canonical_rdata cd r \<noteq> None) \<longrightarrow>
           (\<exists>l\<in>set L. \<exists>k\<in>set sks. signed_by cd cr draw zone now e k l)"
      by blast
    have "\<exists>r\<in>set (snd e). canonical_rdata cd r = None"
      using True by (simp add: e list_ex_iff)
    then show ?thesis
      using L by (intro exI [of _ L]) auto
  next
    case False
    obtain db1 out' where w: "sign_with cd cr draw (to_sign zone now e) (signers_for zone sks owner kind) db = (None, db1)"
        "sign_sets cd cr draw zone now sks es db1 = (Inr out', db')"
      using Cons.prems False by (auto simp: e split: prod.splits sum.splits option.splits)
    obtain K where K: "db1 = add_records K db" "list_all2 (signed_by cd cr draw zone now e) (signers_for zone sks owner kind) K"
      using sign_with_signed [OF w(1)] by blast
    from Cons.IH [OF w(2)] obtain L where L: "db' = add_records L db1"
        "\<forall>l\<in>set L. \<exists>e\<in>set es. \<exists>k\<in>set sks. signed_by cd cr draw zone now e k l"
        "\<forall>e\<in>set es. (\<forall>r\<in>set (snd e). canonical_rdata cd r \<noteq> None) \<longrightarrow>
           (\<exists>l\<in>set L. \<exists>k\<in>set sks. signed_by cd cr draw zone now e k l)"
      by blast
    have "\<forall>l\<in>set K. \<exists>k\<in>set sks. signed_by cd cr draw zone now e k l"
      using K(2) signers_for_props(1) [where zone = zone and sks = sks and owner = owner and kind = kind] by (fastforce simp: list_all2_conv_all_nth in_set_conv_nth)
    moreover have "\<exists>l\<in>set K. \<exists>k\<in>set sks. signed_by cd cr draw zone now e k l"
      using K(2) signers_for_props [where zone = zone and sks = sks and owner = owner and kind = kind] assms(2)
      by (cases "signers_for zone sks owner kind"; cases K) auto
    moreover have "db' = add_records (K @ L) db"
      using K(1) L(1) by simp
    ultimately show ?thesis
      using L(2,3) by (intro exI [of _ "K @ L"]) (metis (no_types, lifting) Un_iff insert_iff list.set(2) set_append)
  qed
qed

section \<open>The published zone\<close>

lemma nsec_table_other:
  "k \<noteq> NSEC \<or> owner \<notin> dr_name ` set rs \<Longrightarrow>
     map_of (fold (\<lambda>r. AList.update (dr_name r, NSEC) [r]) rs t) (owner, k) = map_of t (owner, k)"
  by (induction rs arbitrary: t) auto

lemma nsec_table_owner:
  "distinct (map dr_name rs) \<Longrightarrow> r \<in> set rs \<Longrightarrow>
     map_of (fold (\<lambda>r. AList.update (dr_name r, NSEC) [r]) rs t) (dr_name r, NSEC) = Some [r]"
proof (induction rs arbitrary: t)
  case (Cons x rs)
  then show ?case
    using nsec_table_other [of NSEC "dr_name x" rs] by (cases "r = x") auto
qed simp

lemma nsec_table_wf: "wf_table t \<Longrightarrow> wf_table (fold (\<lambda>r. AList.update (dr_name r, NSEC) [r]) rs t)"
  by (induction rs arbitrary: t) simp_all

lemma distinct_chain_owners: "distinct (map fst (build_nsec_chain zone records))"
  using owner_list_props(2) [of zone records] by (simp add: build_nsec_chain_eq comp_def map_nth)

lemma chain_owner_in_zone:
  assumes "link \<in> set (build_nsec_chain zone records)"
  shows "normalize_name (fst link) = fst link" "name_in_zone (fst link) zone"
proof -
  have "fst link \<in> zone_owners zone records"
    using assms nsec_chain_owners [of zone records] by blast
  then show "normalize_name (fst link) = fst link" "name_in_zone (fst link) zone"
    by (auto simp: zone_owners_def chained_def)
qed

lemma build_nsec_chain_chained: "build_nsec_chain zone (filter (chained zone) records) = build_nsec_chain zone records"
proof -
  have "chain_step (normalize_name zone) r t = t" if "\<not> chained zone r" for r t
    using that by (auto simp: chain_step_def chained_def Let_def)
  then have "fold (chain_step (normalize_name zone)) (filter (chained zone) records) t =
      fold (chain_step (normalize_name zone)) records t" for t
    by (induction records arbitrary: t) auto
  then show ?thesis
    by (simp add: build_nsec_chain_def)
qed

lemma record_abs_props:
  assumes "records_inv db" "r \<in> set (record_abs db)"
  shows "normalize_name (dr_name r) = dr_name r"
  using assms by (auto simp: records_inv_def stored_rows_def record_abs_def)

text \<open>What a completed pass leaves in the database: the untouched records, the chain and the signatures.\<close>

definition kept_records :: "string \<Rightarrow> 'a records_db_scheme \<Rightarrow> dns_record list" where
  "kept_records zone db =
     filter (\<lambda>r. \<not> (name_in_zone (dr_name r) zone \<and> (dr_type r = RRSIG \<or> dr_type r = NSEC))) (record_abs db)"

definition zone_nsecs :: "string \<Rightarrow> dns_record list \<Rightarrow> dns_record list" where
  "zone_nsecs zone candidates =
     map (nsec_record (apex_negative_ttl candidates zone)) (build_nsec_chain zone candidates)"

definition zone_entries :: "string \<Rightarrow> dns_record list \<Rightarrow> ((string \<times> RecordKind) \<times> dns_record list) set" where
  "zone_entries zone candidates =
     {((owner, kind), rs) | owner kind rs.
        if kind = NSEC then \<exists>r\<in>set (zone_nsecs zone candidates). dr_name r = owner \<and> rs = [r]
        else rs = filter (in_rrset zone (owner, kind)) candidates \<and> rs \<noteq> []}"

lemma zone_entries_table:
  "set (fold (\<lambda>r. AList.update (dr_name r, NSEC) [r]) (zone_nsecs zone candidates)
         (fst (fold (group_step zone) candidates ([], [])))) = zone_entries zone candidates"
proof -
  let ?t = "fst (fold (group_step zone) candidates ([], []))"
  let ?u = "fold (\<lambda>r. AList.update (dr_name r, NSEC) [r]) (zone_nsecs zone candidates) ?t"
  have wf: "wf_table ?t" and ne: "[] \<notin> ran (map_of ?t)"
    using group_fold_props(3,4) [of "([], [])" zone candidates] by simp_all
  have t: "map_of ?t key = Some rs \<longleftrightarrow> rs = filter (in_rrset zone key) candidates \<and> rs \<noteq> []" for key rs
    using group_fold_props(1) [of zone candidates "([], [])" key] ne
    by (cases key; cases "map_of ?t key") (auto simp: ran_def)
  have d: "distinct (map dr_name (zone_nsecs zone candidates))"
    using distinct_chain_owners [of zone candidates] by (simp add: zone_nsecs_def nsec_record_def comp_def)
  then have inj: "inj_on dr_name (set (zone_nsecs zone candidates))"
    by (simp add: distinct_map)
  have no: "map_of ?t (owner, NSEC) = None" for owner
    using t [of "(owner, NSEC)"] by (cases "map_of ?t (owner, NSEC)") (auto simp: in_rrset_def filter_empty_conv)
  have "((owner, kind), rs) \<in> set ?u \<longleftrightarrow> ((owner, kind), rs) \<in> zone_entries zone candidates" for owner kind rs
  proof -
    have "((owner, kind), rs) \<in> set ?u \<longleftrightarrow> map_of ?u (owner, kind) = Some rs"
      using nsec_table_wf [OF wf] by (simp add: wf_table_def)
    also have "\<dots> \<longleftrightarrow> ((owner, kind), rs) \<in> zone_entries zone candidates"
    proof (cases "kind = NSEC")
      case True
      show ?thesis
        using nsec_table_other [of NSEC owner "zone_nsecs zone candidates" ?t] nsec_table_owner [OF d, of _ ?t] no [of owner]
          inj_onD [OF inj]
        by (cases "owner \<in> dr_name ` set (zone_nsecs zone candidates)") (auto simp: True zone_entries_def)
    next
      case False
      then show ?thesis
        using nsec_table_other [of kind owner "zone_nsecs zone candidates" ?t] t [of "(owner, kind)" rs]
        by (simp add: zone_entries_def)
    qed
    finally show ?thesis .
  qed
  then show ?thesis
    by (auto simp: set_eq_iff)
qed

lemma clear_zone_abs:
  assumes "records_inv db" "normalize_name z = z" "set names = dr_name ` {r \<in> set (record_abs db). name_in_zone (dr_name r) z}"
  shows "record_abs (fold clear_name names db) = kept_records z db"
proof -
  have "dr_name r \<in> normalize_name ` set names \<longleftrightarrow> name_in_zone (dr_name r) z" if "r \<in> set (record_abs db)" for r
    using that record_abs_props [OF assms(1)] unfolding assms(3) by force
  then show ?thesis
    using clear_names_abs [OF assms(1), of names] by (auto simp: kept_records_def intro!: filter_cong)
qed

lemma publish_zone_marks:
  assumes "records_inv db"
  shows "resign_pending (snd (publish_zone cd cr draw order clock zone warnings sks candidates db)) = resign_pending db"
    and "resign_active (snd (publish_zone cd cr draw order clock zone warnings sks candidates db)) = resign_active db"
proof -
  have "resign_pending (snd (publish_zone cd cr draw order clock zone warnings sks candidates db)) = resign_pending db \<and>
    resign_active (snd (publish_zone cd cr draw order clock zone warnings sks candidates db)) = resign_active db"
  proof (cases clock)
    case None
    then show ?thesis by (simp add: publish_zone_def Let_def split: prod.split)
  next
    case (Some now)
    obtain rrsets names where g: "fold (group_step zone) candidates ([], []) = (rrsets, names)"
      by fastforce
    let ?db1 = "fold clear_name (order names) db"
    let ?nsecs = "zone_nsecs zone candidates"
    let ?entries = "sort_key entry_order (fold (\<lambda>r. AList.update (dr_name r, NSEC) [r]) ?nsecs rrsets)"
    obtain L where L: "snd (sign_sets cd cr draw zone now sks ?entries (add_records ?nsecs ?db1)) = add_records L (add_records ?nsecs ?db1)"
        "\<forall>l\<in>set L. dr_type l = RRSIG"
      using sign_sets_adds by blast
    have "snd (publish_zone cd cr draw order clock zone warnings sks candidates db) =
        snd (sign_sets cd cr draw zone now sks ?entries (add_records ?nsecs ?db1))"
      by (simp add: publish_zone_def g Some Let_def zone_nsecs_def split: prod.split sum.split)
    moreover have "\<forall>r\<in>set ?nsecs. \<not> is_zone_content (dr_type r)" "\<forall>l\<in>set L. \<not> is_zone_content (dr_type l)"
      using L(2) by (auto simp: zone_nsecs_def nsec_record_def)
    ultimately show ?thesis
      using L(1) clear_names_abs [OF assms, of "order names"] by (simp add: add_records_props)
  qed
  then show "resign_pending (snd (publish_zone cd cr draw order clock zone warnings sks candidates db)) = resign_pending db"
    and "resign_active (snd (publish_zone cd cr draw order clock zone warnings sks candidates db)) = resign_active db"
    by simp_all
qed

lemma publish_zone_abs:
  fixes db :: "'a records_db_scheme"
  assumes inv: "records_inv db" and z: "normalize_name z = z" and ord: "\<And>xs. set (order xs) = set xs" and sks: "sks \<noteq> []"
    and pub: "publish_zone cd cr draw order clock z warnings sks (list_records db (''*.'' @ z) None) db = (Inr out, db')"
  obtains now i j L where "clock = Some now" "records_inv db'"
    "record_abs db' = kept_records z db @ stamped i (zone_nsecs z (list_records db (''*.'' @ z) None)) @ stamped j L"
    "\<forall>l\<in>set L. \<exists>e\<in>zone_entries z (list_records db (''*.'' @ z) None). \<exists>k\<in>set sks. signed_by cd cr draw z now e k l"
    "\<forall>e\<in>zone_entries z (list_records db (''*.'' @ z) None). (\<forall>r\<in>set (snd e). canonical_rdata cd r \<noteq> None) \<longrightarrow>
       (\<exists>l\<in>set L. \<exists>k\<in>set sks. signed_by cd cr draw z now e k l)"
proof -
  define cands where "cands = list_records db (''*.'' @ z) None"
  note pub = pub [folded cands_def]
  obtain rrsets names where g: "fold (group_step z) cands ([], []) = (rrsets, names)"
    by fastforce
  obtain now where now: "clock = Some now"
    using pub by (cases clock) (simp_all add: publish_zone_def g)
  let ?nsecs = "zone_nsecs z cands"
  let ?db1 = "fold clear_name (order names) db"
  let ?t = "fold (\<lambda>r. AList.update (dr_name r, NSEC) [r]) ?nsecs rrsets"
  obtain res where s: "sign_sets cd cr draw z now sks (sort_key entry_order ?t) (add_records ?nsecs ?db1) = (Inr res, db')"
    using pub by (auto simp: publish_zone_def g now Let_def zone_nsecs_def split: prod.splits sum.splits)
  obtain L where L: "db' = add_records L (add_records ?nsecs ?db1)"
      "\<forall>l\<in>set L. \<exists>e\<in>set ?t. \<exists>k\<in>set sks. signed_by cd cr draw z now e k l"
      "\<forall>e\<in>set ?t. (\<forall>r\<in>set (snd e). canonical_rdata cd r \<noteq> None) \<longrightarrow> (\<exists>l\<in>set L. \<exists>k\<in>set sks. signed_by cd cr draw z now e k l)"
    using sign_sets_signed [OF s sks] by auto
  have t: "set ?t = zone_entries z cands"
    using zone_entries_table [of z cands] by (simp add: g)
  have "{r \<in> set cands. name_in_zone (dr_name r) z} = {r \<in> set (record_abs db). name_in_zone (dr_name r) z}"
    using arg_cong [OF zone_records_listed [OF inv z, of "\<lambda>_. True", folded cands_def], of set] by simp
  then have "set (order names) = dr_name ` {r \<in> set (record_abs db). name_in_zone (dr_name r) z}"
    using group_fold_props(2) [of z cands "([], [])"] by (simp add: g ord)
  then have "record_abs ?db1 = kept_records z db"
    by (rule clear_zone_abs [OF inv z])
  moreover have "records_inv db'"
    unfolding L(1) using clear_names_abs [OF inv, of "order names"] by (intro add_records_props(1)) simp
  ultimately show ?thesis
    using that [OF now, where L = L, folded cands_def] L(2,3) by (simp add: L(1) record_abs_add_records t)
qed

section \<open>Lookups after the pass\<close>

lemma canonical_rdata_stamp [simp]:
  "canonical_rdata cd (r\<lparr>dr_id := i, dr_name := n\<rparr>) = canonical_rdata cd r"
  "canonical_rdata cd (r\<lparr>dr_id := i\<rparr>) = canonical_rdata cd r"
proof -
  show "canonical_rdata cd (r\<lparr>dr_id := i, dr_name := n\<rparr>) = canonical_rdata cd r"
    by (cases r, hypsubst, unfold canonical_rdata_def dns_record.simps, rule refl)
  show "canonical_rdata cd (r\<lparr>dr_id := i\<rparr>) = canonical_rdata cd r"
    by (cases r, hypsubst, unfold canonical_rdata_def dns_record.simps, rule refl)
qed

lemma filter_single: "distinct (map f xs) \<Longrightarrow> x \<in> set xs \<Longrightarrow> filter (\<lambda>y. f y = f x) xs = [x]"
  by (induction xs) (auto simp: filter_empty_conv rev_image_eqI)

lemma signed_record_shape:
  assumes "\<forall>l\<in>set L. \<exists>e\<in>E. \<exists>k\<in>set sks. signed_by cd cr draw z now e k l" "l \<in> set L"
  shows "dr_type l = RRSIG"
  using assms by (auto simp: signed_by_def rrsig_record_def)

lemma published_lookup_content:
  assumes "records_inv db'" "record_abs db' = kept_records z db @ stamped i (zone_nsecs z cands) @ stamped j L"
    and "\<forall>l\<in>set L. dr_type l = RRSIG" and "kind \<noteq> RRSIG" "kind \<noteq> NSEC"
  shows "lookup_no_wildcard db' owner (Some kind) = filter (selects owner (Some kind) []) (record_abs db)"
proof -
  have "filter (selects owner (Some kind) []) (stamped i (zone_nsecs z cands)) = []"
    using assms(5) by (auto simp: filter_empty_conv selects_def zone_nsecs_def nsec_record_def dest!: set_stamped)
  moreover have "filter (selects owner (Some kind) []) (stamped j L) = []"
    using assms(3,4) by (fastforce simp: filter_empty_conv selects_def dest!: set_stamped)
  ultimately show ?thesis
    using assms(4,5) unfolding lookup_no_wildcard_abs [OF assms(1)] assms(2)
    by (auto simp: kept_records_def selects_def intro!: filter_cong)
qed

lemma published_lookup_nsec:
  assumes "records_inv db'" "record_abs db' = kept_records z db @ stamped i (zone_nsecs z cands) @ stamped j L"
    and "\<forall>l\<in>set L. dr_type l = RRSIG" and "records_inv db" "name_in_zone owner z"
  shows "map (\<lambda>r. r\<lparr>dr_id := None\<rparr>) (lookup_no_wildcard db' owner (Some NSEC)) =
           filter (\<lambda>r. dr_name r = normalize_name owner) (zone_nsecs z cands)"
proof -
  have n: "normalize_name (dr_name r) = dr_name r \<and> dr_type r = NSEC \<and> dr_id r = None" if "r \<in> set (zone_nsecs z cands)" for r
    using that chain_owner_in_zone(1) [of _ z cands] by (auto simp: zone_nsecs_def nsec_record_def)
  have "name_in_zone (normalize_name owner) z"
    using assms(5) by simp
  then have "filter (selects owner (Some NSEC) []) (kept_records z db) = []"
    by (auto simp: filter_empty_conv kept_records_def selects_def)
  moreover have "filter (selects owner (Some NSEC) []) (stamped j L) = []"
    using assms(3) by (fastforce simp: filter_empty_conv selects_def dest!: set_stamped)
  ultimately have "lookup_no_wildcard db' owner (Some NSEC) = filter (selects owner (Some NSEC) []) (stamped i (zone_nsecs z cands))"
    unfolding lookup_no_wildcard_abs [OF assms(1)] assms(2) by simp
  also have "map (\<lambda>r. r\<lparr>dr_id := None\<rparr>) \<dots> =
      map (\<lambda>r. r\<lparr>dr_id := None, dr_name := normalize_name (dr_name r)\<rparr>)
        (filter (\<lambda>r. dr_name r = normalize_name owner) (zone_nsecs z cands))"
    using n by (intro filter_stamped) (auto simp: selects_def)
  also have "\<dots> = filter (\<lambda>r. dr_name r = normalize_name owner) (zone_nsecs z cands)"
    using n by (intro map_idI) simp
  finally show ?thesis .
qed

lemma published_lookup_rrsig:
  assumes "records_inv db'" "record_abs db' = kept_records z db @ stamped i (zone_nsecs z cands) @ stamped j L"
    and "name_in_zone owner z"
  shows "set (lookup_no_wildcard db' owner (Some RRSIG)) = {r \<in> set (stamped j L). dr_name r = normalize_name owner \<and> dr_type r = RRSIG}"
proof -
  have "name_in_zone (normalize_name owner) z"
    using assms(3) by simp
  then have "filter (selects owner (Some RRSIG) []) (kept_records z db) = []"
    by (auto simp: filter_empty_conv kept_records_def selects_def)
  moreover have "filter (selects owner (Some RRSIG) []) (stamped i (zone_nsecs z cands)) = []"
    by (auto simp: filter_empty_conv selects_def zone_nsecs_def nsec_record_def dest!: set_stamped)
  ultimately show ?thesis
    unfolding lookup_no_wildcard_abs [OF assms(1)] assms(2) by (auto simp: selects_def)
qed

text \<open>The sets that were signed are the sets the database answers with afterwards.\<close>

lemma entry_is_lookup:
  assumes "records_inv db" "normalize_name z = z" "cands = list_records db (''*.'' @ z) None"
    and "records_inv db'" "record_abs db' = kept_records z db @ stamped i (zone_nsecs z cands) @ stamped j L"
    and "\<forall>l\<in>set L. dr_type l = RRSIG"
    and "name_in_zone owner z" "normalize_name owner = owner" "kind \<noteq> RRSIG"
  shows "((owner, kind), rs) \<in> zone_entries z cands \<longleftrightarrow>
    rs \<noteq> [] \<and> rs = (if kind = NSEC then map (\<lambda>r. r\<lparr>dr_id := None\<rparr>) (lookup_no_wildcard db' owner (Some kind))
                  else lookup_no_wildcard db' owner (Some kind))"
proof (cases "kind = NSEC")
  case True
  let ?ns = "filter (\<lambda>r. dr_name r = owner) (zone_nsecs z cands)"
  have "distinct (map dr_name (zone_nsecs z cands))"
    using distinct_chain_owners [of z cands] by (simp add: zone_nsecs_def nsec_record_def comp_def)
  note single = filter_single [OF this]
  have "(\<exists>r\<in>set (zone_nsecs z cands). dr_name r = owner \<and> rs = [r]) \<longleftrightarrow> rs \<noteq> [] \<and> rs = ?ns"
  proof
    assume "\<exists>r\<in>set (zone_nsecs z cands). dr_name r = owner \<and> rs = [r]"
    then show "rs \<noteq> [] \<and> rs = ?ns"
      using single by auto
  next
    assume r: "rs \<noteq> [] \<and> rs = ?ns"
    then obtain r where "r \<in> set (zone_nsecs z cands)" "dr_name r = owner"
      by (auto simp: filter_empty_conv)
    then show "\<exists>r\<in>set (zone_nsecs z cands). dr_name r = owner \<and> rs = [r]"
      using single r by auto
  qed
  then show ?thesis
    unfolding True using published_lookup_nsec [OF assms(4,5,6,1,7)] assms(8) by (simp add: zone_entries_def)
next
  case False
  have "filter (in_rrset z (owner, kind)) cands = filter (in_rrset z (owner, kind)) (record_abs db)"
    using zone_records_listed [OF assms(1,2), of "\<lambda>r. dr_type r \<noteq> RRSIG \<and> dr_type r \<noteq> NSEC \<and> (dr_name r, dr_type r) = (owner, kind)"]
    unfolding assms(3) in_rrset_def .
  also have "\<dots> = filter (selects owner (Some kind) []) (record_abs db)"
    using assms(7-9) False by (intro filter_cong) (auto simp: in_rrset_def selects_def)
  also have "\<dots> = lookup_no_wildcard db' owner (Some kind)"
    using published_lookup_content [OF assms(4,5,6,9) False] by simp
  finally show ?thesis
    using False by (auto simp: zone_entries_def)
qed

section \<open>Keys\<close>

lemma load_keys_loaded: "key \<in> set (snd (load_keys cr ks)) \<Longrightarrow> \<exists>alg kt p. from_pkcs8 cr alg kt p = Inr key"
  by (induction ks) (auto split: prod.splits option.splits sum.splits)

lemma loaded_key_nonempty: "from_pkcs8 cr alg kt p = Inr key \<Longrightarrow> sk_public key \<noteq> []"
  by (cases alg) (auto simp: from_pkcs8_def split: if_splits sum.splits)

lemma dnskey_record_rdata:
  assumes "base64_laws cd" "sk_public key \<noteq> []"
  shows "canonical_rdata cd (dnskey_record cd zone key) = Some (dnskey_rdata (sk_algorithm key) (sk_type key) (sk_public key))"
proof -
  let ?v = "dr_value (dnskey_record cd zone key)"
  have b: "is_field (b64_encode cd (sk_public key))" "b64_decode cd (b64_encode cd (sk_public key)) = Some (sk_public key)"
    using assms by (simp_all add: base64_laws_def)
  have three: "is_field ''3''" "parse_u8 ''3'' = Some 3"
    by code_simp+
  have f: "split_ws ?v = [show_nat (unat (keytype_flags (sk_type key))), ''3'',
      show_nat (unat (alg_number (sk_algorithm key))), b64_encode cd (sk_public key)]"
    unfolding dnskey_record_def dns_record.simps using b(1) three(1) by (intro split_ws_join) auto
  have "hd (show_nat n) \<in> set (show_nat n)" for n
    by simp
  then have "\<not> is_ws (hd (show_nat n))" for n
    using show_nat_not_ws by blast
  then have "trim ?v = ?v"
    using b(1) by (intro trim_id) (auto simp: dnskey_record_def is_field_def)
  then show ?thesis
    using f b(2) three(2) by (simp add: canonical_rdata_def dnskey_rdata_def dnskey_record_def Let_def)
qed

section \<open>The pass as a whole\<close>

definition published_key :: "'n codecs \<Rightarrow> 'a records_db_scheme \<Rightarrow> string \<Rightarrow> 'k signing_key \<Rightarrow> bool" where
  "published_key cd db zone key \<longleftrightarrow>
     (\<exists>d\<in>set (lookup_no_wildcard db zone (Some DNSKEY)).
        canonical_rdata cd d = Some (dnskey_rdata (sk_algorithm key) (sk_type key) (sk_public key)))"

text \<open>The signature record \<open>sig\<close> verifies over the stored set \<open>owner\<close>, \<open>kind\<close> under a key the apex publishes.\<close>

definition validates ::
  "'n codecs \<Rightarrow> ('k, 'r) crypto \<Rightarrow> 'a records_db_scheme \<Rightarrow> string \<Rightarrow> string \<Rightarrow> RecordKind \<Rightarrow> dns_record \<Rightarrow> bool" where
  "validates cd cr db zone owner kind sig \<longleftrightarrow>
     (\<exists>key :: 'k signing_key. published_key cd db zone key \<and>
        verify_rrsig cd cr (dr_value sig) owner (lookup_no_wildcard db owner (Some kind)) (sk_public key) = Inr ())"

lemma signed_by_validates:
  fixes cr :: "('k, 'r) crypto" and key :: "'k signing_key"
  assumes "base64_laws cd" "crypto_laws cr" "from_pkcs8 cr alg kt p = Inr key" "published_key cd db z key"
    and "is_field (normalize_name z)" "signed_by cd cr draw z now ((owner, kind), rs) key l" "dr_value sig = dr_value l"
    and "set (map (canonical_rdata cd) rs) = set (map (canonical_rdata cd) (lookup_no_wildcard db owner (Some kind)))"
  shows "validates cd cr db z owner kind sig"
proof -
  obtain v where v: "sign_rrset cd cr (draw owner kind key) key (to_sign z now ((owner, kind), rs)) = Inr v" "dr_value l = v"
    using assms(6) by (auto simp: signed_by_def rrsig_record_def)
  have "verify_rrsig cd cr v owner (lookup_no_wildcard db owner (Some kind)) (sk_public key) = Inr ()"
    using assms(5,8) by (intro sign_rrset_verifies [OF assms(1-3) _ v(1)]) simp_all
  then show ?thesis
    using assms(4,7) v(2) by (auto simp: validates_def)
qed

lemma published_chain:
  assumes "records_inv db" "normalize_name z = z" "cands = list_records db (''*.'' @ z) None"
    and "record_abs db' = kept_records z db @ stamped i (zone_nsecs z cands) @ stamped j L"
    and "\<forall>l\<in>set L. dr_type l = RRSIG"
  shows "build_nsec_chain z (record_abs db') = build_nsec_chain z cands"
proof -
  have "filter (chained z) (stamped i (zone_nsecs z cands)) = []" "filter (chained z) (stamped j L) = []"
    using assms(5) by (fastforce simp: filter_empty_conv chained_def zone_nsecs_def nsec_record_def dest!: set_stamped)+
  then have "filter (chained z) (record_abs db') = filter (chained z) (record_abs db)"
    unfolding assms(4) by (auto simp: kept_records_def chained_def intro!: filter_cong)
  also have "\<dots> = filter (chained z) cands"
    using zone_records_listed [OF assms(1,2), of "\<lambda>r. dr_type r \<noteq> RRSIG \<and> dr_type r \<noteq> NSEC"]
    unfolding assms(3) chained_def by simp
  finally show ?thesis
    by (metis build_nsec_chain_chained)
qed

definition zone_validates :: "'n codecs \<Rightarrow> ('k, 'r) crypto \<Rightarrow> 'a records_db_scheme \<Rightarrow> string \<Rightarrow> bool" where
  "zone_validates cd cr db zone \<longleftrightarrow>
     (\<forall>owner kind. name_in_zone owner zone \<longrightarrow> kind \<noteq> RRSIG \<longrightarrow> lookup_no_wildcard db owner (Some kind) \<noteq> [] \<longrightarrow>
        (\<forall>r\<in>set (lookup_no_wildcard db owner (Some kind)). canonical_rdata cd r \<noteq> None) \<longrightarrow>
        (\<exists>sig\<in>set (lookup_no_wildcard db owner (Some RRSIG)). validates cd cr db zone (normalize_name owner) kind sig)) \<and>
     (\<forall>owner. name_in_zone owner zone \<longrightarrow>
        (\<forall>sig\<in>set (lookup_no_wildcard db owner (Some RRSIG)).
           \<exists>kind. lookup_no_wildcard db owner (Some kind) \<noteq> [] \<and> validates cd cr db zone (normalize_name owner) kind sig)) \<and>
     (\<forall>owner. name_in_zone owner zone \<longrightarrow>
        map dr_value (lookup_no_wildcard db owner (Some NSEC)) =
        map (nsec_to_value \<circ> snd) (filter (\<lambda>link. fst link = normalize_name owner) (build_nsec_chain zone (record_abs db))))"

lemma lookup_normalize [simp]: "lookup_no_wildcard db (normalize_name n) t = lookup_no_wildcard db n t"
  by (simp add: lookup_no_wildcard_def)

lemma entry_lookup_rdata:
  assumes "rs = (if kind = NSEC then map (\<lambda>r. r\<lparr>dr_id := None\<rparr>) rrset else rrset)"
  shows "set (map (canonical_rdata cd) rs) = set (map (canonical_rdata cd) rrset)" "rs = [] \<longleftrightarrow> rrset = []"
  using assms by (auto simp: image_image)

lemma zone_entry_props:
  assumes "records_inv db" "cands = list_records db f None" "((owner, kind), rs) \<in> zone_entries z cands"
  shows "normalize_name owner = owner" "name_in_zone owner z" "kind \<noteq> RRSIG"
proof -
  have c: "normalize_name (dr_name r) = dr_name r" if "r \<in> set cands" for r
    using that assms(1,2)
    by (auto simp: list_records_def by_record_type_def Let_def records_inv_def stored_rows_def split: if_splits)
  have "normalize_name owner = owner \<and> name_in_zone owner z \<and> kind \<noteq> RRSIG"
  proof (cases "kind = NSEC")
    case True
    then obtain link where "link \<in> set (build_nsec_chain z cands)" "owner = fst link"
      using assms(3) by (auto simp: zone_entries_def zone_nsecs_def nsec_record_def)
    then show ?thesis
      using chain_owner_in_zone True by auto
  next
    case False
    then obtain r where "r \<in> set cands" "in_rrset z (owner, kind) r"
      using assms(3) by (auto simp: zone_entries_def filter_empty_conv)
    then show ?thesis
      using c [of r] by (auto simp: in_rrset_def)
  qed
  then show "normalize_name owner = owner" "name_in_zone owner z" "kind \<noteq> RRSIG"
    by simp_all
qed

lemma published_nsec_values:
  fixes db :: "'a records_db_scheme"
  assumes inv: "records_inv db" and z: "normalize_name z = z"
    and cands: "cands = list_records db (''*.'' @ z) None"
    and db': "records_inv db'" "record_abs db' = kept_records z db @ stamped i (zone_nsecs z cands) @ stamped j L"
    and shape: "\<forall>l\<in>set L. dr_type l = RRSIG" and o: "name_in_zone owner z"
  shows "map dr_value (lookup_no_wildcard db' owner (Some NSEC)) =
    map (nsec_to_value \<circ> snd) (filter (\<lambda>link. fst link = normalize_name owner) (build_nsec_chain z (record_abs db')))"
proof -
  have "map dr_value (lookup_no_wildcard db' owner (Some NSEC)) =
      map dr_value (map (\<lambda>r. r\<lparr>dr_id := None\<rparr>) (lookup_no_wildcard db' owner (Some NSEC)))"
    by simp
  also have "\<dots> = map (nsec_to_value \<circ> snd) (filter (\<lambda>link. fst link = normalize_name owner) (build_nsec_chain z cands))"
    unfolding published_lookup_nsec [OF db' shape inv o]
    by (simp add: zone_nsecs_def filter_map nsec_record_def comp_def)
  finally show ?thesis
    unfolding published_chain [OF inv z cands db'(2) shape] .
qed

lemma published_key_survives:
  fixes cr :: "('k, 'r) crypto" and db :: "'a records_db_scheme"
  assumes "base64_laws cd" and z: "normalize_name z = z"
    and db': "records_inv db'" "record_abs db' = kept_records z db @ stamped i (zone_nsecs z cands) @ stamped j L"
    and shape: "\<forall>l\<in>set L. dr_type l = RRSIG"
    and k: "(dnskey_record cd z key)\<lparr>dr_id := k\<rparr> \<in> set (record_abs db)" "from_pkcs8 cr alg kt p = Inr key"
  shows "published_key cd db' z key"
proof -
  have "(dnskey_record cd z key)\<lparr>dr_id := k\<rparr> \<in> set (lookup_no_wildcard db' z (Some DNSKEY))"
    using k(1) published_lookup_content [OF db' shape, of DNSKEY z] z by (simp add: selects_def dnskey_record_def)
  then show ?thesis
    unfolding published_key_def using dnskey_record_rdata [OF assms(1) loaded_key_nonempty [OF k(2)], of z]
    by (intro bexI) simp_all
qed

lemma publish_zone_validates:
  fixes cr :: "('k, 'r) crypto" and sks :: "'k signing_key list" and db :: "'a records_db_scheme"
  assumes laws: "base64_laws cd" "crypto_laws cr" and inv: "records_inv db" and z: "normalize_name z = z" "is_field z"
    and ord: "\<And>xs. set (order xs) = set xs" and sks: "sks \<noteq> []"
    and loaded: "\<And>key. key \<in> set sks \<Longrightarrow> \<exists>alg kt p. from_pkcs8 cr alg kt p = Inr key"
    and dnskeys: "\<And>key. key \<in> set sks \<Longrightarrow> \<exists>j. (dnskey_record cd z key)\<lparr>dr_id := j\<rparr> \<in> set (record_abs db)"
    and pub: "publish_zone cd cr draw order clock z warnings sks (list_records db (''*.'' @ z) None) db = (Inr out, db')"
  shows "zone_validates cd cr db' z"
proof -
  define cands where "cands = list_records db (''*.'' @ z) None"
  obtain now i j L where db': "records_inv db'"
      "record_abs db' = kept_records z db @ stamped i (zone_nsecs z cands) @ stamped j L"
    and sound: "\<forall>l\<in>set L. \<exists>e\<in>zone_entries z cands. \<exists>k\<in>set sks. signed_by cd cr draw z now e k l"
    and complete: "\<forall>e\<in>zone_entries z cands. (\<forall>r\<in>set (snd e). canonical_rdata cd r \<noteq> None) \<longrightarrow>
       (\<exists>l\<in>set L. \<exists>k\<in>set sks. signed_by cd cr draw z now e k l)"
    using publish_zone_abs [OF inv z(1) ord sks pub] unfolding cands_def by metis
  have shape: "\<forall>l\<in>set L. dr_type l = RRSIG"
    using signed_record_shape [OF sound] by blast
  note entry = entry_is_lookup [OF inv z(1) cands_def db' shape]
  have pubkey: "published_key cd db' z key" if key: "key \<in> set sks" for key
    using published_key_survives [OF laws(1) z(1) db' shape] dnskeys [OF key] loaded [OF key] by blast
  have val: "validates cd cr db' z owner kind sig"
    if sb: "signed_by cd cr draw z now ((owner, kind), rs) key l" and key: "key \<in> set sks" and v: "dr_value sig = dr_value l"
      and rd: "set (map (canonical_rdata cd) rs) = set (map (canonical_rdata cd) (lookup_no_wildcard db' owner (Some kind)))"
    for owner kind rs key l sig
  proof -
    obtain alg kt p where "from_pkcs8 cr alg kt p = Inr key"
      using loaded [OF key] by blast
    from signed_by_validates [OF laws this pubkey [OF key] _ sb v rd] show ?thesis
      using z by simp
  qed
  show ?thesis
    unfolding zone_validates_def
  proof (intro conjI allI impI ballI)
    fix owner kind
    let ?lk = "lookup_no_wildcard db' owner (Some kind)"
    assume o: "name_in_zone owner z" "kind \<noteq> RRSIG" "?lk \<noteq> []" "\<forall>r\<in>set ?lk. canonical_rdata cd r \<noteq> None"
    define rs where "rs = (if kind = NSEC then map (\<lambda>r. r\<lparr>dr_id := None\<rparr>) ?lk else ?lk)"
    have e: "((normalize_name owner, kind), rs) \<in> zone_entries z cands"
      using entry [of "normalize_name owner" kind rs] o entry_lookup_rdata(2) [OF rs_def] by (simp add: rs_def)
    have enc: "\<forall>r\<in>set rs. canonical_rdata cd r \<noteq> None"
      using o(4) by (auto simp: rs_def)
    obtain l key where l: "l \<in> set L" "key \<in> set sks" "signed_by cd cr draw z now ((normalize_name owner, kind), rs) key l"
      using complete e enc by fastforce
    obtain k where k: "l\<lparr>dr_id := k, dr_name := normalize_name (dr_name l)\<rparr> \<in> set (stamped j L)"
      using stamped_has [OF l(1)] by blast
    have "dr_name l = normalize_name owner"
      using l(3) by (auto simp: signed_by_def rrsig_record_def)
    then have "l\<lparr>dr_id := k, dr_name := normalize_name (dr_name l)\<rparr> \<in> set (lookup_no_wildcard db' owner (Some RRSIG))"
      unfolding published_lookup_rrsig [OF db' o(1)] using k bspec [OF shape l(1)] by simp
    then show "\<exists>sig\<in>set (lookup_no_wildcard db' owner (Some RRSIG)). validates cd cr db' z (normalize_name owner) kind sig"
      using val [OF l(3,2)] entry_lookup_rdata(1) [OF rs_def, of cd] by (intro bexI) simp_all
  next
    fix owner sig
    assume o: "name_in_zone owner z" "sig \<in> set (lookup_no_wildcard db' owner (Some RRSIG))"
    then have s: "sig \<in> set (stamped j L)" "dr_name sig = normalize_name owner"
      unfolding published_lookup_rrsig [OF db' o(1)] by simp_all
    obtain l k where l: "l \<in> set L" "sig = l\<lparr>dr_id := k, dr_name := normalize_name (dr_name l)\<rparr>"
      using set_stamped [OF s(1)] by blast
    obtain o' kind rs key where e: "((o', kind), rs) \<in> zone_entries z cands" "key \<in> set sks"
        "signed_by cd cr draw z now ((o', kind), rs) key l"
      using sound l(1) by (metis prod.collapse)
    note ep = zone_entry_props [OF inv cands_def e(1)]
    have "dr_name l = o'"
      using e(3) by (auto simp: signed_by_def rrsig_record_def)
    then have o': "o' = normalize_name owner"
      using s(2) l(2) ep(1) by simp
    note rs = entry [OF ep(2,1,3), THEN iffD1, OF e(1), unfolded o' lookup_normalize]
    note rd = entry_lookup_rdata [OF rs [THEN conjunct2]]
    have "validates cd cr db' z o' kind sig"
      using val [OF e(3,2), of sig] rd(1) [of cd] l(2) unfolding o' by simp
    then show "\<exists>kind. lookup_no_wildcard db' owner (Some kind) \<noteq> [] \<and> validates cd cr db' z (normalize_name owner) kind sig"
      using rd(2) rs [THEN conjunct1] unfolding o' by blast
  next
    fix owner
    assume "name_in_zone owner z"
    then show "map dr_value (lookup_no_wildcard db' owner (Some NSEC)) =
        map (nsec_to_value \<circ> snd) (filter (\<lambda>link. fst link = normalize_name owner) (build_nsec_chain z (record_abs db')))"
      by (rule published_nsec_values [OF inv z(1) cands_def db' shape])
  qed
qed

lemma sign_zone_body_signed:
  assumes "sign_zone_body cd cr draw order clock z db = (Inr (Signed s), db')"
  obtains warnings sks where "load_keys cr (filter key_active (list_dnssec_keys db z)) = (warnings, sks)" "sks \<noteq> []"
    "publish_zone cd cr draw order clock z warnings sks
       (list_records (clear_zone_resign_pending z (add_records (map (dnskey_record cd z) sks) (snd (remove_records z (Some DNSKEY) [] db))))
          (''*.'' @ z) None)
       (clear_zone_resign_pending z (add_records (map (dnskey_record cd z) sks) (snd (remove_records z (Some DNSKEY) [] db)))) =
     (Inr (Signed s), db')"
  using assms by (auto simp: sign_zone_body_def Let_def split: if_splits prod.splits)

lemma records_inv_marks [simp]:
  "records_inv (clear_zone_resign_pending z db) = records_inv db" "record_abs (clear_zone_resign_pending z db) = record_abs db"
  "records_inv (begin_zone_resign z db) = records_inv db" "record_abs (begin_zone_resign z db) = record_abs db"
  "records_inv (end_zone_resign z db) = records_inv db" "record_abs (end_zone_resign z db) = record_abs db"
  "lookup_no_wildcard (end_zone_resign z db) n t = lookup_no_wildcard db n t"
  by (simp_all add: records_inv_def record_abs_def clear_zone_resign_pending_def begin_zone_resign_def end_zone_resign_def
      lookup_no_wildcard_def)

lemma end_zone_resign_marks [simp]:
  "resign_pending (end_zone_resign z db) = resign_pending db"
  "resign_active (end_zone_resign z db) = resign_active db - {normalize_name z}"
  "dns_records (end_zone_resign z db) = dns_records db"
  by (simp_all add: end_zone_resign_def)

lemma begin_zone_resign_marks [simp]:
  "resign_pending (begin_zone_resign z db) = resign_pending db"
  "resign_active (begin_zone_resign z db) = insert (normalize_name z) (resign_active db)"
  "dns_records (begin_zone_resign z db) = dns_records db"
  by (simp_all add: begin_zone_resign_def)

lemma zone_validates_end [simp]: "zone_validates cd cr (end_zone_resign z db) zone = zone_validates cd cr db zone"
  by (simp add: zone_validates_def validates_def published_key_def)

lemma sign_zone_body_validates:
  fixes cr :: "('k, 'r) crypto"
  assumes "base64_laws cd" "crypto_laws cr" "records_inv db" "normalize_name z = z" "is_field z"
    and "\<And>xs. set (order xs) = set xs" and "sign_zone_body cd cr draw order clock z db = (Inr (Signed s), db')"
  shows "zone_validates cd cr db' z"
proof -
  obtain warnings sks where k: "load_keys cr (filter key_active (list_dnssec_keys db z)) = (warnings, sks)" "sks \<noteq> []"
    and p: "publish_zone cd cr draw order clock z warnings sks
       (list_records (clear_zone_resign_pending z (add_records (map (dnskey_record cd z) sks) (snd (remove_records z (Some DNSKEY) [] db))))
          (''*.'' @ z) None)
       (clear_zone_resign_pending z (add_records (map (dnskey_record cd z) sks) (snd (remove_records z (Some DNSKEY) [] db)))) =
     (Inr (Signed s), db')"
    using assms(7) by (rule sign_zone_body_signed)
  have loaded: "\<exists>alg kt p. from_pkcs8 cr alg kt p = Inr key" if "key \<in> set sks" for key
    using load_keys_loaded [of key cr "filter key_active (list_dnssec_keys db z)"] that k(1) by simp
  have "\<exists>j. (dnskey_record cd z key)\<lparr>dr_id := j\<rparr> \<in> set (stamped i (map (dnskey_record cd z) sks))" if "key \<in> set sks" for key i
    using stamped_has [of "dnskey_record cd z key" "map (dnskey_record cd z) sks" i] that assms(4) by (auto simp: dnskey_record_def)
  then have "\<exists>j. (dnskey_record cd z key)\<lparr>dr_id := j\<rparr> \<in>
      set (record_abs (clear_zone_resign_pending z (add_records (map (dnskey_record cd z) sks) (snd (remove_records z (Some DNSKEY) [] db)))))"
    if "key \<in> set sks" for key
    using that by (auto simp: record_abs_add_records)
  moreover have "records_inv (clear_zone_resign_pending z (add_records (map (dnskey_record cd z) sks) (snd (remove_records z (Some DNSKEY) [] db))))"
    by (simp add: add_records_props(1) records_inv_remove assms(3))
  ultimately show ?thesis
    using publish_zone_validates [OF assms(1,2) _ assms(4,5,6) k(2) loaded _ p] by blast
qed

lemma sign_zone_cases:
  "sign_zone cd cr draw order clock zone db =
     (fst (sign_zone_body cd cr draw order clock (normalize_name zone) (begin_zone_resign (normalize_name zone) db)),
      end_zone_resign (normalize_name zone)
        (snd (sign_zone_body cd cr draw order clock (normalize_name zone) (begin_zone_resign (normalize_name zone) db))))"
  by (simp add: sign_zone_def Let_def split: prod.split)

lemma sign_zone_body_marks:
  assumes "records_inv db" "sign_zone_body cd cr draw order clock z db = (res, db')" "normalize_name z = z"
  shows "resign_active db' = resign_active db"
    and "case res of Inr (NotSigned _) \<Rightarrow> dns_records db' = dns_records db \<and> resign_pending db' = resign_pending db
         | _ \<Rightarrow> resign_pending db' = resign_pending db - {z}"
proof -
  obtain warnings sks where k: "load_keys cr (filter key_active (list_dnssec_keys db z)) = (warnings, sks)"
    by fastforce
  define db3 where "db3 = clear_zone_resign_pending z (add_records (map (dnskey_record cd z) sks) (snd (remove_records z (Some DNSKEY) [] db)))"
  have inv: "records_inv db3"
    by (simp add: db3_def add_records_props(1) records_inv_remove assms(1))
  have "\<forall>r\<in>set (map (dnskey_record cd z) sks). \<not> is_zone_content (dr_type r)"
    by (auto simp: dnskey_record_def)
  then have m: "resign_pending db3 = resign_pending db - {z}" "resign_active db3 = resign_active db"
    by (simp_all add: db3_def clear_zone_resign_pending_def add_records_props remove_records_marks_product assms(3))
  note pm = publish_zone_marks [OF inv, of cd cr draw order clock z warnings sks "list_records db3 (''*.'' @ z) None"]
  have signed: "res \<noteq> Inr (NotSigned n)" if "publish_zone cd cr draw order clock z warnings sks c d = (res, db')" for n c d
    using that by (auto simp: publish_zone_def Let_def split: prod.splits option.splits sum.splits)
  consider "(res, db') = (Inr (NotSigned NoKeys), db)" | "(res, db') = (Inr (NotSigned (NoUsableKeys warnings)), db)"
    | "publish_zone cd cr draw order clock z warnings sks (list_records db3 (''*.'' @ z) None) db3 = (res, db')"
  proof -
    have "(res, db') =
        (if list_dnssec_keys db z = [] then (Inr (NotSigned NoKeys), db)
         else if sks = [] then (Inr (NotSigned (NoUsableKeys warnings)), db)
         else publish_zone cd cr draw order clock z warnings sks (list_records db3 (''*.'' @ z) None) db3)"
      unfolding assms(2) [symmetric] sign_zone_body_def Let_def k db3_def prod.case ..
    then show ?thesis
      using that by (metis (no_types))
  qed
  then have "resign_active db' = resign_active db \<and>
     (case res of Inr (NotSigned _) \<Rightarrow> dns_records db' = dns_records db \<and> resign_pending db' = resign_pending db
         | _ \<Rightarrow> resign_pending db' = resign_pending db - {z})"
  proof cases
    case 3
    then show ?thesis
      using pm m signed [OF 3] by (auto split: sum.splits sign_outcome.splits)
  qed simp_all
  then show "resign_active db' = resign_active db"
    and "case res of Inr (NotSigned _) \<Rightarrow> dns_records db' = dns_records db \<and> resign_pending db' = resign_pending db
         | _ \<Rightarrow> resign_pending db' = resign_pending db - {z}"
    by simp_all
qed

text \<open>
  C31: a completed signing pass leaves a zone that validates. Every set of records of the zone that has
  a wire form is covered by a signature that verifies under a key the apex publishes; every signature
  in the zone verifies over a set that is still stored, so none is left over from before; the stored
  NSEC records are exactly the chain of the zone as it now stands; and no re-signing mark is left.
\<close>

theorem sign_zone_validates:
  fixes cr :: "('k, 'r) crypto"
  assumes "base64_laws cd" "crypto_laws cr" "records_inv db" "is_field (normalize_name zone)"
    and "\<forall>xs. set (order xs) = set xs" "sign_zone cd cr draw order clock zone db = (Inr (Signed s), db')"
  shows "zone_validates cd cr db' (normalize_name zone) \<and>
    normalize_name zone \<notin> resign_pending db' \<and> normalize_name zone \<notin> resign_active db'"
proof -
  let ?z = "normalize_name zone"
  obtain db1 where b: "sign_zone_body cd cr draw order clock ?z (begin_zone_resign ?z db) = (Inr (Signed s), db1)"
      "db' = end_zone_resign ?z db1"
    using assms(6) unfolding sign_zone_cases by (metis eq_fst_iff prod.inject sndI)
  have "zone_validates cd cr db1 ?z"
    using sign_zone_body_validates [OF assms(1,2) _ _ _ _ b(1)] assms(3-5) by simp
  moreover have "?z \<notin> resign_pending db1"
    using sign_zone_body_marks(2) [OF _ b(1)] assms(3) by simp
  ultimately show ?thesis
    unfolding b(2) by simp
qed

text \<open>Nothing stops a pass when the clock is read and every encodable set of the zone can be signed.\<close>

lemma sign_with_total:
  "\<forall>k\<in>set ks. \<exists>v. sign_rrset cd cr (draw (rs_owner rs) (rs_type rs) k) k rs = Inr v \<Longrightarrow>
     \<exists>db'. sign_with cd cr draw rs ks db = (None, db')"
  by (induction ks arbitrary: db) auto

lemma sign_sets_total:
  fixes db :: "'a records_db_scheme"
  assumes "\<forall>e\<in>set entries. (\<forall>r\<in>set (snd e). canonical_rdata cd r \<noteq> None) \<longrightarrow>
     (\<forall>k\<in>set sks. \<exists>v. sign_rrset cd cr (draw (fst (fst e)) (snd (fst e)) k) k (to_sign zone now e) = Inr v)"
  shows "\<exists>out db'. sign_sets cd cr draw zone now sks entries db = (Inr out, db')"
  using assms
proof (induction entries arbitrary: db)
  case (Cons e es)
  obtain owner kind records where e: "e = ((owner, kind), records)"
    by (metis surj_pair)
  have IH: "\<exists>n sk db'. sign_sets cd cr draw zone now sks es db = (Inr (n, sk), db')" for db :: "'a records_db_scheme"
    using Cons.IH [of db] Cons.prems by auto
  show ?case
  proof (cases "list_ex (\<lambda>r. canonical_rdata cd r = None) records")
    case True
    then show ?thesis
      using IH [of db] by (auto simp: e)
  next
    case False
    have "\<forall>k\<in>set (signers_for zone sks owner kind). \<exists>v. sign_rrset cd cr (draw owner kind k) k (to_sign zone now e) = Inr v"
      using Cons.prems False signers_for_props(1) [where zone = zone and sks = sks and owner = owner and kind = kind]
      by (auto simp: e list_ex_iff)
    then obtain db1 where "sign_with cd cr draw (to_sign zone now e) (signers_for zone sks owner kind) db = (None, db1)"
      using sign_with_total [of "signers_for zone sks owner kind" cd cr draw "to_sign zone now e" db] by (auto simp: e)
    then show ?thesis
      using False IH [of db1] by (auto simp: e)
  qed
qed simp

lemma publish_zone_total:
  assumes "\<forall>e\<in>zone_entries z cands. (\<forall>r\<in>set (snd e). canonical_rdata cd r \<noteq> None) \<longrightarrow>
     (\<forall>k\<in>set sks. \<exists>v. sign_rrset cd cr (draw (fst (fst e)) (snd (fst e)) k) k (to_sign z now e) = Inr v)"
  shows "\<exists>s db'. publish_zone cd cr draw order (Some now) z warnings sks cands db = (Inr (Signed s), db')"
proof -
  obtain rrsets names where g: "fold (group_step z) cands ([], []) = (rrsets, names)"
    by fastforce
  let ?t = "fold (\<lambda>r. AList.update (dr_name r, NSEC) [r]) (zone_nsecs z cands) rrsets"
  have "set (sort_key entry_order ?t) = zone_entries z cands"
    using zone_entries_table [of z cands] by (simp add: g)
  then obtain n sk db' where "sign_sets cd cr draw z now sks (sort_key entry_order ?t)
      (add_records (zone_nsecs z cands) (fold clear_name (order names) db)) = (Inr (n, sk), db')"
    using sign_sets_total [of "sort_key entry_order ?t" cd sks cr draw z now
        "add_records (zone_nsecs z cands) (fold clear_name (order names) db)"] assms by fastforce
  then show ?thesis
    by (simp add: publish_zone_def g zone_nsecs_def Let_def)
qed

text \<open>A zone with one key and no record of its own.\<close>

definition sample_zone_key :: dnssec_key where
  "sample_zone_key =
     \<lparr>key_id = 1, key_zone = ''a.'', key_scope = None, key_algorithm = ''Ed25519'', key_type = ''ZSK'',
      key_private = replicate 32 7, key_public = replicate 32 7, key_tag = 0, key_created_at = 0, key_active = True\<rparr>"

definition sample_signing_db :: records_db where
  "sample_signing_db =
     empty_records_db\<lparr>dnssec_keys := [sample_zone_key], signed_zones := {''a.''}, resign_pending := {''a.''}\<rparr>"

lemma sample_names:
  "normalize_name ''a.'' = ''a.''" "is_field ''a.''" "canonical_name ''a.'' = Some [1, 97, 0]"
  "canonical_name_cmp ''a.'' ''a.'' = Equal"
  by code_simp+

lemma sample_inv: "records_inv sample_signing_db"
  by (simp add: records_inv_def sample_signing_db_def empty_records_db_def stored_rows_def active_key_zones_def
      sample_zone_key_def sample_names)

lemma sample_load: "load_keys sample_crypto (filter key_active (list_dnssec_keys sample_signing_db ''a.'')) = ([], [sample_key])"
proof -
  have "alg_parse ''Ed25519'' = Some Ed25519" "keytype_parse ''ZSK'' = Some ZSK"
    using alg_parse_as_str [of Ed25519] keytype_parse_as_str [of ZSK] by simp_all
  moreover have "from_pkcs8 sample_crypto Ed25519 ZSK (replicate 32 7) = Inr sample_key"
    by (simp add: from_pkcs8_def sample_key_def load_material_def sample_crypto_def signing_supported_def)
  ultimately show ?thesis
    by (simp add: list_dnssec_keys_def sample_signing_db_def sample_zone_key_def sample_names)
qed

lemma sample_chain:
  assumes "dr_name r = ''a.''" "dr_type r = DNSKEY"
  shows "build_nsec_chain ''a.'' [r] = [(''a.'', \<lparr>next_owner = ''a.'', nsec_types = [DNSKEY, NSEC, RRSIG]\<rparr>)]"
  using assms by (simp add: build_nsec_chain_def chain_step_def push_types_def sample_names sort_by_def Let_def)

definition sample_link :: nsec where
  "sample_link = \<lparr>next_owner = ''a.'', nsec_types = [DNSKEY, NSEC, RRSIG]\<rparr>"

lemma sample_nsec_rdata: "\<exists>d. canonical_rdata sample_codecs (nsec_record ttl (''a.'', sample_link)) = Some d \<and> length d \<le> 65535"
proof -
  let ?v = "nsec_to_value sample_link"
  have t: "trim ?v = ?v"
    by code_simp
  have p: "nsec_parse ?v = Inr \<lparr>next_owner = ''a.'', nsec_types = [RRSIG, NSEC, DNSKEY]\<rparr>"
    by code_simp
  have "canonical_rdata sample_codecs (nsec_record ttl (''a.'', sample_link)) =
      nsec_rdata \<lparr>next_owner = ''a.'', nsec_types = [RRSIG, NSEC, DNSKEY]\<rparr>"
    using t p by (simp add: canonical_rdata_def nsec_record_def Let_def)
  also have "\<dots> = Some [1, 97, 0, 0, 7, 0, 0, 0, 0, 0, 3, 128]"
    by code_simp
  finally show ?thesis by simp
qed

lemma sample_entries:
  assumes inv: "records_inv db" and abs: "record_abs db = [d]" and d: "dr_name d = ''a.''" "dr_type d = DNSKEY"
    and e: "((owner, kind), rs) \<in> zone_entries ''a.'' (list_records db ''*.a.'' None)"
  shows "owner = ''a.'' \<and> (rs = [d] \<and> kind = DNSKEY \<or>
    kind = NSEC \<and> rs = [nsec_record (apex_negative_ttl (list_records db ''*.a.'' None) ''a.'') (''a.'', sample_link)])"
proof -
  let ?cands = "list_records db ''*.a.'' None"
  note listed = zone_records_listed [OF inv sample_names(1), unfolded abs, simplified append_Cons append_Nil]
  have "filter (chained ''a.'') ?cands = [d]"
    using listed [of "\<lambda>r. dr_type r \<noteq> RRSIG \<and> dr_type r \<noteq> NSEC"] d by (simp add: chained_def [abs_def])
  then have "build_nsec_chain ''a.'' ?cands = [(''a.'', sample_link)]"
    using build_nsec_chain_chained [of "''a.''" ?cands] sample_chain [OF d] by (simp add: sample_link_def)
  moreover have "filter (in_rrset ''a.'' (owner, kind)) ?cands = (if owner = ''a.'' \<and> kind = DNSKEY then [d] else [])"
    using listed [of "\<lambda>r. dr_type r \<noteq> RRSIG \<and> dr_type r \<noteq> NSEC \<and> (dr_name r, dr_type r) = (owner, kind)"] d
    by (auto simp: in_rrset_def [abs_def])
  ultimately show ?thesis
    using e by (auto simp: zone_entries_def zone_nsecs_def nsec_record_def split: if_splits)
qed

lemma sample_signed:
  "\<exists>s db'. sign_zone sample_codecs sample_crypto (\<lambda>_ _ _. ()) (\<lambda>xs. xs) (Some 100000) ''A'' sample_signing_db = (Inr (Signed s), db')"
proof -
  define db0 where "db0 = begin_zone_resign ''a.'' sample_signing_db"
  define d where "d = dnskey_record sample_codecs ''a.'' sample_key"
  define db3 where "db3 = clear_zone_resign_pending ''a.'' (add_records [d] (snd (remove_records ''a.'' (Some DNSKEY) [] db0)))"
  have n: "normalize_name ''A'' = ''a.''"
    by code_simp
  have k: "load_keys sample_crypto (filter key_active (list_dnssec_keys db0 ''a.'')) = ([], [sample_key])"
    using sample_load by (simp add: db0_def begin_zone_resign_def list_dnssec_keys_def)
  then have kne: "list_dnssec_keys db0 ''a.'' \<noteq> []"
    by auto
  have inv0: "records_inv db0"
    by (simp add: db0_def sample_inv)
  then have inv: "records_inv db3"
    by (simp add: db3_def records_inv_remove records_inv_add)
  have "record_abs db0 = []"
    by (simp add: db0_def record_abs_def sample_signing_db_def empty_records_db_def)
  then have abs: "record_abs db3 = [d\<lparr>dr_id := Some (next_rowid db0), dr_name := ''a.''\<rparr>]"
    using remove_records_abs(1) [OF inv0, of "''a.''" "Some DNSKEY" "[]"]
    by (simp add: db3_def add_record_abs d_def dnskey_record_def sample_names)
  have key: "\<exists>sig. key_sign sample_crypto sample_key () m = Inr sig" for m
    by (simp add: key_sign_def sample_key_def)
  have pk: "sk_public sample_key \<noteq> []"
    by (simp add: sample_key_def)
  have dt: "dr_type d = DNSKEY"
    by (simp add: d_def dnskey_record_def)
  have dk: "\<exists>x. canonical_rdata sample_codecs (d\<lparr>dr_id := i, dr_name := m\<rparr>) = Some x \<and> length x \<le> 65535" for i m
    using dnskey_record_rdata [OF sample_base64 pk, of "''a.''"]
    by (simp add: d_def dnskey_rdata_def sample_key_def)
  have total: "\<exists>v. sign_rrset sample_codecs sample_crypto () sample_key (to_sign ''a.'' 100000 ((''a.'', kind), [r])) = Inr v"
    if r: "\<exists>x. canonical_rdata sample_codecs r = Some x \<and> length x \<le> 65535" and kind: "kind \<noteq> RRSIG" for kind r
  proof -
    obtain x where x: "canonical_rdata sample_codecs r = Some x" "length x \<le> 65535"
      using r by blast
    show ?thesis
      by (rule sign_rrset_total [where ds = "[x]" and ow = "[1, 97, 0]" and sw = "[1, 97, 0]", OF _ _ _ _ _ _ key])
        (simp_all add: x kind sample_names)
  qed
  have "\<forall>e\<in>zone_entries ''a.'' (list_records db3 ''*.a.'' None). (\<forall>r\<in>set (snd e). canonical_rdata sample_codecs r \<noteq> None) \<longrightarrow>
      (\<forall>k\<in>set [sample_key]. \<exists>v. sign_rrset sample_codecs sample_crypto () k (to_sign ''a.'' 100000 e) = Inr v)"
  proof (intro ballI impI)
    fix e k
    assume e: "e \<in> zone_entries ''a.'' (list_records db3 ''*.a.'' None)" and "k \<in> set [sample_key]"
    then have k: "k = sample_key" by simp
    obtain owner kind rs where s: "e = ((owner, kind), rs)"
      by (metis surj_pair)
    show "\<exists>v. sign_rrset sample_codecs sample_crypto () k (to_sign ''a.'' 100000 e) = Inr v"
      using sample_entries [OF inv abs _ _ e [unfolded s]] dt total [OF dk, of DNSKEY] total [OF sample_nsec_rdata, of NSEC]
      unfolding s k by auto
  qed
  from publish_zone_total [OF this, where order = "\<lambda>xs. xs" and warnings = "[]" and db = db3] show ?thesis
    using kne k unfolding sign_zone_cases n db0_def [symmetric]
    by (auto simp: sign_zone_body_def Let_def db3_def d_def)
qed

theorem sign_zone_validates_witness:
  "\<exists>s db'. sign_zone sample_codecs sample_crypto (\<lambda>_ _ _. ()) (\<lambda>xs. xs) (Some 100000) ''A'' sample_signing_db = (Inr (Signed s), db') \<and>
     zone_validates sample_codecs sample_crypto db' ''a.'' \<and> ''a.'' \<notin> resign_pending db'"
proof -
  obtain s db' where r: "sign_zone sample_codecs sample_crypto (\<lambda>_ _ _. ()) (\<lambda>xs. xs) (Some 100000) ''A'' sample_signing_db = (Inr (Signed s), db')"
    using sample_signed by blast
  have n: "normalize_name ''A'' = ''a.''"
    by code_simp
  from sign_zone_validates [OF sample_base64 sample_crypto_laws sample_inv _ _ r] show ?thesis
    using r by (simp add: n sample_names)
qed

text \<open>
  C32: the marks around a signing pass. Whatever the outcome, an error included, the in-progress mark
  is gone afterwards. A zone that is not signed keeps its records and its pending mark; otherwise the
  pending mark is dropped before the zone is read and nothing after that reading drops it, so a change
  that lands during the pass stays marked.
\<close>

theorem sign_zone_marks:
  assumes "records_inv db" "sign_zone cd cr draw order clock zone db = (res, db')"
  shows "resign_active db' = resign_active db - {normalize_name zone} \<and>
    (case res of
       Inr (NotSigned _) \<Rightarrow> dns_records db' = dns_records db \<and> resign_pending db' = resign_pending db
     | _ \<Rightarrow> resign_pending db' = resign_pending db - {normalize_name zone}) \<and>
    (\<forall>candidates changed. records_inv changed \<longrightarrow>
       resign_pending (snd (publish_zone cd cr draw order clock z warnings sks candidates changed)) = resign_pending changed)"
proof -
  let ?z = "normalize_name zone"
  obtain db1 where b: "sign_zone_body cd cr draw order clock ?z (begin_zone_resign ?z db) = (res, db1)"
      "db' = end_zone_resign ?z db1"
    using assms(2) unfolding sign_zone_cases by (metis eq_fst_iff prod.inject sndI)
  note m = sign_zone_body_marks [OF _ b(1)]
  have "resign_active db' = resign_active db - {?z}"
    using m(1) assms(1) unfolding b(2) by simp
  moreover have "case res of
       Inr (NotSigned _) \<Rightarrow> dns_records db' = dns_records db \<and> resign_pending db' = resign_pending db
     | _ \<Rightarrow> resign_pending db' = resign_pending db - {?z}"
    using m(2) assms(1) unfolding b(2) by (auto split: sum.splits sign_outcome.splits)
  ultimately show ?thesis
    by (intro conjI allI impI publish_zone_marks(1))
qed

theorem sign_zone_marks_witness:
  "\<exists>s db'. sign_zone sample_codecs sample_crypto (\<lambda>_ _ _. ()) (\<lambda>xs. xs) (Some 100000) ''A'' sample_signing_db = (Inr (Signed s), db') \<and>
     resign_pending sample_signing_db = {''a.''} \<and> resign_pending db' = {} \<and> resign_active db' = {}"
proof -
  obtain s db' where r: "sign_zone sample_codecs sample_crypto (\<lambda>_ _ _. ()) (\<lambda>xs. xs) (Some 100000) ''A'' sample_signing_db = (Inr (Signed s), db')"
    using sample_signed by blast
  have n: "normalize_name ''A'' = ''a.''"
    by code_simp
  have p: "resign_pending sample_signing_db = {''a.''}" "resign_active sample_signing_db = {}"
    by (simp_all add: sample_signing_db_def empty_records_db_def)
  note m = sign_zone_marks [OF sample_inv r, where z = "[]" and warnings = "[]" and sks = "[]", unfolded n p]
  have "resign_pending db' = {}"
    using m [THEN conjunct2, THEN conjunct1] by simp
  moreover have "resign_active db' = {}"
    using m [THEN conjunct1] by simp
  ultimately show ?thesis
    using r p(1) by (intro exI conjI)
qed

end
