(* ===== verification/Dnsbl.thy ===== *)
theory Dnsbl
  imports Cidr Ttl_Cache
begin

text \<open>
  The domain-blocklist checker (\<open>src/src/dnsbl.rs\<close>): refusal codes and their configuration texts, the
  reading of a provider's answer, the resolver that obtains it, and the checker with its result cache,
  its background lookups and the rotation of providers that refuse to answer.

  A background lookup is an entry of the in-flight table from the moment it is started until it lands;
  it lands in a step of its own, with any result, after any number of other operations. An \<open>Instant\<close> is
  a number of nanoseconds and one operation reads the clock once. The network is a parameter: what
  recursion from the roots returned and what each forwarder replied. Metric counters and log lines are
  left out.
\<close>

section \<open>Refusal codes\<close>

definition DEFAULT_REFUSAL_COOLDOWN_SECS :: nat where
  "DEFAULT_REFUSAL_COOLDOWN_SECS = 3600"

definition REFUSAL_CODES_NONE :: string where
  "REFUSAL_CODES_NONE = ''none''"

definition DEFAULT_REFUSAL_CODES :: "string list" where
  "DEFAULT_REFUSAL_CODES = [''127.255.255.0/24'', ''127.0.1.255'', ''127.0.2.255'', ''127.0.0.1'', ''127.0.0.255'']"

record refusal_code =
  rc_base :: ipv4
  rc_prefix :: nat

datatype refusal_error = BadPrefix | LongPrefix nat | BadAddress | NoneNotAlone string

definition mask_v4 :: "ipv4 \<Rightarrow> nat \<Rightarrow> ipv4" where
  "mask_v4 ip pre = (let m = (if pre = 0 then 0 else push_bit (32 - pre) (- 1)) in and ip m)"

definition refusal_parse :: "string \<Rightarrow> refusal_error + refusal_code" where
  "refusal_parse text =
     (let s = trim text
      in case (case split_once (CHR ''/'') s of
                 Some (a, p) \<Rightarrow>
                   (case parse_uint 255 (trim p) of
                      None \<Rightarrow> Inl BadPrefix
                    | Some pre \<Rightarrow> if pre > 32 then Inl (LongPrefix pre) else Inr (a, pre))
               | None \<Rightarrow> Inr (s, 32)) of
           Inl e \<Rightarrow> Inl e
         | Inr (addr_str, pre) \<Rightarrow>
             (case parse_ipv4 (trim addr_str) of
                None \<Rightarrow> Inl BadAddress
              | Some addr \<Rightarrow> Inr \<lparr>rc_base = mask_v4 addr pre, rc_prefix = pre\<rparr>))"

definition refusal_matches :: "refusal_code \<Rightarrow> ipv4 \<Rightarrow> bool" where
  "refusal_matches c ip \<longleftrightarrow> mask_v4 ip (rc_prefix c) = rc_base c"

definition refusal_to_string :: "refusal_code \<Rightarrow> string" where
  "refusal_to_string c =
     (if rc_prefix c = 32 then ipv4_to_string (rc_base c)
      else ipv4_to_string (rc_base c) @ ''/'' @ show_nat (rc_prefix c))"

text \<open>\<open>collect\<close> into a \<open>Result\<close>: the first error, or all the values.\<close>

fun parse_all :: "string list \<Rightarrow> refusal_error + refusal_code list" where
  "parse_all [] = Inr []"
| "parse_all (s # ss) =
     (case refusal_parse s of
        Inl e \<Rightarrow> Inl e
      | Inr c \<Rightarrow> (case parse_all ss of Inl e \<Rightarrow> Inl e | Inr cs \<Rightarrow> Inr (c # cs)))"

definition spells_none :: "string \<Rightarrow> bool" where
  "spells_none s \<longleftrightarrow> lower (trim s) = lower REFUSAL_CODES_NONE"

definition resolve_refusal_codes :: "string list \<Rightarrow> refusal_error + refusal_code list" where
  "resolve_refusal_codes specs =
     (if specs = [] then parse_all DEFAULT_REFUSAL_CODES
      else if length specs = 1 \<and> spells_none (specs ! 0) then Inr []
      else case find spells_none specs of
             Some bad \<Rightarrow> Inl (NoneNotAlone bad)
           | None \<Rightarrow> parse_all specs)"

definition default_refusal_codes :: "refusal_code list" where
  "default_refusal_codes =
     List.map_filter (\<lambda>s. case refusal_parse s of Inr c \<Rightarrow> Some c | Inl _ \<Rightarrow> None) DEFAULT_REFUSAL_CODES"

section \<open>Providers and answers\<close>

record dnsbl_provider =
  dp_zone :: string
  dp_enabled :: bool
  dp_refusal_codes :: "refusal_code list"
  dp_cooldown :: "nat option"

definition dnsbl_provider_new :: "string \<Rightarrow> bool \<Rightarrow> dnsbl_provider" where
  "dnsbl_provider_new zone en =
     \<lparr>dp_zone = zone, dp_enabled = en, dp_refusal_codes = default_refusal_codes, dp_cooldown = None\<rparr>"

definition refusal_code_strings :: "dnsbl_provider \<Rightarrow> string list" where
  "refusal_code_strings p =
     (if dp_refusal_codes p = [] then [REFUSAL_CODES_NONE] else map refusal_to_string (dp_refusal_codes p))"

record dnsbl_answer =
  codes :: "ipv4 list"
  ans_ttl :: u32

datatype dnsbl_verdict = Listed | NotListed | Refused ipv4

definition classify :: "dnsbl_answer option \<Rightarrow> refusal_code list \<Rightarrow> dnsbl_verdict" where
  "classify answer refusals =
     (case answer of
        None \<Rightarrow> NotListed
      | Some a \<Rightarrow>
          (case find (\<lambda>c. list_ex (\<lambda>r. refusal_matches r c) refusals) (codes a) of
             Some code \<Rightarrow> Refused code
           | None \<Rightarrow> if codes a = [] then NotListed else Listed))"

section \<open>The resolver of provider queries\<close>

text \<open>A record of a reply, as far as it matters here: its time to live, and its address if it is an \<open>A\<close> record.\<close>

record reply_record =
  rr_ttl :: u32
  rr_a :: "ipv4 option"

datatype rcode = NoError | NXDomain | OtherCode nat

fun collect_a :: "reply_record list \<Rightarrow> ipv4 list \<times> u32 \<Rightarrow> ipv4 list \<times> u32" where
  "collect_a [] acc = acc"
| "collect_a (r # rs) (cs, ttl) =
     (case rr_a r of
        Some ip \<Rightarrow> collect_a rs (cs @ [ip], if cs = [] then rr_ttl r else ttl)
      | None \<Rightarrow> collect_a rs (cs, ttl))"

definition a_answer :: "reply_record list \<Rightarrow> dnsbl_answer option" where
  "a_answer answers =
     (let (cs, ttl) = collect_a answers ([], 0)
      in if cs = [] then None else Some \<lparr>codes = cs, ans_ttl = ttl\<rparr>)"

text \<open>The reply of a forwarder; \<open>None\<close> stands for a socket error, a timeout or an undecodable message.\<close>

definition query_forwarder_a :: "(rcode \<times> reply_record list) option \<Rightarrow> dnsbl_answer option option" where
  "query_forwarder_a reply =
     (case reply of
        Some (NoError, answers) \<Rightarrow> Some (a_answer answers)
      | Some (NXDomain, _) \<Rightarrow> Some None
      | _ \<Rightarrow> None)"

fun try_forwarders :: "('f \<Rightarrow> (rcode \<times> reply_record list) option) \<Rightarrow> 'f list \<Rightarrow> dnsbl_answer option" where
  "try_forwarders send [] = None"
| "try_forwarders send (f # fs) =
     (case query_forwarder_a (send f) of Some result \<Rightarrow> result | None \<Rightarrow> try_forwarders send fs)"

text \<open>
  The recursive resolver. Its \<open>Result\<close> is never an error, so it is left out. \<open>from_ascii\<close> is the name
  parser, \<open>roots\<close> the outcome of recursion, \<open>send\<close> the exchange with a forwarder.
\<close>

definition recursive_lookup ::
  "(string \<Rightarrow> 'n option) \<Rightarrow> ('n \<Rightarrow> (rcode \<times> reply_record list) option)
     \<Rightarrow> ('n \<Rightarrow> 'f \<Rightarrow> (rcode \<times> reply_record list) option) \<Rightarrow> 'f list \<Rightarrow> string \<Rightarrow> dnsbl_answer option" where
  "recursive_lookup from_ascii roots send forwarders query =
     (case from_ascii query of
        None \<Rightarrow> None
      | Some name \<Rightarrow>
          (case roots name of
             Some (NoError, answers) \<Rightarrow> a_answer answers
           | Some (NXDomain, _) \<Rightarrow> None
           | _ \<Rightarrow> try_forwarders (send name) forwarders))"

section \<open>The checker\<close>

definition STALE_POSITIVE_GRACE :: nat where
  "STALE_POSITIVE_GRACE = 600 * 1000000000"

datatype CachedVerdict = Fresh bool | StalePositive | Miss

record bl_entry =
  listed :: bool
  bl_expires :: nat

record rotated_entry =
  ro_code :: ipv4
  ro_until :: nat

record provider_lookup =
  pl_key :: string
  pl_query :: string
  pl_zone :: string
  pl_refusals :: "refusal_code list"
  pl_cooldown :: nat

record dnsbl_checker =
  bl_enabled :: bool
  bl_providers :: "dnsbl_provider list"
  bl_cache :: "(string, bl_entry) table"
  resolver_available :: bool
  inflight :: "(string, provider_lookup) table"
  rotated :: "(string, rotated_entry) table"
  refusal_cooldown_secs :: nat

definition dnsbl_checker_new :: dnsbl_checker where
  "dnsbl_checker_new =
     \<lparr>bl_enabled = False, bl_providers = [], bl_cache = [], resolver_available = True, inflight = [],
      rotated = [], refusal_cooldown_secs = DEFAULT_REFUSAL_COOLDOWN_SECS\<rparr>"

definition set_refusal_cooldown :: "nat \<Rightarrow> dnsbl_checker \<Rightarrow> dnsbl_checker" where
  "set_refusal_cooldown secs s =
     s\<lparr>refusal_cooldown_secs := (if secs = 0 then DEFAULT_REFUSAL_COOLDOWN_SECS else secs)\<rparr>"

definition refusal_cooldown :: "dnsbl_checker \<Rightarrow> nat" where
  "refusal_cooldown s = refusal_cooldown_secs s * 1000000000"

record rotated_provider =
  rp_zone :: string
  rp_code :: string
  seconds_remaining :: nat

definition rotated_out :: "nat \<Rightarrow> dnsbl_checker \<Rightarrow> rotated_provider list \<times> dnsbl_checker" where
  "rotated_out now s =
     (let kept = retain (\<lambda>_ r. ro_until r > now) (rotated s)
      in (map (\<lambda>(z, r). \<lparr>rp_zone = z, rp_code = ipv4_to_string (ro_code r),
                         seconds_remaining = (ro_until r - now) div 1000000000\<rparr>) kept,
          s\<lparr>rotated := kept\<rparr>))"

definition rotated_out_count :: "nat \<Rightarrow> dnsbl_checker \<Rightarrow> nat" where
  "rotated_out_count now s = length (filter (\<lambda>(_, r). ro_until r > now) (rotated s))"

definition rotated_out_for :: "nat \<Rightarrow> string \<Rightarrow> dnsbl_checker \<Rightarrow> nat option \<times> dnsbl_checker" where
  "rotated_out_for now zone s =
     (case map_of (rotated s) zone of
        Some entry \<Rightarrow>
          if ro_until entry > now then (Some (ro_until entry - now), s)
          else (None, s\<lparr>rotated := AList.delete zone (rotated s)\<rparr>)
      | None \<Rightarrow> (None, s))"

definition set_resolver_available :: "bool \<Rightarrow> dnsbl_checker \<Rightarrow> dnsbl_checker" where
  "set_resolver_available available s = s\<lparr>resolver_available := available\<rparr>"

definition cached_verdict :: "nat \<Rightarrow> string \<Rightarrow> (string, bl_entry) table \<Rightarrow> CachedVerdict \<times> (string, bl_entry) table" where
  "cached_verdict now key cache =
     (case map_of cache key of
        Some entry \<Rightarrow>
          if bl_expires entry > now then (Fresh (listed entry), cache)
          else if listed entry \<and> now < bl_expires entry + STALE_POSITIVE_GRACE then (StalePositive, cache)
          else (Miss, AList.delete key cache)
      | None \<Rightarrow> (Miss, cache))"

text \<open>
  The loop over the providers. \<open>None\<close> is the early return on a warm positive, otherwise whether a stale
  positive was seen and the lookups to fill.
\<close>

fun scan_lookups ::
  "nat \<Rightarrow> provider_lookup list \<Rightarrow> (string, bl_entry) table
     \<Rightarrow> (bool \<times> provider_lookup list) option \<times> (string, bl_entry) table" where
  "scan_lookups now [] cache = (Some (False, []), cache)"
| "scan_lookups now (l # ls) cache =
     (case cached_verdict now (pl_key l) cache of
        (Fresh True, cache') \<Rightarrow> (None, cache')
      | (Fresh False, cache') \<Rightarrow> scan_lookups now ls cache'
      | (StalePositive, cache') \<Rightarrow> apfst (map_option (\<lambda>(_, misses). (True, l # misses))) (scan_lookups now ls cache')
      | (Miss, cache') \<Rightarrow> apfst (map_option (\<lambda>(stale, misses). (stale, l # misses))) (scan_lookups now ls cache'))"

text \<open>Starting a background lookup, unless one for the key is in flight.\<close>

definition fill_cache_async :: "provider_lookup \<Rightarrow> dnsbl_checker \<Rightarrow> dnsbl_checker" where
  "fill_cache_async l s =
     (case map_of (inflight s) (pl_key l) of
        Some _ \<Rightarrow> s
      | None \<Rightarrow> s\<lparr>inflight := AList.update (pl_key l) l (inflight s)\<rparr>)"

definition fill_step :: "nat \<Rightarrow> provider_lookup \<Rightarrow> dnsbl_checker \<Rightarrow> dnsbl_checker" where
  "fill_step now l s =
     (case rotated_out_for now (pl_zone l) s of
        (Some _, s') \<Rightarrow> s'
      | (None, s') \<Rightarrow> fill_cache_async l s')"

definition check_cached_or_fill :: "nat \<Rightarrow> provider_lookup list \<Rightarrow> dnsbl_checker \<Rightarrow> bool \<times> dnsbl_checker" where
  "check_cached_or_fill now lookups s =
     (case scan_lookups now lookups (bl_cache s) of
        (None, cache) \<Rightarrow> (True, s\<lparr>bl_cache := cache\<rparr>)
      | (Some (stale, misses), cache) \<Rightarrow> (stale, fold (fill_step now) misses (s\<lparr>bl_cache := cache\<rparr>)))"

definition rotate_out :: "nat \<Rightarrow> string \<Rightarrow> ipv4 \<Rightarrow> nat \<Rightarrow> dnsbl_checker \<Rightarrow> dnsbl_checker" where
  "rotate_out now zone code cooldown s =
     s\<lparr>rotated := AList.update zone \<lparr>ro_code = code, ro_until = now + cooldown\<rparr> (rotated s)\<rparr>"

text \<open>The background task once the resolver has returned: \<open>None\<close> is an error, \<open>Some a\<close> its answer.\<close>

definition fill_result :: "nat \<Rightarrow> provider_lookup \<Rightarrow> dnsbl_answer option option \<Rightarrow> dnsbl_checker \<Rightarrow> dnsbl_checker" where
  "fill_result now l result s =
     (let s1 = (case result of
                  None \<Rightarrow> s
                | Some answer \<Rightarrow>
                    (case classify answer (pl_refusals l) of
                       Listed \<Rightarrow>
                         (let ttl = (case answer of Some a \<Rightarrow> ans_ttl a | None \<Rightarrow> 300)
                          in s\<lparr>bl_cache := AList.update (pl_key l) \<lparr>listed = True, bl_expires = now + from_secs ttl\<rparr> (bl_cache s)\<rparr>)
                     | NotListed \<Rightarrow>
                         s\<lparr>bl_cache := AList.update (pl_key l) \<lparr>listed = False, bl_expires = now + from_secs 300\<rparr> (bl_cache s)\<rparr>
                     | Refused code \<Rightarrow> rotate_out now (pl_zone l) code (pl_cooldown l) s))
      in s1\<lparr>inflight := AList.delete (pl_key l) (inflight s1)\<rparr>)"

definition normalize_blocklist_name :: "string \<Rightarrow> string" where
  "normalize_blocklist_name name = lower (trim_end_dots name)"

definition name_lookup :: "string \<Rightarrow> dnsbl_provider \<Rightarrow> nat \<Rightarrow> provider_lookup" where
  "name_lookup normalized p default_cooldown =
     \<lparr>pl_key = normalized @ ''/'' @ dp_zone p, pl_query = normalized @ [dot] @ dp_zone p, pl_zone = dp_zone p,
      pl_refusals = dp_refusal_codes p,
      pl_cooldown = (case dp_cooldown p of Some c \<Rightarrow> c | None \<Rightarrow> default_cooldown)\<rparr>"

definition is_name_listed :: "nat \<Rightarrow> string \<Rightarrow> dnsbl_checker \<Rightarrow> bool \<times> dnsbl_checker" where
  "is_name_listed now name s =
     (if \<not> bl_enabled s then (False, s)
      else if \<not> resolver_available s then (False, s)
      else (let normalized = normalize_blocklist_name name
            in if normalized = [] then (False, s)
               else check_cached_or_fill now
                      (map (\<lambda>p. name_lookup normalized p (refusal_cooldown s)) (filter dp_enabled (bl_providers s))) s))"

definition set_dnsbl_config :: "bool \<Rightarrow> dnsbl_provider list \<Rightarrow> dnsbl_checker \<Rightarrow> dnsbl_checker" where
  "set_dnsbl_config en providers s = s\<lparr>bl_enabled := en, bl_providers := providers, bl_cache := [], rotated := []\<rparr>"

definition get_dnsbl_config :: "dnsbl_checker \<Rightarrow> bool \<times> dnsbl_provider list" where
  "get_dnsbl_config s = (bl_enabled s, bl_providers s)"

definition flush_dnsbl_cache :: "dnsbl_checker \<Rightarrow> dnsbl_checker" where
  "flush_dnsbl_cache s = s\<lparr>bl_cache := [], rotated := []\<rparr>"

text \<open>One turn of the availability loop, with what the probe would report.\<close>

definition availability_turn :: "bool \<Rightarrow> dnsbl_checker \<Rightarrow> dnsbl_checker" where
  "availability_turn probe s = (if bl_enabled s then set_resolver_available probe s else s)"

section \<open>Runs\<close>

text \<open>
  A run interleaves queries, landings of background lookups, administrative calls and probes, at
  times that never go back. Its history, most recent first, holds what landed and when the caches were
  cleared.
\<close>

datatype dnsbl_event = Landed nat provider_lookup "dnsbl_answer option option" | Cleared

inductive dnsbl_run :: "dnsbl_event list \<Rightarrow> nat \<Rightarrow> dnsbl_checker \<Rightarrow> bool" where
  start: "dnsbl_run [] 0 dnsbl_checker_new"
| query: "dnsbl_run h t s \<Longrightarrow> t \<le> now \<Longrightarrow> dnsbl_run h now (snd (is_name_listed now name s))"
| landed: "dnsbl_run h t s \<Longrightarrow> t \<le> now \<Longrightarrow> map_of (inflight s) key = Some l \<Longrightarrow>
    dnsbl_run (Landed now l result # h) now (fill_result now l result s)"
| config: "dnsbl_run h t s \<Longrightarrow> t \<le> now \<Longrightarrow> dnsbl_run (Cleared # h) now (set_dnsbl_config en ps s)"
| flush: "dnsbl_run h t s \<Longrightarrow> t \<le> now \<Longrightarrow> dnsbl_run (Cleared # h) now (flush_dnsbl_cache s)"
| cooldown: "dnsbl_run h t s \<Longrightarrow> t \<le> now \<Longrightarrow> dnsbl_run h now (set_refusal_cooldown secs s)"
| probe: "dnsbl_run h t s \<Longrightarrow> t \<le> now \<Longrightarrow> dnsbl_run h now (availability_turn up s)"
| report: "dnsbl_run h t s \<Longrightarrow> t \<le> now \<Longrightarrow> dnsbl_run h now (snd (rotated_out now s))"

text \<open>What the history says: the last verdict a provider gave under a key, and how long a refusal keeps it out.\<close>

fun verdict_on_record :: "string \<Rightarrow> dnsbl_event list \<Rightarrow> bl_entry option" where
  "verdict_on_record key [] = None"
| "verdict_on_record key (Cleared # h) = None"
| "verdict_on_record key (Landed t l None # h) = verdict_on_record key h"
| "verdict_on_record key (Landed t l (Some answer) # h) =
     (if pl_key l = key \<and> classify answer (pl_refusals l) = Listed
      then Some \<lparr>listed = True, bl_expires = t + from_secs (ans_ttl (the answer))\<rparr>
      else if pl_key l = key \<and> classify answer (pl_refusals l) = NotListed
      then Some \<lparr>listed = False, bl_expires = t + from_secs 300\<rparr>
      else verdict_on_record key h)"

fun refused_until :: "string \<Rightarrow> dnsbl_event list \<Rightarrow> nat option" where
  "refused_until zone [] = None"
| "refused_until zone (Cleared # h) = None"
| "refused_until zone (Landed t l None # h) = refused_until zone h"
| "refused_until zone (Landed t l (Some answer) # h) =
     (if pl_zone l = zone \<and> (case classify answer (pl_refusals l) of Refused _ \<Rightarrow> True | _ \<Rightarrow> False)
      then Some (t + pl_cooldown l)
      else refused_until zone h)"

section \<open>The caches agree with the history\<close>

definition blocks :: "nat \<Rightarrow> bl_entry \<Rightarrow> bool" where
  "blocks now e \<longleftrightarrow> listed e \<and> now < bl_expires e + STALE_POSITIVE_GRACE"

definition cache_inv :: "dnsbl_event list \<Rightarrow> nat \<Rightarrow> (string, bl_entry) table \<Rightarrow> bool" where
  "cache_inv h t c \<longleftrightarrow>
     (\<forall>k e. map_of c k = Some e \<longrightarrow> verdict_on_record k h = Some e) \<and>
     (\<forall>k e. verdict_on_record k h = Some e \<and> map_of c k = None \<longrightarrow> bl_expires e \<le> t \<and> \<not> blocks t e)"

definition rotation_inv :: "dnsbl_event list \<Rightarrow> nat \<Rightarrow> (string, rotated_entry) table \<Rightarrow> bool" where
  "rotation_inv h t m \<longleftrightarrow> wf_table m \<and>
     (\<forall>z r. map_of m z = Some r \<longrightarrow> refused_until z h = Some (ro_until r)) \<and>
     (\<forall>z u. refused_until z h = Some u \<and> map_of m z = None \<longrightarrow> u \<le> t)"

definition dnsbl_inv :: "dnsbl_event list \<Rightarrow> nat \<Rightarrow> dnsbl_checker \<Rightarrow> bool" where
  "dnsbl_inv h t s \<longleftrightarrow> cache_inv h t (bl_cache s) \<and> rotation_inv h t (rotated s) \<and>
     (\<forall>k l. map_of (inflight s) k = Some l \<longrightarrow> pl_key l = k)"

text \<open>What the history says about a key, and about a zone, at a moment.\<close>

definition verdict_now :: "dnsbl_event list \<Rightarrow> nat \<Rightarrow> string \<Rightarrow> CachedVerdict" where
  "verdict_now h now key =
     (case verdict_on_record key h of
        Some e \<Rightarrow> if now < bl_expires e then Fresh (listed e) else if blocks now e then StalePositive else Miss
      | None \<Rightarrow> Miss)"

definition kept_out :: "dnsbl_event list \<Rightarrow> nat \<Rightarrow> string \<Rightarrow> bool" where
  "kept_out h now zone \<longleftrightarrow> (case refused_until zone h of Some u \<Rightarrow> now < u | None \<Rightarrow> False)"

lemma blocks_antimono: "t \<le> t' \<Longrightarrow> blocks t' e \<Longrightarrow> blocks t e"
  by (simp add: blocks_def)

lemma cache_inv_mono: "cache_inv h t c \<Longrightarrow> t \<le> t' \<Longrightarrow> cache_inv h t' c"
  unfolding cache_inv_def by (meson blocks_antimono le_trans)

lemma rotation_inv_mono: "rotation_inv h t m \<Longrightarrow> t \<le> t' \<Longrightarrow> rotation_inv h t' m"
  unfolding rotation_inv_def by (meson le_trans)

lemma cached_verdict_spec:
  assumes "cache_inv h now c"
  shows "fst (cached_verdict now key c) = verdict_now h now key" "cache_inv h now (snd (cached_verdict now key c))"
proof -
  have "(\<exists>e. map_of c key = Some e \<and> verdict_on_record key h = Some e) \<or>
      map_of c key = None \<and> (case verdict_on_record key h of Some e \<Rightarrow> bl_expires e \<le> now \<and> \<not> blocks now e | None \<Rightarrow> True)"
    using assms by (cases "map_of c key") (auto simp: cache_inv_def split: option.split)
  then show "fst (cached_verdict now key c) = verdict_now h now key"
    by (auto simp: cached_verdict_def verdict_now_def blocks_def split: option.splits)
  show "cache_inv h now (snd (cached_verdict now key c))"
  proof (cases "map_of c key")
    case (Some e)
    then have "verdict_on_record key h = Some e"
      using assms by (simp add: cache_inv_def)
    then show ?thesis
      using assms Some by (auto simp: cached_verdict_def cache_inv_def blocks_def)
  qed (simp add: cached_verdict_def assms)
qed

lemma scan_lookups_spec:
  assumes "cache_inv h now c"
  shows "fst (scan_lookups now ls c) =
      (if \<exists>l\<in>set ls. verdict_now h now (pl_key l) = Fresh True then None
       else Some (\<exists>l\<in>set ls. verdict_now h now (pl_key l) = StalePositive,
                  filter (\<lambda>l. verdict_now h now (pl_key l) = StalePositive \<or> verdict_now h now (pl_key l) = Miss) ls))
    \<and> cache_inv h now (snd (scan_lookups now ls c))"
  using assms
proof (induction ls arbitrary: c)
  case (Cons l ls)
  note v = cached_verdict_spec [OF Cons.prems, of "pl_key l"]
  obtain w c' where w: "cached_verdict now (pl_key l) c = (w, c')"
    by fastforce
  with v have c: "verdict_now h now (pl_key l) = w" "cache_inv h now c'"
    by simp_all
  note ih = Cons.IH [OF c(2)]
  consider "w = Fresh True" | "w = Fresh False" | "w = StalePositive" | "w = Miss"
    by (cases w) auto
  then show ?case
    by cases (use ih in \<open>simp_all add: w c\<close>)
qed simp

lemma rotated_out_for_spec:
  assumes "rotation_inv h now (rotated s)"
  shows "fst (rotated_out_for now z s) \<noteq> None \<longleftrightarrow> kept_out h now z"
    and "rotation_inv h now (rotated (snd (rotated_out_for now z s)))"
    and "\<exists>m. snd (rotated_out_for now z s) = s\<lparr>rotated := m\<rparr>"
proof -
  have "(\<exists>r. map_of (rotated s) z = Some r \<and> refused_until z h = Some (ro_until r)) \<or>
      map_of (rotated s) z = None \<and> (case refused_until z h of Some u \<Rightarrow> u \<le> now | None \<Rightarrow> True)"
    using assms by (cases "map_of (rotated s) z") (auto simp: rotation_inv_def split: option.split)
  then show "fst (rotated_out_for now z s) \<noteq> None \<longleftrightarrow> kept_out h now z"
    by (auto simp: rotated_out_for_def kept_out_def split: option.splits)
  show "rotation_inv h now (rotated (snd (rotated_out_for now z s)))"
    using assms by (auto simp: rotated_out_for_def rotation_inv_def split: option.split)
  show "\<exists>m. snd (rotated_out_for now z s) = s\<lparr>rotated := m\<rparr>"
    by (cases s) (auto simp: rotated_out_for_def split: option.split)
qed

lemma fill_step_spec:
  assumes "rotation_inv h now (rotated s)"
  shows "bl_cache (fill_step now l s) = bl_cache s" "rotation_inv h now (rotated (fill_step now l s))"
    and "map_of (inflight (fill_step now l s)) k =
      (if map_of (inflight s) k = None \<and> k = pl_key l \<and> \<not> kept_out h now (pl_zone l) then Some l
       else map_of (inflight s) k)"
proof -
  note r = rotated_out_for_spec [OF assms, of "pl_zone l"]
  obtain o' m where o: "rotated_out_for now (pl_zone l) s = (o', s\<lparr>rotated := m\<rparr>)"
    using r(3) by (metis prod.collapse)
  have m: "rotation_inv h now m" "o' \<noteq> None \<longleftrightarrow> kept_out h now (pl_zone l)"
    using r(1,2) by (simp_all add: o)
  show "bl_cache (fill_step now l s) = bl_cache s" "rotation_inv h now (rotated (fill_step now l s))"
    "map_of (inflight (fill_step now l s)) k =
      (if map_of (inflight s) k = None \<and> k = pl_key l \<and> \<not> kept_out h now (pl_zone l) then Some l
       else map_of (inflight s) k)"
    using m by (auto simp: fill_step_def o fill_cache_async_def split: option.splits)
qed

text \<open>The fills of one query, in terms of the history: the first lookup under a key that is not in flight and not kept out.\<close>

lemma fill_steps_spec:
  assumes "rotation_inv h now (rotated s)"
  shows "bl_cache (fold (fill_step now) ls s) = bl_cache s \<and> rotation_inv h now (rotated (fold (fill_step now) ls s)) \<and>
    map_of (inflight (fold (fill_step now) ls s)) k =
      (if map_of (inflight s) k = None then find (\<lambda>l. pl_key l = k \<and> \<not> kept_out h now (pl_zone l)) ls
       else map_of (inflight s) k)"
  using assms
proof (induction ls arbitrary: s)
  case (Cons l ls)
  note f = fill_step_spec [OF Cons.prems, of l]
  show ?case
    using Cons.IH [OF f(2)] by (auto simp: f)
qed simp

text \<open>The lookups of a query, and the answer and the new state of the checker over the history.\<close>

definition query_lookups :: "string \<Rightarrow> dnsbl_checker \<Rightarrow> provider_lookup list" where
  "query_lookups name s =
     (if bl_enabled s \<and> resolver_available s \<and> normalize_blocklist_name name \<noteq> []
      then map (\<lambda>p. name_lookup (normalize_blocklist_name name) p (refusal_cooldown s)) (filter dp_enabled (bl_providers s))
      else [])"

lemma is_name_listed_lookups:
  "is_name_listed now name s = (if query_lookups name s = [] then (False, s) else check_cached_or_fill now (query_lookups name s) s)"
  by (auto simp: is_name_listed_def query_lookups_def Let_def check_cached_or_fill_def)

lemma check_spec:
  assumes "dnsbl_inv h now s"
  shows "fst (check_cached_or_fill now ls s) \<longleftrightarrow>
      (\<exists>l\<in>set ls. verdict_now h now (pl_key l) = Fresh True \<or> verdict_now h now (pl_key l) = StalePositive)"
    and "dnsbl_inv h now (snd (check_cached_or_fill now ls s))"
    and "map_of (inflight (snd (check_cached_or_fill now ls s))) k =
      (if map_of (inflight s) k \<noteq> None \<or> (\<exists>l\<in>set ls. verdict_now h now (pl_key l) = Fresh True) then map_of (inflight s) k
       else find (\<lambda>l. pl_key l = k \<and> \<not> kept_out h now (pl_zone l))
              (filter (\<lambda>l. verdict_now h now (pl_key l) = StalePositive \<or> verdict_now h now (pl_key l) = Miss) ls))"
proof -
  obtain r c where rc: "scan_lookups now ls (bl_cache s) = (r, c)"
    by fastforce
  have inv: "cache_inv h now (bl_cache s)" "rotation_inv h now (rotated (s\<lparr>bl_cache := c\<rparr>))"
    using assms by (simp_all add: dnsbl_inv_def)
  note s = scan_lookups_spec [OF inv(1), of ls, unfolded rc fst_conv snd_conv]
  note f = fill_steps_spec [OF inv(2)]
  show "fst (check_cached_or_fill now ls s) \<longleftrightarrow>
      (\<exists>l\<in>set ls. verdict_now h now (pl_key l) = Fresh True \<or> verdict_now h now (pl_key l) = StalePositive)"
    using s by (auto simp: check_cached_or_fill_def rc split: if_splits)
  show "dnsbl_inv h now (snd (check_cached_or_fill now ls s))"
    using s f assms by (auto simp: check_cached_or_fill_def rc dnsbl_inv_def find_Some_iff split: if_splits)
  show "map_of (inflight (snd (check_cached_or_fill now ls s))) k =
      (if map_of (inflight s) k \<noteq> None \<or> (\<exists>l\<in>set ls. verdict_now h now (pl_key l) = Fresh True) then map_of (inflight s) k
       else find (\<lambda>l. pl_key l = k \<and> \<not> kept_out h now (pl_zone l))
              (filter (\<lambda>l. verdict_now h now (pl_key l) = StalePositive \<or> verdict_now h now (pl_key l) = Miss) ls))"
    using s f [where k = k] by (auto simp: check_cached_or_fill_def rc split: if_splits)
qed

lemma dnsbl_inv_mono: "dnsbl_inv h t s \<Longrightarrow> t \<le> t' \<Longrightarrow> dnsbl_inv h t' s"
  by (auto simp: dnsbl_inv_def intro: cache_inv_mono rotation_inv_mono)

lemma cache_inv_update:
  "cache_inv h t c \<Longrightarrow> (\<And>k. verdict_on_record k h' = (if k = key then Some e else verdict_on_record k h)) \<Longrightarrow>
     cache_inv h' t (AList.update key e c)"
  by (auto simp: cache_inv_def)

lemma rotation_inv_update:
  "rotation_inv h t m \<Longrightarrow> (\<And>z. refused_until z h' = (if z = zone then Some (ro_until r) else refused_until z h)) \<Longrightarrow>
     rotation_inv h' t (AList.update zone r m)"
  by (auto simp: rotation_inv_def)

lemma classify_Listed:
  "classify answer rs = Listed \<longleftrightarrow>
     (\<exists>a. answer = Some a \<and> codes a \<noteq> [] \<and> (\<forall>c\<in>set (codes a). \<forall>r\<in>set rs. \<not> refusal_matches r c))"
  by (auto simp: classify_def find_None_iff find_Some_iff list_ex_iff split: option.split)

lemma fill_result_inv:
  assumes "dnsbl_inv h now s"
  shows "dnsbl_inv (Landed now l result # h) now (fill_result now l result s)"
proof (cases result)
  case None
  then have "verdict_on_record k (Landed now l result # h) = verdict_on_record k h"
    "refused_until z (Landed now l result # h) = refused_until z h" for k z
    by simp_all
  then show ?thesis
    using assms None by (auto simp: fill_result_def dnsbl_inv_def cache_inv_def rotation_inv_def)
next
  case (Some answer)
  have inv: "cache_inv h now (bl_cache s)" "rotation_inv h now (rotated s)"
      "\<forall>k l. map_of (inflight s) k = Some l \<longrightarrow> pl_key l = k"
    using assms by (simp_all add: dnsbl_inv_def)
  show ?thesis
  proof (cases "classify answer (pl_refusals l)")
    case Listed
    then obtain a where a: "answer = Some a"
      by (auto simp: classify_Listed)
    have "cache_inv (Landed now l result # h) now
        (AList.update (pl_key l) \<lparr>listed = True, bl_expires = now + from_secs (ans_ttl a)\<rparr> (bl_cache s))"
      by (rule cache_inv_update [OF inv(1)]) (use Some Listed a in auto)
    moreover have "rotation_inv (Landed now l result # h) now (rotated s)"
      using inv(2) Some Listed by (auto simp: rotation_inv_def)
    ultimately show ?thesis
      using Some Listed inv(3) by (simp add: fill_result_def dnsbl_inv_def a)
  next
    case NotListed
    have "cache_inv (Landed now l result # h) now
        (AList.update (pl_key l) \<lparr>listed = False, bl_expires = now + from_secs 300\<rparr> (bl_cache s))"
      by (rule cache_inv_update [OF inv(1)]) (use Some NotListed in auto)
    moreover have "rotation_inv (Landed now l result # h) now (rotated s)"
      using inv(2) Some NotListed by (auto simp: rotation_inv_def)
    ultimately show ?thesis
      using Some NotListed inv(3) by (simp add: fill_result_def dnsbl_inv_def)
  next
    case (Refused code)
    have "rotation_inv (Landed now l result # h) now
        (AList.update (pl_zone l) \<lparr>ro_code = code, ro_until = now + pl_cooldown l\<rparr> (rotated s))"
      by (rule rotation_inv_update [OF inv(2)]) (use Some Refused in auto)
    moreover have "cache_inv (Landed now l result # h) now (bl_cache s)"
      using inv(1) Some Refused by (auto simp: cache_inv_def)
    ultimately show ?thesis
      using Some Refused inv(3) by (simp add: fill_result_def dnsbl_inv_def rotate_out_def)
  qed
qed

lemma cleared_inv: "\<forall>k l. map_of (inflight s) k = Some l \<longrightarrow> pl_key l = k \<Longrightarrow> bl_cache s = [] \<Longrightarrow> rotated s = [] \<Longrightarrow>
    dnsbl_inv (Cleared # h) t s"
  by (simp add: dnsbl_inv_def cache_inv_def rotation_inv_def)

lemma query_inv: "dnsbl_inv h now s \<Longrightarrow> dnsbl_inv h now (snd (is_name_listed now name s))"
  by (simp add: is_name_listed_lookups check_spec(2))

lemma report_inv: "dnsbl_inv h now s \<Longrightarrow> dnsbl_inv h now (snd (rotated_out now s))"
  by (auto simp: dnsbl_inv_def rotated_out_def Let_def rotation_inv_def map_of_retain split: option.splits if_splits)

lemma dnsbl_run_inv: "dnsbl_run h t s \<Longrightarrow> dnsbl_inv h t s"
proof (induction rule: dnsbl_run.induct)
  case start
  then show ?case
    by (simp add: dnsbl_checker_new_def dnsbl_inv_def cache_inv_def rotation_inv_def)
next
  case (query h t s now name)
  then show ?case
    by (intro query_inv) (rule dnsbl_inv_mono)
next
  case (landed h t s now key l result)
  then show ?case
    by (intro fill_result_inv) (rule dnsbl_inv_mono)
next
  case (report h t s now)
  then show ?case
    by (intro report_inv) (rule dnsbl_inv_mono)
next
  case (cooldown h t s now secs)
  then show ?case
    using dnsbl_inv_mono [of h t s now] by (simp add: set_refusal_cooldown_def dnsbl_inv_def)
next
  case (probe h t s now up)
  then show ?case
    using dnsbl_inv_mono [of h t s now] by (simp add: availability_turn_def set_resolver_available_def dnsbl_inv_def)
next
  case (config h t s now en ps)
  then show ?case
    by (intro cleared_inv) (simp_all add: dnsbl_inv_def set_dnsbl_config_def)
next
  case (flush h t s now)
  then show ?case
    by (intro cleared_inv) (simp_all add: dnsbl_inv_def flush_dnsbl_cache_def)
qed

lemma verdict_now_blocks:
  "verdict_now h now key = Fresh True \<or> verdict_now h now key = StalePositive \<longleftrightarrow>
     (\<exists>e. verdict_on_record key h = Some e \<and> listed e \<and> now < bl_expires e + STALE_POSITIVE_GRACE)"
  by (auto simp: verdict_now_def blocks_def STALE_POSITIVE_GRACE_def split: option.splits)

lemma listing_evidence:
  "verdict_on_record key h = Some e \<Longrightarrow> listed e \<Longrightarrow>
     \<exists>t l a. Landed t l (Some (Some a)) \<in> set h \<and> pl_key l = key \<and> codes a \<noteq> [] \<and>
       (\<forall>c\<in>set (codes a). \<forall>r\<in>set (pl_refusals l). \<not> refusal_matches r c) \<and> bl_expires e = t + from_secs (ans_ttl a)"
proof (induction h rule: verdict_on_record.induct)
  case (4 key t l answer h)
  show ?case
  proof (cases "pl_key l = key \<and> classify answer (pl_refusals l) = Listed")
    case True
    then obtain a where "answer = Some a" "codes a \<noteq> []" "\<forall>c\<in>set (codes a). \<forall>r\<in>set (pl_refusals l). \<not> refusal_matches r c"
      by (auto simp: classify_Listed)
    then show ?thesis
      using True "4.prems"(1) by (intro exI [of _ t] exI [of _ l] exI [of _ a]) auto
  next
    case False
    then have n: "\<not> (pl_key l = key \<and> classify answer (pl_refusals l) = NotListed)" "verdict_on_record key h = Some e"
      using "4.prems" by (auto split: if_splits)
    show ?thesis
      using "4.IH" [OF False n "4.prems"(2)] by (metis list.set_intros(2))
  qed
next
  case (3 key t l h)
  then show ?case
    by (metis list.set_intros(2) verdict_on_record.simps(3))
qed simp_all

text \<open>When a name is blocked, over the history.\<close>

definition provider_lists :: "dnsbl_event list \<Rightarrow> nat \<Rightarrow> string \<Rightarrow> dnsbl_checker \<Rightarrow> bool" where
  "provider_lists h now name s \<longleftrightarrow>
     bl_enabled s \<and> resolver_available s \<and> normalize_blocklist_name name \<noteq> [] \<and>
     (\<exists>p\<in>set (bl_providers s). dp_enabled p \<and>
        (\<exists>e. verdict_on_record (pl_key (name_lookup (normalize_blocklist_name name) p (refusal_cooldown s))) h = Some e \<and>
             listed e \<and> now < bl_expires e + STALE_POSITIVE_GRACE))"

lemma is_name_listed_iff:
  assumes "dnsbl_run h t s" "t \<le> now"
  shows "fst (is_name_listed now name s) \<longleftrightarrow> provider_lists h now name s"
proof -
  have inv: "dnsbl_inv h now s"
    using dnsbl_inv_mono [OF dnsbl_run_inv [OF assms(1)] assms(2)] .
  have "fst (is_name_listed now name s) \<longleftrightarrow>
      (\<exists>l\<in>set (query_lookups name s). verdict_now h now (pl_key l) = Fresh True \<or> verdict_now h now (pl_key l) = StalePositive)"
    by (simp add: is_name_listed_lookups check_spec(1) [OF inv])
  then show ?thesis
    unfolding verdict_now_blocks provider_lists_def by (auto simp: query_lookups_def)
qed

section \<open>Configuration texts\<close>

definition wf_refusal :: "refusal_code \<Rightarrow> bool" where
  "wf_refusal c \<longleftrightarrow> rc_prefix c \<le> 32 \<and> mask_v4 (rc_base c) (rc_prefix c) = rc_base c"

lemma mask_v4_idem [simp]: "mask_v4 (mask_v4 a p) p = mask_v4 a p"
  by (simp add: mask_v4_def Let_def and.assoc)

lemma mask_v4_ip: "mask_ip (V4 a) p = V4 (mask_v4 a p)"
  by (simp add: mask_ip_def mask_v4_def Let_def)

lemma mask_v4_full [simp]: "mask_v4 a 32 = a"
  by (simp add: mask_v4_def)

lemma refusal_parse_wf: "refusal_parse s = Inr c \<Longrightarrow> wf_refusal c"
  by (auto simp: refusal_parse_def wf_refusal_def Let_def split: option.splits sum.splits if_splits)

lemma parse_all_wf: "parse_all ss = Inr cs \<Longrightarrow> c \<in> set cs \<Longrightarrow> wf_refusal c"
  by (induction ss arbitrary: cs) (auto split: sum.splits dest: refusal_parse_wf)

lemma no_slash_ipv4: "split_once (CHR ''/'') (ipv4_to_string a) = None"
  by (auto simp: split_once_None dest!: ipv4_to_string_chars dest: digit_not_ws(2))

lemma trim_refusal_text: "trim (ipv4_to_string a @ ''/'' @ show_nat n) = ipv4_to_string a @ ''/'' @ show_nat n"
  by (rule trim_no_ws)
     (auto dest!: ipv4_to_string_chars show_nat_digits dest: digit_not_ws(1) simp: is_ws_def [of dot] is_ws_def [of "CHR ''/''"])

lemma refusal_text_roundtrip:
  assumes "wf_refusal c"
  shows "refusal_parse (refusal_to_string c) = Inr c"
proof (cases "rc_prefix c = 32")
  case True
  then show ?thesis
    by (cases c) (simp add: refusal_to_string_def refusal_parse_def no_slash_ipv4)
next
  case False
  with assms have "parse_uint 255 (show_nat (rc_prefix c)) = Some (rc_prefix c)" "rc_prefix c \<le> 32"
    by (simp_all add: wf_refusal_def parse_uint_show)
  then show ?thesis
    unfolding refusal_to_string_def refusal_parse_def Let_def trim_refusal_text split_slash_ipv4 using False assms
    by (cases c) (simp add: wf_refusal_def trim_refusal_text split_slash_ipv4 del: append.simps)
qed

lemma parse_all_roundtrip: "\<forall>c\<in>set cs. wf_refusal c \<Longrightarrow> parse_all (map refusal_to_string cs) = Inr cs"
  by (induction cs) (auto simp: refusal_text_roundtrip)

lemma dot_in_ipv4: "dot \<in> set (ipv4_to_string a)"
proof -
  obtain w x y z where "octets4 a = [w, x, y, z]"
    using list_of_four [OF length_octets4] by blast
  then show ?thesis
    by (simp add: ipv4_to_string_def)
qed

lemma refusal_text_not_none: "\<not> spells_none (refusal_to_string c)"
proof
  assume "spells_none (refusal_to_string c)"
  moreover have "trim (refusal_to_string c) = refusal_to_string c"
    using trim_refusal_text [of "rc_base c" "rc_prefix c"] by (simp add: refusal_to_string_def)
  ultimately have "lower (refusal_to_string c) = lower ''none''"
    by (simp add: spells_none_def REFUSAL_CODES_NONE_def del: lower_Cons)
  then have "dot \<in> set (lower (refusal_to_string c)) \<longleftrightarrow> dot \<in> set (lower ''none'')"
    by (simp only:)
  moreover have "dot \<in> set (refusal_to_string c)"
    using dot_in_ipv4 [of "rc_base c"] by (simp add: refusal_to_string_def)
  ultimately show False
    unfolding dot_in_lower by simp
qed

lemma refusal_matches_prefix:
  assumes "wf_refusal c"
  shows "refusal_matches c ip \<longleftrightarrow> same_prefix (rc_prefix c) (V4 (rc_base c)) (V4 ip)"
  using mask_ip_eq_iff [of "rc_prefix c" "V4 (rc_base c)" "V4 ip"] assms
  by (simp add: mask_v4_ip wf_refusal_def refusal_matches_def)

lemma resolved_codes_wf:
  assumes "resolve_refusal_codes specs = Inr cs" "c \<in> set cs"
  shows "wf_refusal c"
  using assms parse_all_wf by (auto simp: resolve_refusal_codes_def split: if_splits option.splits)

lemma resolve_refusal_strings:
  assumes "\<forall>c\<in>set (dp_refusal_codes p). wf_refusal c"
  shows "resolve_refusal_codes (refusal_code_strings p) = Inr (dp_refusal_codes p)"
proof (cases "dp_refusal_codes p = []")
  case True
  moreover have "spells_none REFUSAL_CODES_NONE"
    by code_simp
  ultimately show ?thesis
    by (simp add: refusal_code_strings_def resolve_refusal_codes_def)
next
  case False
  moreover have "find spells_none (map refusal_to_string (dp_refusal_codes p)) = None"
    by (simp add: find_None_iff refusal_text_not_none)
  ultimately show ?thesis
    using refusal_text_not_none parse_all_roundtrip [OF assms]
    by (auto simp: refusal_code_strings_def resolve_refusal_codes_def length_Suc_conv)
qed

section \<open>Keys and failed lookups\<close>

text \<open>Provider zones hold no slash, so a key belongs to one name and one zone.\<close>

lemma lookup_key_inject:
  assumes "CHR ''/'' \<notin> set (dp_zone p)" "CHR ''/'' \<notin> set (dp_zone q)"
    and "pl_key (name_lookup m p c) = pl_key (name_lookup n q d)"
  shows "m = n \<and> dp_zone p = dp_zone q"
proof -
  have "rev (dp_zone p) @ CHR ''/'' # rev m = rev (dp_zone q) @ CHR ''/'' # rev n"
    using arg_cong [OF assms(3), of rev] by (simp add: name_lookup_def)
  then show ?thesis
    using assms(1,2) append_sep_eq [of "CHR ''/''" "rev (dp_zone p)" "rev (dp_zone q)" "rev m" "rev n"] by auto
qed

text \<open>
  A lookup that nothing could resolve lands as \<open>Ok(None)\<close>, so it is stored as a verdict and not
  skipped as an error: it takes a standing listing out of force for five minutes.
\<close>

lemma failed_resolution_lists_nothing:
  assumes "from_ascii q = Some n" "case roots n of Some (NoError, _) \<Rightarrow> False | Some (NXDomain, _) \<Rightarrow> False | _ \<Rightarrow> True"
    and "\<forall>f\<in>set fs. query_forwarder_a (send n f) = None"
  shows "recursive_lookup from_ascii roots send fs q = None"
proof -
  have "try_forwarders (send n) fs = None"
    using assms(3) by (induction fs) simp_all
  then show ?thesis
    using assms(1,2) by (auto simp: recursive_lookup_def split: option.splits prod.splits rcode.splits)
qed

lemma failed_resolution_unlists:
  "map_of (bl_cache (fill_result now l (Some None) s)) (pl_key l) = Some \<lparr>listed = False, bl_expires = now + from_secs 300\<rparr>"
  by (simp add: fill_result_def classify_def)

section \<open>Properties\<close>

definition sample_provider :: dnsbl_provider where
  "sample_provider =
     \<lparr>dp_zone = ''bl'', dp_enabled = True, dp_refusal_codes = [\<lparr>rc_base = 0x7F000001, rc_prefix = 32\<rparr>], dp_cooldown = None\<rparr>"

definition sample_query_lookup :: provider_lookup where
  "sample_query_lookup = name_lookup ''ad.x'' sample_provider (3600 * 1000000000)"

definition sample_asked :: dnsbl_checker where
  "sample_asked = snd (is_name_listed 1 ''Ad.x.'' (set_dnsbl_config True [sample_provider] dnsbl_checker_new))"

definition sample_reply :: "ipv4 \<Rightarrow> dnsbl_answer option option" where
  "sample_reply code = Some (Some \<lparr>codes = [code], ans_ttl = 60\<rparr>)"

definition sample_landed :: "ipv4 \<Rightarrow> dnsbl_checker" where
  "sample_landed code = fill_result 2 sample_query_lookup (sample_reply code) sample_asked"

lemma sample_dnsbl_run: "dnsbl_run [Landed 2 sample_query_lookup (sample_reply code), Cleared] 2 (sample_landed code)"
proof -
  have asked: "dnsbl_run [Cleared] 1 sample_asked"
    unfolding sample_asked_def
    by (rule dnsbl_run.query [OF dnsbl_run.config [OF dnsbl_run.start, of 0]]) simp_all
  have flying: "map_of (inflight sample_asked) ''ad.x/bl'' = Some sample_query_lookup"
    by code_simp
  show ?thesis
    unfolding sample_landed_def by (rule dnsbl_run.landed [OF asked _ flying]) simp
qed

text \<open>
  C34: whatever queries, landings of background lookups, reconfigurations, flushes and probes came
  before, and in whatever order, a name is blocked exactly if the checker is on and reachable and an
  enabled provider's last verdict on the name since the caches were cleared is a listing whose
  time to live, plus ten minutes of grace, has not passed; and a listing on record comes from an
  answer with at least one address, none of which is a refusal code of the provider.
\<close>

theorem dnsbl_blocks_exactly_listed:
  assumes "dnsbl_run h t s" "t \<le> now"
  shows "(fst (is_name_listed now name s) \<longleftrightarrow>
      bl_enabled s \<and> resolver_available s \<and> normalize_blocklist_name name \<noteq> [] \<and>
      (\<exists>p\<in>set (bl_providers s). dp_enabled p \<and>
         (\<exists>e. verdict_on_record (pl_key (name_lookup (normalize_blocklist_name name) p (refusal_cooldown s))) h = Some e \<and>
              listed e \<and> now < bl_expires e + STALE_POSITIVE_GRACE))) \<and>
    (\<forall>key e. verdict_on_record key h = Some e \<and> listed e \<longrightarrow>
      (\<exists>t l a. Landed t l (Some (Some a)) \<in> set h \<and> pl_key l = key \<and> codes a \<noteq> [] \<and>
         (\<forall>c\<in>set (codes a). \<forall>r\<in>set (pl_refusals l). \<not> refusal_matches r c) \<and>
         bl_expires e = t + from_secs (ans_ttl a)))"
proof (intro conjI allI impI)
  show "fst (is_name_listed now name s) \<longleftrightarrow>
      bl_enabled s \<and> resolver_available s \<and> normalize_blocklist_name name \<noteq> [] \<and>
      (\<exists>p\<in>set (bl_providers s). dp_enabled p \<and>
         (\<exists>e. verdict_on_record (pl_key (name_lookup (normalize_blocklist_name name) p (refusal_cooldown s))) h = Some e \<and>
              listed e \<and> now < bl_expires e + STALE_POSITIVE_GRACE))"
    using is_name_listed_iff [OF assms] unfolding provider_lists_def .
next
  fix key e
  assume "verdict_on_record key h = Some e \<and> listed e"
  then show "\<exists>t l a. Landed t l (Some (Some a)) \<in> set h \<and> pl_key l = key \<and> codes a \<noteq> [] \<and>
         (\<forall>c\<in>set (codes a). \<forall>r\<in>set (pl_refusals l). \<not> refusal_matches r c) \<and>
         bl_expires e = t + from_secs (ans_ttl a)"
    using listing_evidence by blast
qed

theorem dnsbl_blocks_exactly_listed_witness:
  "\<exists>h s. dnsbl_run h 2 s \<and> fst (is_name_listed (600 * 1000000000) ''AD.x'' s)"
proof -
  let ?h = "[Landed 2 sample_query_lookup (sample_reply 0x7F000002), Cleared]"
  let ?s = "sample_landed 0x7F000002"
  have s: "bl_enabled ?s" "resolver_available ?s" "bl_providers ?s = [sample_provider]" "dp_enabled sample_provider"
      "normalize_blocklist_name ''AD.x'' = ''ad.x''"
    by code_simp+
  have v: "verdict_on_record (pl_key (name_lookup ''ad.x'' sample_provider (refusal_cooldown ?s))) ?h =
      Some \<lparr>listed = True, bl_expires = 60000000002\<rparr>"
    by code_simp
  have "fst (is_name_listed (600 * 1000000000) ''AD.x'' ?s)"
    using dnsbl_blocks_exactly_listed [OF sample_dnsbl_run [of "0x7F000002"], where now = "600 * 1000000000" and name = "''AD.x''"]
    by (simp add: s v STALE_POSITIVE_GRACE_def)
  then show ?thesis
    using sample_dnsbl_run by blast
qed

text \<open>
  C35: a query starts exactly the background lookups that are missing. A lookup is started under a
  key if none is in flight there, no provider has a listing in force that answers the query at once,
  an enabled provider's verdict under that key is absent or out of date, and the provider's zone is not
  serving a cooldown for its last refusal. In particular a provider that refused is not asked again
  before its cooldown is over.
\<close>

theorem dnsbl_lookups_started:
  assumes "dnsbl_run h t s" "t \<le> now" "map_of (inflight s) key = None"
  shows "(\<exists>l. map_of (inflight (snd (is_name_listed now name s))) key = Some l) \<longleftrightarrow>
    (\<forall>l\<in>set (query_lookups name s). verdict_now h now (pl_key l) \<noteq> Fresh True) \<and>
    (\<exists>l\<in>set (query_lookups name s). pl_key l = key \<and> verdict_now h now key \<noteq> Fresh False \<and>
       (case refused_until (pl_zone l) h of Some u \<Rightarrow> u \<le> now | None \<Rightarrow> True))"
proof -
  have inv: "dnsbl_inv h now s"
    using dnsbl_inv_mono [OF dnsbl_run_inv [OF assms(1)] assms(2)] .
  have k: "\<not> kept_out h now z \<longleftrightarrow> (case refused_until z h of Some u \<Rightarrow> u \<le> now | None \<Rightarrow> True)" for z
    by (auto simp: kept_out_def split: option.split)
  have v: "v \<noteq> Fresh True \<Longrightarrow> v = StalePositive \<or> v = Miss \<longleftrightarrow> v \<noteq> Fresh False" for v
    by (cases v) auto
  have f: "(\<exists>l. find P xs = Some l) \<longleftrightarrow> (\<exists>l\<in>set xs. P l)" for P and xs :: "provider_lookup list"
    by (metis find_None_iff not_Some_eq)
  show ?thesis
    unfolding k [symmetric]
    using v by (auto simp: is_name_listed_lookups check_spec(3) [OF inv] assms(3) f)
qed

theorem dnsbl_lookups_started_witness:
  "\<exists>h s. dnsbl_run h 2 s \<and> map_of (inflight (snd (is_name_listed 1000 ''AD.x'' s))) ''ad.x/bl'' = None \<and>
     map_of (inflight (snd (is_name_listed (3601 * 1000000000) ''AD.x'' s))) ''ad.x/bl'' \<noteq> None"
proof -
  let ?h = "[Landed 2 sample_query_lookup (sample_reply 0x7F000001), Cleared]"
  let ?s = "sample_landed 0x7F000001"
  have i: "map_of (inflight ?s) ''ad.x/bl'' = None"
    by code_simp
  have q: "query_lookups ''AD.x'' ?s = [sample_query_lookup]" "pl_zone sample_query_lookup = ''bl''"
      "pl_key sample_query_lookup = ''ad.x/bl''"
    by code_simp+
  have r: "refused_until ''bl'' ?h = Some 3600000000002" "verdict_on_record ''ad.x/bl'' ?h = None"
    by code_simp+
  note d = dnsbl_lookups_started [OF sample_dnsbl_run [of "0x7F000001"] _ i, where name = "''AD.x''"]
  have "map_of (inflight (snd (is_name_listed 1000 ''AD.x'' ?s))) ''ad.x/bl'' = None"
    using d [where now = 1000] by (simp add: q r)
  moreover have "map_of (inflight (snd (is_name_listed (3601 * 1000000000) ''AD.x'' ?s))) ''ad.x/bl'' \<noteq> None"
    using d [where now = "3601 * 1000000000"] by (simp add: q r verdict_now_def)
  ultimately show ?thesis
    using sample_dnsbl_run by blast
qed

text \<open>
  C36: refusal codes survive the trip through the management interface. The patterns a configuration
  resolves to, rendered as texts and resolved again, are the same patterns, also when detection is
  turned off or the built-in list is used; and each of them matches exactly the addresses that share
  its leading bits.
\<close>

theorem refusal_codes_roundtrip:
  assumes "resolve_refusal_codes specs = Inr cs"
  shows "resolve_refusal_codes (refusal_code_strings (p\<lparr>dp_refusal_codes := cs\<rparr>)) = Inr cs \<and>
    (\<forall>c\<in>set cs. rc_prefix c \<le> 32 \<and>
       (\<forall>ip. refusal_matches c ip \<longleftrightarrow> same_prefix (rc_prefix c) (V4 (rc_base c)) (V4 ip)))"
proof -
  have wf: "\<forall>c\<in>set cs. wf_refusal c"
    using resolved_codes_wf [OF assms] by blast
  then have "resolve_refusal_codes (refusal_code_strings (p\<lparr>dp_refusal_codes := cs\<rparr>)) = Inr cs"
    using resolve_refusal_strings [of "p\<lparr>dp_refusal_codes := cs\<rparr>"] by simp
  moreover have "\<forall>c\<in>set cs. rc_prefix c \<le> 32 \<and> (\<forall>ip. refusal_matches c ip \<longleftrightarrow> same_prefix (rc_prefix c) (V4 (rc_base c)) (V4 ip))"
    using wf refusal_matches_prefix unfolding wf_refusal_def by blast
  ultimately show ?thesis ..
qed

theorem refusal_codes_roundtrip_witness:
  "\<exists>cs. resolve_refusal_codes [] = Inr cs \<and> length cs = 5 \<and>
     resolve_refusal_codes (refusal_code_strings (sample_provider\<lparr>dp_refusal_codes := cs\<rparr>)) = Inr cs"
proof -
  have "case resolve_refusal_codes [] of Inr cs \<Rightarrow> length cs = 5 | Inl _ \<Rightarrow> False"
    by code_simp
  then obtain cs where "resolve_refusal_codes [] = Inr cs" "length cs = 5"
    by (auto split: sum.splits)
  then show ?thesis
    using refusal_codes_roundtrip [of "[]" cs sample_provider] by blast
qed

end
