(* ===== verification/Blocklist.thy ===== *)
theory Blocklist
  imports Dnsbl Names Ip_Text
begin

text \<open>
  The operator's own lists and the gates of the resolution path: the local blocklist and the allowlist
  with their tables and caches (\<open>src/src/db.rs\<close>), their reloading at start and the migration from the
  retired table, and the checks of \<open>src/src/dns_server.rs\<close> that decide whether a query is answered
  NXDOMAIN, with the provider checker of theory \<open>Dnsbl\<close> behind them. Metric counters are left out; the
  kinds they are labelled with are the results of the checks.
\<close>

section \<open>Tables and caches\<close>

text \<open>\<open>legacy_rows\<close> is the retired table, \<open>None\<close> where it does not exist.\<close>

record blocklist_db =
  local_rows :: "(string \<times> string) list"
  allow_rows :: "(string \<times> string) list"
  legacy_rows :: "(string \<times> string) list option"
  local_blocklist_cache :: "string set"
  dnsbl_allowlist_cache :: "string set"

definition empty_blocklist_db :: blocklist_db where
  "empty_blocklist_db =
     \<lparr>local_rows = [], allow_rows = [], legacy_rows = None, local_blocklist_cache = {}, dnsbl_allowlist_cache = {}\<rparr>"

text \<open>\<open>INSERT OR REPLACE\<close> and \<open>INSERT OR IGNORE\<close> on a table with a primary key.\<close>

definition insert_or_replace :: "string \<Rightarrow> string \<Rightarrow> (string \<times> string) list \<Rightarrow> (string \<times> string) list" where
  "insert_or_replace name reason rows = filter (\<lambda>(n, _). n \<noteq> name) rows @ [(name, reason)]"

definition insert_or_ignore :: "string \<times> string \<Rightarrow> (string \<times> string) list \<Rightarrow> (string \<times> string) list" where
  "insert_or_ignore row rows = (if fst row \<in> fst ` set rows then rows else rows @ [row])"

definition add_local_blocklist_entry :: "string \<Rightarrow> string \<Rightarrow> blocklist_db \<Rightarrow> blocklist_db" where
  "add_local_blocklist_entry name reason db =
     db\<lparr>local_rows := insert_or_replace name reason (local_rows db),
        local_blocklist_cache := insert name (local_blocklist_cache db)\<rparr>"


definition list_local_blocklist_entries :: "blocklist_db \<Rightarrow> (string \<times> string) list" where
  "list_local_blocklist_entries db = local_rows db"

definition lookup_local_blocklist :: "blocklist_db \<Rightarrow> string \<Rightarrow> bool" where
  "lookup_local_blocklist db name \<longleftrightarrow> name \<in> local_blocklist_cache db"



definition list_dnsbl_allowlist_entries :: "blocklist_db \<Rightarrow> (string \<times> string) list" where
  "list_dnsbl_allowlist_entries db = allow_rows db"



text \<open>Opening the database: the statement that moves the retired table, then the caches.\<close>

definition migrate_retired_rbl_tables :: "blocklist_db \<Rightarrow> blocklist_db" where
  "migrate_retired_rbl_tables db =
     (case legacy_rows db of
        None \<Rightarrow> db
      | Some _ \<Rightarrow> db\<lparr>local_rows := fold insert_or_ignore (local_rows db) (local_rows db), legacy_rows := None\<rparr>)"


section \<open>The gates\<close>



definition local_lists_name :: "blocklist_db \<Rightarrow> string \<Rightarrow> bool" where
  "local_lists_name db qname =
     (if lookup_local_blocklist db qname then True
      else (let normalized = normalize_blocklist_name qname
            in normalized \<noteq> [] \<and> normalized \<noteq> qname \<and> lookup_local_blocklist db normalized))"





section \<open>Sequences of administrative calls\<close>



section \<open>The caches hold the tables\<close>


lemma names_insert_or_replace [simp]: "fst ` set (insert_or_replace n r rows) = insert n (fst ` set rows)"
  by (auto simp: insert_or_replace_def)



lemma insert_or_ignore_self: "fst ` set rows \<subseteq> fst ` set acc \<Longrightarrow> fold insert_or_ignore rows acc = acc"
  by (induction rows) (auto simp: insert_or_ignore_def)

lemma migrate_local_rows [simp]:
  "local_rows (migrate_retired_rbl_tables db) = local_rows db" "allow_rows (migrate_retired_rbl_tables db) = allow_rows db"
  by (simp_all add: migrate_retired_rbl_tables_def insert_or_ignore_self split: option.split)





section \<open>The gates over the tables\<close>







section \<open>Where the lists differ from their description\<close>

text \<open>The statement of the migration reads the new table, so what the retired one held is lost.\<close>

lemma migration_loses_legacy_entries:
  "local_rows (migrate_retired_rbl_tables (empty_blocklist_db\<lparr>legacy_rows := Some rows\<rparr>)) = []"
  "legacy_rows (migrate_retired_rbl_tables (empty_blocklist_db\<lparr>legacy_rows := Some rows\<rparr>)) = None"
  by (simp_all add: empty_blocklist_db_def) (simp add: migrate_retired_rbl_tables_def)

text \<open>Entries are stored as given: one written with its dot misses a query in other case, one in capitals every query.\<close>

lemma local_entry_case_sensitive:
  "local_lists_name (add_local_blocklist_entry ''ads.x.'' [] empty_blocklist_db) ''ads.x.''"
  "\<not> local_lists_name (add_local_blocklist_entry ''ads.x.'' [] empty_blocklist_db) ''Ads.x.''"
  "\<not> local_lists_name (add_local_blocklist_entry ''Ads.x'' [] empty_blocklist_db) ''ads.x.''"
  "\<not> local_lists_name (add_local_blocklist_entry ''Ads.x'' [] empty_blocklist_db) ''Ads.x.''"
  by code_simp+

section \<open>Properties\<close>




end
