(* ===== verification/Ca.thy ===== *)
theory Ca
  imports Records
begin

text \<open>
  The certificate authority (\<open>src/src/ca.rs\<close>) with its tables (\<open>src/src/db.rs\<close>) and the TLSA values of
  \<open>src/src/dane.rs\<close>: the root, one intermediate per zone, their publication as DNS records, the check of
  a signing request against the validated names, and the choice of the zone that is responsible for a
  name.

  The X.509 library, the hash functions and the codecs are the parameter \<open>pki\<close>: making and signing
  certificates, reloading an issuer from its texts, reading a signing request. A signing request enters
  through what the check reads of it, its subject alternative names and its common name. Byte strings
  are HOL strings. An operation reads the clock once, as a number of seconds.
\<close>

section \<open>Parameters\<close>

datatype san = DnsName string | OtherSan string

datatype dn_value = Utf8String string | PrintableString string | Ia5String string | TeletexString string | OtherDn string

record csr =
  subject_alt_names :: "san list"
  common_name :: "dn_value option"

text \<open>What is set in a CA certificate; the path length is \<open>None\<close> where it is unconstrained.\<close>

record ca_params =
  ca_common_name :: string
  ca_path_len :: "nat option"
  ca_not_before :: int
  ca_not_after :: int

record 'i pki =
  pk_self_signed :: "ca_params \<Rightarrow> (string \<times> string) option"
  pk_issuer :: "string \<Rightarrow> string \<Rightarrow> 'i option"
  pk_signed_by :: "ca_params \<Rightarrow> 'i \<Rightarrow> (string \<times> string) option"
  pk_csr :: "string \<Rightarrow> csr option"
  pk_sign_leaf :: "csr \<Rightarrow> int \<Rightarrow> int \<Rightarrow> 'i \<Rightarrow> string option"
  pk_spki :: "string \<Rightarrow> string option"
  pk_add_days :: "int \<Rightarrow> int \<Rightarrow> int option"
  pk_sha256 :: "string \<Rightarrow> string"
  pk_sha512 :: "string \<Rightarrow> string"
  pk_hex :: "string \<Rightarrow> string"
  pk_b64_decode :: "string \<Rightarrow> string option"

section \<open>Tables\<close>

record ca_db = records_db +
  root_cas :: "(int \<times> string \<times> string \<times> string) list"
  next_root_id :: int
  zone_cas :: "(string \<times> string \<times> string) list"

definition empty_ca_db :: ca_db where
  "empty_ca_db = records_db.extend empty_records_db \<lparr>root_cas = [], next_root_id = 1, zone_cas = []\<rparr>"

definition store_dane_root_ca :: "string \<Rightarrow> string \<Rightarrow> string \<Rightarrow> 'a ca_db_scheme \<Rightarrow> int \<times> 'a ca_db_scheme" where
  "store_dane_root_ca name cert_pem key_pem db =
     (next_root_id db,
      db\<lparr>root_cas := root_cas db @ [(next_root_id db, name, cert_pem, key_pem)], next_root_id := next_root_id db + 1\<rparr>)"

definition get_dane_root_ca :: "'a ca_db_scheme \<Rightarrow> string \<Rightarrow> (int \<times> string \<times> string \<times> string) option" where
  "get_dane_root_ca db name = find (\<lambda>(_, n, _). n = name) (root_cas db)"

definition store_zone_ca :: "string \<Rightarrow> string \<Rightarrow> string \<Rightarrow> 'a ca_db_scheme \<Rightarrow> 'a ca_db_scheme" where
  "store_zone_ca zone cert_pem key_pem db =
     (let z = normalize_name zone
      in db\<lparr>zone_cas := filter (\<lambda>(n, _). n \<noteq> z) (zone_cas db) @ [(z, cert_pem, key_pem)]\<rparr>)"

definition get_zone_ca :: "'a ca_db_scheme \<Rightarrow> string \<Rightarrow> (string \<times> string) option" where
  "get_zone_ca db zone = map_of (zone_cas db) (normalize_name zone)"

definition list_zone_cas :: "'a ca_db_scheme \<Rightarrow> string list" where
  "list_zone_cas db = sort (map fst (zone_cas db))"

section \<open>TLSA values\<close>

datatype ca_error = NoRoot | NoIntermediate string | BadIssuer | BadCsr | CsrNames string | BadValidity | CaSignFailed | BadPem
  | BadSelector nat | BadMatchingType nat

text \<open>\<open>str::lines\<close>: the lines without their line ends, and no empty line after the last one.\<close>

definition strip_cr :: "string \<Rightarrow> string" where
  "strip_cr l = (if l \<noteq> [] \<and> last l = CHR 0x0D then butlast l else l)"

definition str_lines :: "string \<Rightarrow> string list" where
  "str_lines s = (let ls = split_on (CHR 0x0A) s in map strip_cr (if last ls = [] then butlast ls else ls))"

definition pem_to_der :: "'i pki \<Rightarrow> string \<Rightarrow> ca_error + string" where
  "pem_to_der pki pem =
     (case pk_b64_decode pki (concat (filter (\<lambda>l. \<not> starts_with l ''-----'') (str_lines (trim pem)))) of
        Some der \<Rightarrow> Inr der
      | None \<Rightarrow> Inl BadPem)"

definition generate_tlsa_record :: "'i pki \<Rightarrow> string \<Rightarrow> nat \<Rightarrow> nat \<Rightarrow> nat \<Rightarrow> ca_error + string" where
  "generate_tlsa_record pki cert_pem usage selector matching_type =
     (case pem_to_der pki cert_pem of
        Inl e \<Rightarrow> Inl e
      | Inr cert_der \<Rightarrow>
          (case (if selector = 0 then Inr cert_der
                 else if selector = 1 then (case pk_spki pki cert_der of Some spki \<Rightarrow> Inr spki | None \<Rightarrow> Inl BadPem)
                 else Inl (BadSelector selector)) of
             Inl e \<Rightarrow> Inl e
           | Inr data \<Rightarrow>
               (case (if matching_type = 0 then Inr (pk_hex pki data)
                      else if matching_type = 1 then Inr (pk_hex pki (pk_sha256 pki data))
                      else if matching_type = 2 then Inr (pk_hex pki (pk_sha512 pki data))
                      else Inl (BadMatchingType matching_type)) of
                  Inl e \<Rightarrow> Inl e
                | Inr hash \<Rightarrow>
                    Inr (join_with '' '' [show_nat usage, show_nat selector, show_nat matching_type, hash]))))"

definition tlsa_dns_name :: "string \<Rightarrow> nat \<Rightarrow> string \<Rightarrow> string" where
  "tlsa_dns_name domain port protocol =
     ''_'' @ show_nat port @ ''._'' @ protocol @ [dot] @ trim_end_dots domain @ [dot]"

section \<open>Root and intermediates\<close>

definition ROOT_CA_NAME :: string where "ROOT_CA_NAME = ''__rolodex_root__''"

definition ROOT_VALIDITY_DAYS :: int where "ROOT_VALIDITY_DAYS = 3650"

definition INTERMEDIATE_VALIDITY_DAYS :: int where "INTERMEDIATE_VALIDITY_DAYS = 1825"

definition CA_CERT_LABEL :: string where "CA_CERT_LABEL = ''_ca''"

definition CA_TXT_LABEL :: string where "CA_TXT_LABEL = ''_rolodex-ca''"

definition CA_TXT_PREFIX :: string where "CA_TXT_PREFIX = ''rolodex-ca:v1''"

definition CA_RECORD_TTL :: u32 where "CA_RECORD_TTL = 3600"

definition CA_TXT_CHUNK :: nat where "CA_TXT_CHUNK = 180"

definition set_validity :: "'i pki \<Rightarrow> int \<Rightarrow> int \<Rightarrow> ca_error + int \<times> int" where
  "set_validity pki now days =
     (case pk_add_days pki now days of Some until \<Rightarrow> Inr (now - 60, until) | None \<Rightarrow> Inl BadValidity)"

definition ensure_root_ca :: "'i pki \<Rightarrow> int \<Rightarrow> string \<Rightarrow> 'a ca_db_scheme \<Rightarrow> (ca_error + unit) \<times> 'a ca_db_scheme" where
  "ensure_root_ca pki now cn db =
     (case get_dane_root_ca db ROOT_CA_NAME of
        Some _ \<Rightarrow> (Inr (), db)
      | None \<Rightarrow>
          (case set_validity pki now ROOT_VALIDITY_DAYS of
             Inl e \<Rightarrow> (Inl e, db)
           | Inr (since, until) \<Rightarrow>
               (case pk_self_signed pki \<lparr>ca_common_name = cn, ca_path_len = None, ca_not_before = since, ca_not_after = until\<rparr> of
                  None \<Rightarrow> (Inl CaSignFailed, db)
                | Some (cert, key) \<Rightarrow> (Inr (), snd (store_dane_root_ca ROOT_CA_NAME cert key db)))))"

definition materialize_issuer :: "'i pki \<Rightarrow> string \<Rightarrow> string \<Rightarrow> ca_error + 'i" where
  "materialize_issuer pki cert_pem key_pem =
     (case pk_issuer pki cert_pem key_pem of Some i \<Rightarrow> Inr i | None \<Rightarrow> Inl BadIssuer)"

definition load_root :: "'i pki \<Rightarrow> 'a ca_db_scheme \<Rightarrow> ca_error + 'i" where
  "load_root pki db =
     (case get_dane_root_ca db ROOT_CA_NAME of
        None \<Rightarrow> Inl NoRoot
      | Some (_, _, cert, key) \<Rightarrow> materialize_issuer pki cert key)"

definition root_ca_pem :: "'a ca_db_scheme \<Rightarrow> ca_error + string" where
  "root_ca_pem db =
     (case get_dane_root_ca db ROOT_CA_NAME of None \<Rightarrow> Inl NoRoot | Some (_, _, cert, _) \<Rightarrow> Inr cert)"

definition ca_cert_record_name :: "string \<Rightarrow> string" where
  "ca_cert_record_name zone = CA_CERT_LABEL @ [dot] @ trim_end_dots zone @ [dot]"

definition ca_txt_record_name :: "string \<Rightarrow> string" where
  "ca_txt_record_name zone = CA_TXT_LABEL @ [dot] @ trim_end_dots zone @ [dot]"

fun pem_lines :: "bool \<Rightarrow> string list \<Rightarrow> string" where
  "pem_lines inside [] = []"
| "pem_lines inside (l # ls) =
     (if starts_with l ''-----BEGIN CERTIFICATE-----'' then pem_lines True ls
      else if starts_with l ''-----END CERTIFICATE-----'' then []
      else if inside then trim l @ pem_lines inside ls
      else pem_lines inside ls)"

definition pem_body :: "string \<Rightarrow> ca_error + string" where
  "pem_body pem = (let body = pem_lines False (str_lines pem) in if body = [] then Inl BadPem else Inr body)"

function chunks :: "nat \<Rightarrow> string \<Rightarrow> string list" where
  "chunks n s = (if s = [] \<or> n = 0 then [] else take n s # chunks n (drop n s))"
  by pat_completeness auto
termination
  by (relation "measure (\<lambda>(n, s). length s)") auto

declare chunks.simps [simp del]

definition ca_record :: "string \<Rightarrow> RecordKind \<Rightarrow> string \<Rightarrow> dns_record" where
  "ca_record name kind val =
     \<lparr>dr_id = None, dr_name = name, dr_type = kind, dr_value = val, dr_ttl = CA_RECORD_TTL, dr_priority = 0\<rparr>"

definition txt_chunks :: "string \<Rightarrow> string \<Rightarrow> string list" where
  "txt_chunks kind b64 =
     (let cs = chunks CA_TXT_CHUNK b64
      in map (\<lambda>(i, c). CA_TXT_PREFIX @ '':'' @ kind @ '':'' @ show_nat (i + 1) @ ''/'' @ show_nat (length cs) @ '':'' @ c)
           (zip [0..<length cs] cs))"

fun publish_certs ::
  "string \<Rightarrow> string \<Rightarrow> (string \<times> string) list \<Rightarrow> 'a ca_db_scheme \<Rightarrow> (ca_error + unit) \<times> 'a ca_db_scheme" where
  "publish_certs cert_name txt_name [] db = (Inr (), db)"
| "publish_certs cert_name txt_name ((kind, pem) # rest) db =
     (case pem_body pem of
        Inl e \<Rightarrow> (Inl e, db)
      | Inr b64 \<Rightarrow>
          (let db1 = snd (add_record (ca_record cert_name CERT (''1 0 0 '' @ b64)) db);
               db2 = fold (\<lambda>v db. snd (add_record (ca_record txt_name TXT v) db)) (txt_chunks kind b64) db1
           in publish_certs cert_name txt_name rest db2))"

definition publish_ca_dns_records :: "string \<Rightarrow> 'a ca_db_scheme \<Rightarrow> (ca_error + unit) \<times> 'a ca_db_scheme" where
  "publish_ca_dns_records zone db =
     (let z = normalize_name zone
      in case root_ca_pem db of
           Inl e \<Rightarrow> (Inl e, db)
         | Inr root_pem \<Rightarrow>
             (case get_zone_ca db z of
                None \<Rightarrow> (Inl (NoIntermediate z), db)
              | Some (int_pem, _) \<Rightarrow>
                  (let cert_name = ca_cert_record_name z;
                       txt_name = ca_txt_record_name z;
                       db1 = snd (remove_records cert_name (Some CERT) [] db);
                       db2 = snd (remove_records txt_name (Some TXT) [] db1)
                   in publish_certs cert_name txt_name [(''root'', root_pem), (''intermediate'', int_pem)] db2)))"

definition ensure_zone_intermediate ::
  "'i pki \<Rightarrow> int \<Rightarrow> string \<Rightarrow> 'a ca_db_scheme \<Rightarrow> (ca_error + unit) \<times> 'a ca_db_scheme" where
  "ensure_zone_intermediate pki now zone db =
     (let z = normalize_name zone
      in case get_zone_ca db z of
           Some _ \<Rightarrow> publish_ca_dns_records z db
         | None \<Rightarrow>
             (case load_root pki db of
                Inl e \<Rightarrow> (Inl e, db)
              | Inr root \<Rightarrow>
                  (case set_validity pki now INTERMEDIATE_VALIDITY_DAYS of
                     Inl e \<Rightarrow> (Inl e, db)
                   | Inr (since, until) \<Rightarrow>
                       (case pk_signed_by pki
                               \<lparr>ca_common_name = ''Rolodex Zone CA '' @ trim_end_dots z, ca_path_len = Some 0,
                                ca_not_before = since, ca_not_after = until\<rparr> root of
                          None \<Rightarrow> (Inl CaSignFailed, db)
                        | Some (cert, key) \<Rightarrow> publish_ca_dns_records z (store_zone_ca z cert key db)))))"

section \<open>Issuing\<close>

definition ldh_char :: "char \<Rightarrow> bool" where
  "ldh_char c \<longleftrightarrow> is_alnum c \<or> c = CHR ''-'' \<or> c = CHR ''_''"

definition looks_like_dns_name :: "string \<Rightarrow> bool" where
  "looks_like_dns_name candidate =
     (let trimmed = trim_end_dots candidate
      in trimmed \<noteq> [] \<and> dot \<in> set trimmed \<and>
         list_all (\<lambda>l. l \<noteq> [] \<and> list_all ldh_char l) (split_on dot trimmed))"

definition dn_value_str :: "dn_value \<Rightarrow> string option" where
  "dn_value_str v =
     (case v of
        Utf8String s \<Rightarrow> Some s
      | PrintableString s \<Rightarrow> Some s
      | Ia5String s \<Rightarrow> Some s
      | TeletexString s \<Rightarrow> Some s
      | OtherDn _ \<Rightarrow> None)"

definition csr_requested_names :: "csr \<Rightarrow> string list" where
  "csr_requested_names params =
     List.map_filter (\<lambda>s. case s of DnsName n \<Rightarrow> Some n | OtherSan _ \<Rightarrow> None) (subject_alt_names params) @
     (case Option.bind (common_name params) dn_value_str of
        Some cn \<Rightarrow> if looks_like_dns_name cn then [cn] else []
      | None \<Rightarrow> [])"

definition check_csr_names :: "csr \<Rightarrow> string list \<Rightarrow> ca_error + unit" where
  "check_csr_names params allowed =
     (let permitted = map normalize_name allowed
      in case find (\<lambda>r. normalize_name r \<notin> set permitted) (csr_requested_names params) of
           Some requested \<Rightarrow> Inl (CsrNames requested)
         | None \<Rightarrow> Inr ())"

record issued_leaf =
  leaf_pem :: string
  leaf_chain :: string
  leaf_expires :: int

definition issue_leaf :: "'i pki \<Rightarrow> int \<Rightarrow> 'a ca_db_scheme \<Rightarrow> string \<Rightarrow> string \<Rightarrow> int \<Rightarrow> string list \<Rightarrow> ca_error + issued_leaf" where
  "issue_leaf pki now db zone csr_pem validity_days allowed_names =
     (let z = normalize_name zone
      in case get_zone_ca db z of
           None \<Rightarrow> Inl (NoIntermediate z)
         | Some (int_cert, int_key) \<Rightarrow>
             (case materialize_issuer pki int_cert int_key of
                Inl e \<Rightarrow> Inl e
              | Inr issuer \<Rightarrow>
                  (case pk_csr pki csr_pem of
                     None \<Rightarrow> Inl BadCsr
                   | Some csr \<Rightarrow>
                       (case check_csr_names csr allowed_names of
                          Inl e \<Rightarrow> Inl e
                        | Inr _ \<Rightarrow>
                            (case set_validity pki now validity_days of
                               Inl e \<Rightarrow> Inl e
                             | Inr (since, until) \<Rightarrow>
                                 (case pk_sign_leaf pki csr since until issuer of
                                    None \<Rightarrow> Inl CaSignFailed
                                  | Some pem \<Rightarrow>
                                      Inr \<lparr>leaf_pem = pem, leaf_chain = pem @ int_cert, leaf_expires = until\<rparr>))))))"

definition intermediate_tlsa :: "'i pki \<Rightarrow> 'a ca_db_scheme \<Rightarrow> string \<Rightarrow> ca_error + string" where
  "intermediate_tlsa pki db zone =
     (case get_zone_ca db (normalize_name zone) of
        None \<Rightarrow> Inl (NoIntermediate zone)
      | Some (int_cert, _) \<Rightarrow> generate_tlsa_record pki int_cert 2 1 1)"

definition dot_count :: "string \<Rightarrow> nat" where
  "dot_count s = length (filter (\<lambda>c. c = dot) s)"

definition better_zone :: "string \<Rightarrow> string \<Rightarrow> string option \<Rightarrow> string option" where
  "better_zone name zone best =
     (let z = normalize_name zone
      in if name = z \<or> ends_with name ([dot] @ z)
         then (case best of
                 Some b \<Rightarrow> if dot_count z > dot_count b then Some z else best
               | None \<Rightarrow> Some z)
         else best)"

definition responsible_zone :: "'a ca_db_scheme \<Rightarrow> string \<Rightarrow> string option" where
  "responsible_zone db name =
     (let n = normalize_name name in fold (better_zone n) (list_zone_cas db) None)"

section \<open>Challenge records\<close>

definition set_acme_challenge :: "string \<Rightarrow> string \<Rightarrow> 'a records_db_scheme \<Rightarrow> 'a records_db_scheme" where
  "set_acme_challenge domain token db =
     snd (add_record \<lparr>dr_id = None, dr_name = ''_acme-challenge.'' @ trim_end_dots domain, dr_type = TXT, dr_value = token,
                      dr_ttl = 60, dr_priority = 0\<rparr> db)"

definition clear_acme_challenge :: "string \<Rightarrow> 'a records_db_scheme \<Rightarrow> 'a records_db_scheme" where
  "clear_acme_challenge domain db =
     snd (remove_records (''_acme-challenge.'' @ trim_end_dots domain) (Some TXT) [] db)"

section \<open>What the check of a request lets through\<close>

text \<open>
  Only DNS names are compared with the validated names: a request for an address or another kind of
  alternative name passes, as does a wildcard common name, which does not read as a host name.
\<close>

theorem csr_check_ignores_other_names:
  "check_csr_names \<lparr>subject_alt_names = [OtherSan ''192.0.2.1''], common_name = Some (Utf8String ''*.example.com'')\<rparr> [''a.example.org''] = Inr ()"
  by code_simp

end
