(* ===== verification/Acme_Store.thy ===== *)
theory Acme_Store
  imports Ca
begin

text \<open>
  The tables of the ACME server (\<open>src/src/db.rs\<close>): accounts, external account bindings, orders,
  authorizations, challenges, certificates and anti-replay nonces. A table is the list of its rows in
  the order of their row numbers. An \<open>INSERT\<close> that violates a primary key is the error the statement
  returns, here \<open>None\<close>; other failures of the database are left out.
\<close>

section \<open>Tables\<close>

record acme_cert_row =
  cert_id :: int
  cert_domain :: string
  cert_pem :: string
  cert_key :: string
  cert_chain :: string
  cert_issued :: int
  cert_expires :: int

record acme_account =
  account_id :: string
  acc_jwk :: string
  acc_thumbprint :: string
  acc_contacts :: "string option"
  acc_status :: string
  acc_eab_kid :: "string option"
  acc_zone :: "string option"

record acme_eab =
  eab_id :: string
  eab_hmac :: string
  eab_zone :: "string option"
  eab_used :: bool

record acme_order =
  order_id :: string
  ord_account :: string
  ord_status :: string
  ord_identifiers :: string
  ord_authorizations :: string
  ord_cert :: "int option"
  ord_expires :: int

record acme_authorization =
  authz_id :: string
  az_order :: string
  az_account :: string
  az_identifier :: string
  az_status :: string
  az_expires :: int

record acme_challenge =
  chal_id :: string
  ch_authz :: string
  ch_type :: string
  ch_token :: string
  ch_status :: string
  ch_validated :: "int option"

text \<open>Accounts carry their time of creation, by which they are listed.\<close>

record acme_db = ca_db +
  certs :: "acme_cert_row list"
  next_cert_id :: int
  accounts :: "(acme_account \<times> int) list"
  eabs :: "acme_eab list"
  orders :: "acme_order list"
  authzs :: "acme_authorization list"
  challenges :: "acme_challenge list"
  nonces :: "(string \<times> int) list"

definition empty_acme_db :: acme_db where
  "empty_acme_db = ca_db.extend empty_ca_db
     \<lparr>certs = [], next_cert_id = 1, accounts = [], eabs = [], orders = [], authzs = [], challenges = [], nonces = []\<rparr>"

section \<open>Certificates\<close>

definition store_acme_certificate ::
  "int \<Rightarrow> string \<Rightarrow> string \<Rightarrow> string \<Rightarrow> string \<Rightarrow> int \<Rightarrow> 'a acme_db_scheme \<Rightarrow> int \<times> 'a acme_db_scheme" where
  "store_acme_certificate now domain pem key chain expires db =
     (next_cert_id db,
      db\<lparr>certs := certs db @ [\<lparr>cert_id = next_cert_id db, cert_domain = domain, cert_pem = pem, cert_key = key,
                              cert_chain = chain, cert_issued = now, cert_expires = expires\<rparr>],
         next_cert_id := next_cert_id db + 1\<rparr>)"

text \<open>\<open>ORDER BY issued_at DESC\<close>; the rows of one second are taken in row order.\<close>

definition newest_first :: "acme_cert_row list \<Rightarrow> acme_cert_row list" where
  "newest_first rows = sort_key (\<lambda>r. - cert_issued r) rows"

definition get_acme_certificate :: "'a acme_db_scheme \<Rightarrow> string \<Rightarrow> acme_cert_row option" where
  "get_acme_certificate db domain =
     (case newest_first (filter (\<lambda>r. cert_domain r = domain) (certs db)) of r # _ \<Rightarrow> Some r | [] \<Rightarrow> None)"

definition get_acme_certificate_by_id :: "'a acme_db_scheme \<Rightarrow> int \<Rightarrow> acme_cert_row option" where
  "get_acme_certificate_by_id db i = find (\<lambda>r. cert_id r = i) (certs db)"

definition list_acme_certificates :: "'a acme_db_scheme \<Rightarrow> string option \<Rightarrow> acme_cert_row list" where
  "list_acme_certificates db zone =
     filter (\<lambda>r. case map_option normalize_name zone of Some s \<Rightarrow> name_in_zone (cert_domain r) s | None \<Rightarrow> True)
       (newest_first (certs db))"

section \<open>Accounts and bindings\<close>

definition create_acme_account :: "int \<Rightarrow> acme_account \<Rightarrow> 'a acme_db_scheme \<Rightarrow> 'a acme_db_scheme option" where
  "create_acme_account now account db =
     (if account_id account \<in> account_id ` fst ` set (accounts db) then None
      else Some (db\<lparr>accounts := accounts db @ [(account, now)]\<rparr>))"

definition get_acme_account :: "'a acme_db_scheme \<Rightarrow> string \<Rightarrow> acme_account option" where
  "get_acme_account db i = find (\<lambda>a. account_id a = i) (map fst (accounts db))"

definition get_acme_account_by_thumbprint :: "'a acme_db_scheme \<Rightarrow> string \<Rightarrow> acme_account option" where
  "get_acme_account_by_thumbprint db t = find (\<lambda>a. acc_thumbprint a = t) (map fst (accounts db))"

definition list_acme_accounts :: "'a acme_db_scheme \<Rightarrow> acme_account list" where
  "list_acme_accounts db = map fst (sort_key (\<lambda>(_, t). - t) (accounts db))"

definition create_eab :: "string \<Rightarrow> string \<Rightarrow> string option \<Rightarrow> 'a acme_db_scheme \<Rightarrow> 'a acme_db_scheme option" where
  "create_eab kid hmac_key zone db =
     (if kid \<in> eab_id ` set (eabs db) then None
      else Some (db\<lparr>eabs := eabs db @ [\<lparr>eab_id = kid, eab_hmac = hmac_key, eab_zone = zone, eab_used = False\<rparr>]\<rparr>))"

definition get_eab :: "'a acme_db_scheme \<Rightarrow> string \<Rightarrow> acme_eab option" where
  "get_eab db kid = find (\<lambda>e. eab_id e = kid) (eabs db)"

definition mark_eab_used :: "string \<Rightarrow> 'a acme_db_scheme \<Rightarrow> 'a acme_db_scheme" where
  "mark_eab_used kid db = db\<lparr>eabs := map (\<lambda>e. if eab_id e = kid then e\<lparr>eab_used := True\<rparr> else e) (eabs db)\<rparr>"

definition remove_eab :: "string \<Rightarrow> 'a acme_db_scheme \<Rightarrow> bool \<times> 'a acme_db_scheme" where
  "remove_eab kid db =
     (let rows = filter (\<lambda>e. eab_id e \<noteq> kid) (eabs db)
      in (length rows < length (eabs db), db\<lparr>eabs := rows\<rparr>))"

section \<open>Nonces\<close>

definition NONCE_TTL_SECS :: int where "NONCE_TTL_SECS = 3600"

definition MAX_OUTSTANDING_NONCES :: nat where "MAX_OUTSTANDING_NONCES = 1024"

text \<open>The rows after the first \<open>n\<close> in the order \<open>created_at DESC, rowid DESC\<close>.\<close>

definition beyond_newest :: "nat \<Rightarrow> (string \<times> int) list \<Rightarrow> (string \<times> int) list" where
  "beyond_newest n rows = drop n (sort_key (\<lambda>(_, t). - t) (rev rows))"

definition store_nonce :: "int \<Rightarrow> string \<Rightarrow> 'a acme_db_scheme \<Rightarrow> 'a acme_db_scheme" where
  "store_nonce now nonce db =
     (let rows1 = (if nonce \<in> fst ` set (nonces db) then nonces db else nonces db @ [(nonce, now)]);
          rows2 = filter (\<lambda>(_, t). \<not> t < now - NONCE_TTL_SECS) rows1;
          old = fst ` set (beyond_newest MAX_OUTSTANDING_NONCES rows2)
      in db\<lparr>nonces := filter (\<lambda>(n, _). n \<notin> old) rows2\<rparr>)"

definition consume_nonce :: "int \<Rightarrow> string \<Rightarrow> 'a acme_db_scheme \<Rightarrow> bool \<times> 'a acme_db_scheme" where
  "consume_nonce now nonce db =
     (let cutoff = now - NONCE_TTL_SECS;
          rows = filter (\<lambda>(n, t). \<not> (n = nonce \<and> cutoff \<le> t)) (nonces db)
      in (length rows < length (nonces db), db\<lparr>nonces := rows\<rparr>))"

definition count_nonces :: "'a acme_db_scheme \<Rightarrow> nat" where
  "count_nonces db = length (nonces db)"

section \<open>Orders, authorizations and challenges\<close>

definition create_order :: "acme_order \<Rightarrow> 'a acme_db_scheme \<Rightarrow> 'a acme_db_scheme option" where
  "create_order ord db =
     (if order_id ord \<in> order_id ` set (orders db) then None else Some (db\<lparr>orders := orders db @ [ord]\<rparr>))"

definition get_order :: "'a acme_db_scheme \<Rightarrow> string \<Rightarrow> acme_order option" where
  "get_order db i = find (\<lambda>r. order_id r = i) (orders db)"

definition get_order_by_cert_id :: "'a acme_db_scheme \<Rightarrow> int \<Rightarrow> acme_order option" where
  "get_order_by_cert_id db i = find (\<lambda>r. ord_cert r = Some i) (orders db)"

definition update_order :: "string \<Rightarrow> string \<Rightarrow> int option \<Rightarrow> 'a acme_db_scheme \<Rightarrow> 'a acme_db_scheme" where
  "update_order i status cert db =
     db\<lparr>orders := map (\<lambda>r. if order_id r = i then r\<lparr>ord_status := status, ord_cert := cert\<rparr> else r) (orders db)\<rparr>"

definition create_authorization :: "acme_authorization \<Rightarrow> 'a acme_db_scheme \<Rightarrow> 'a acme_db_scheme option" where
  "create_authorization az db =
     (if authz_id az \<in> authz_id ` set (authzs db) then None else Some (db\<lparr>authzs := authzs db @ [az]\<rparr>))"

definition get_authorization :: "'a acme_db_scheme \<Rightarrow> string \<Rightarrow> acme_authorization option" where
  "get_authorization db i = find (\<lambda>r. authz_id r = i) (authzs db)"

definition update_authorization_status :: "string \<Rightarrow> string \<Rightarrow> 'a acme_db_scheme \<Rightarrow> 'a acme_db_scheme" where
  "update_authorization_status i status db =
     db\<lparr>authzs := map (\<lambda>r. if authz_id r = i then r\<lparr>az_status := status\<rparr> else r) (authzs db)\<rparr>"

definition create_challenge :: "acme_challenge \<Rightarrow> 'a acme_db_scheme \<Rightarrow> 'a acme_db_scheme option" where
  "create_challenge ch db =
     (if chal_id ch \<in> chal_id ` set (challenges db) then None else Some (db\<lparr>challenges := challenges db @ [ch]\<rparr>))"

definition get_challenge :: "'a acme_db_scheme \<Rightarrow> string \<Rightarrow> acme_challenge option" where
  "get_challenge db i = find (\<lambda>r. chal_id r = i) (challenges db)"

definition list_challenges_for_authz :: "'a acme_db_scheme \<Rightarrow> string \<Rightarrow> acme_challenge list" where
  "list_challenges_for_authz db i = filter (\<lambda>r. ch_authz r = i) (challenges db)"

definition update_challenge_status :: "string \<Rightarrow> string \<Rightarrow> int option \<Rightarrow> 'a acme_db_scheme \<Rightarrow> 'a acme_db_scheme" where
  "update_challenge_status i status validated db =
     db\<lparr>challenges := map (\<lambda>r. if chal_id r = i then r\<lparr>ch_status := status, ch_validated := validated\<rparr> else r) (challenges db)\<rparr>"

section \<open>Expired nonces\<close>

text \<open>A nonce that has expired is refused and stays in the table.\<close>

theorem expired_nonce_stays:
  "consume_nonce 5000 ''n'' (store_nonce 0 ''n'' empty_acme_db) = (False, store_nonce 0 ''n'' empty_acme_db)"
  by (simp add: consume_nonce_def store_nonce_def empty_acme_db_def ca_db.defs acme_db.defs beyond_newest_def NONCE_TTL_SECS_def
      MAX_OUTSTANDING_NONCES_def)

end
