(* ===== verification/Acme_Server.thy ===== *)
theory Acme_Server
  imports Acme_Store
begin

text \<open>
  The ACME server (\<open>src/src/acme_server.rs\<close>) with its request signatures (\<open>src/src/acme_jose.rs\<close>): every
  handler, from the signed body to the answer and the new state of the database, and the nonce each
  answer carries.

  Parameters are the JSON reader and printer, the reading of a flattened JWS, base64url, SHA-256, the
  signature and HMAC checks, the printing of a time, and the certificate library of theory \<open>Ca\<close>. Random
  tokens are the function \<open>tok\<close>: the \<open>i\<close>-th draw of a request, \<open>None\<close> where the generator fails. A handler
  is one step and reads the clock once. The texts of problem documents, log lines, metric counters and
  the flush of the response cache are left out.
\<close>

section \<open>JSON and signed requests\<close>

datatype json = JNull | JBool bool | JNumber string | JString string | JArray "json list" | JObject "(string \<times> json) list"

fun json_get :: "json \<Rightarrow> string \<Rightarrow> json option" where
  "json_get (JObject fs) k = map_of fs k"
| "json_get _ k = None"

fun as_string :: "json \<Rightarrow> string option" where
  "as_string (JString s) = Some s"
| "as_string _ = None"

fun as_bool :: "json \<Rightarrow> bool option" where
  "as_bool (JBool b) = Some b"
| "as_bool _ = None"

fun as_array :: "json \<Rightarrow> json list option" where
  "as_array (JArray vs) = Some vs"
| "as_array _ = None"

definition get_string :: "json \<Rightarrow> string \<Rightarrow> string option" where
  "get_string v k = Option.bind (json_get v k) as_string"

record flat_jws =
  jws_protected :: string
  jws_payload :: string
  jws_signature :: string

record protected_header =
  hd_alg :: string
  hd_nonce :: "string option"
  hd_url :: "string option"
  hd_kid :: "string option"
  hd_jwk :: "json option"

record 'i acme_env =
  pki :: "'i pki"
  js_parse :: "string \<Rightarrow> json option"
  js_print :: "json \<Rightarrow> string"
  jws_parse :: "string \<Rightarrow> flat_jws option"
  b64_decode :: "string \<Rightarrow> string option"
  b64_encode :: "string \<Rightarrow> string"
  b64_std :: "string \<Rightarrow> string"
  sha256 :: "string \<Rightarrow> string"
  sig_verify :: "string \<Rightarrow> string list \<Rightarrow> string \<Rightarrow> string \<Rightarrow> bool"
  hmac_verify :: "string \<Rightarrow> string \<Rightarrow> string \<Rightarrow> bool"
  rfc3339 :: "int \<Rightarrow> string"

text \<open>
  What the JSON library documents of printing and reading back: a list of texts is the same list again, and
  a value that can be read back has the same texts as its members. Nothing is asked of numbers.
\<close>

definition json_laws :: "'i acme_env \<Rightarrow> bool" where
  "json_laws env \<longleftrightarrow>
     (\<forall>ss. js_parse env (js_print env (JArray (map JString ss))) = Some (JArray (map JString ss))) \<and>
     (\<forall>v w k. js_parse env (js_print env v) = Some w \<longrightarrow> get_string w k = get_string v k)"

definition jws_header :: "'i acme_env \<Rightarrow> flat_jws \<Rightarrow> protected_header option" where
  "jws_header env jws =
     (case Option.bind (b64_decode env (jws_protected jws)) (js_parse env) of
        None \<Rightarrow> None
      | Some v \<Rightarrow>
          (case get_string v ''alg'' of
             None \<Rightarrow> None
           | Some alg \<Rightarrow>
               Some \<lparr>hd_alg = alg, hd_nonce = get_string v ''nonce'', hd_url = get_string v ''url'',
                     hd_kid = get_string v ''kid'', hd_jwk = json_get v ''jwk''\<rparr>))"

definition payload_json :: "'i acme_env \<Rightarrow> flat_jws \<Rightarrow> json option" where
  "payload_json env jws =
     (if jws_payload jws = [] then Some JNull
      else case b64_decode env (jws_payload jws) of
             None \<Rightarrow> None
           | Some raw \<Rightarrow> if raw = [] then Some JNull else js_parse env raw)"

definition signing_text :: "flat_jws \<Rightarrow> string" where
  "signing_text jws = jws_protected jws @ [dot] @ jws_payload jws"

definition jwk_field_bytes :: "'i acme_env \<Rightarrow> json \<Rightarrow> string \<Rightarrow> string option" where
  "jwk_field_bytes env jwk fld = Option.bind (get_string jwk fld) (b64_decode env)"

definition verify_with_jwk :: "'i acme_env \<Rightarrow> string \<Rightarrow> json \<Rightarrow> string \<Rightarrow> string \<Rightarrow> bool" where
  "verify_with_jwk env alg jwk message sig =
     (case get_string jwk ''kty'' of
        None \<Rightarrow> False
      | Some kty \<Rightarrow>
          if alg = ''EdDSA'' \<and> kty = ''OKP'' then
            (case jwk_field_bytes env jwk ''x'' of
               Some x \<Rightarrow> sig_verify env ''EdDSA'' [x] message sig
             | None \<Rightarrow> False)
          else if alg = ''ES256'' \<and> kty = ''EC'' then
            (case (jwk_field_bytes env jwk ''x'', jwk_field_bytes env jwk ''y'') of
               (Some x, Some y) \<Rightarrow> sig_verify env ''ES256'' [CHR 0x04 # x @ y] message sig
             | _ \<Rightarrow> False)
          else if alg = ''RS256'' \<and> kty = ''RSA'' then
            (case (jwk_field_bytes env jwk ''n'', jwk_field_bytes env jwk ''e'') of
               (Some n, Some e) \<Rightarrow> sig_verify env ''RS256'' [n, e] message sig
             | _ \<Rightarrow> False)
          else False)"

definition jws_verify :: "'i acme_env \<Rightarrow> flat_jws \<Rightarrow> string \<Rightarrow> json \<Rightarrow> bool" where
  "jws_verify env jws alg jwk =
     (case b64_decode env (jws_signature jws) of
        None \<Rightarrow> False
      | Some sig \<Rightarrow> verify_with_jwk env alg jwk (signing_text jws) sig)"

text \<open>A quoted text of the canonical form of a key.\<close>

definition quoted :: "string \<Rightarrow> string" where
  "quoted s = CHR 0x22 # s @ [CHR 0x22]"

definition canonical_members :: "(string \<times> string) list \<Rightarrow> string" where
  "canonical_members ms = ''{'' @ join_with '','' (map (\<lambda>(k, v). quoted k @ '':'' @ quoted v) ms) @ ''}''"

definition jwk_thumbprint :: "'i acme_env \<Rightarrow> json \<Rightarrow> string option" where
  "jwk_thumbprint env jwk =
     map_option (\<lambda>ms. b64_encode env (sha256 env (canonical_members ms)))
       (case get_string jwk ''kty'' of
          None \<Rightarrow> None
        | Some kty \<Rightarrow>
            if kty = ''OKP'' then
              (case (get_string jwk ''crv'', get_string jwk ''x'') of
                 (Some crv, Some x) \<Rightarrow> Some [(''crv'', crv), (''kty'', ''OKP''), (''x'', x)]
               | _ \<Rightarrow> None)
            else if kty = ''EC'' then
              (case (get_string jwk ''crv'', get_string jwk ''x'', get_string jwk ''y'') of
                 (Some crv, Some x, Some y) \<Rightarrow> Some [(''crv'', crv), (''kty'', ''EC''), (''x'', x), (''y'', y)]
               | _ \<Rightarrow> None)
            else if kty = ''RSA'' then
              (case (get_string jwk ''e'', get_string jwk ''n'') of
                 (Some e, Some n) \<Rightarrow> Some [(''e'', e), (''kty'', ''RSA''), (''n'', n)]
               | _ \<Rightarrow> None)
            else None)"

definition key_authorization :: "string \<Rightarrow> string \<Rightarrow> string" where
  "key_authorization token thumbprint = token @ [dot] @ thumbprint"

definition dns01_txt_value :: "'i acme_env \<Rightarrow> string \<Rightarrow> string" where
  "dns01_txt_value env key_auth = b64_encode env (sha256 env key_auth)"

definition verify_eab :: "'i acme_env \<Rightarrow> json \<Rightarrow> json \<Rightarrow> string \<Rightarrow> bool" where
  "verify_eab env eab account_jwk hmac_key =
     (case (get_string eab ''protected'', get_string eab ''payload'', get_string eab ''signature'') of
        (Some protected, Some payload, Some sig_b64) \<Rightarrow>
          (case b64_decode env sig_b64 of
             None \<Rightarrow> False
           | Some sig \<Rightarrow>
               hmac_verify env hmac_key (protected @ [dot] @ payload) sig \<and>
               (case Option.bind (b64_decode env protected) (js_parse env) of
                  None \<Rightarrow> False
                | Some prot \<Rightarrow> get_string prot ''alg'' = Some ''HS256'') \<and>
               Option.bind (b64_decode env payload) (js_parse env) = Some account_jwk)
      | _ \<Rightarrow> False)"

definition eab_kid :: "'i acme_env \<Rightarrow> json \<Rightarrow> string option" where
  "eab_kid env eab =
     (case Option.bind (get_string eab ''protected'') (b64_decode env) of
        None \<Rightarrow> None
      | Some raw \<Rightarrow> Option.bind (js_parse env raw) (\<lambda>prot. get_string prot ''kid''))"

section \<open>State, errors and answers\<close>

definition ORDER_TTL_SECS :: int where
  "ORDER_TTL_SECS = 7 * 24 * 3600"

record acme_state =
  directory_url :: string
  require_eab :: bool
  issuance_any :: bool
  leaf_validity_days :: int
  tlsa_endpoints :: "(nat \<times> string) list"

datatype acme_error = Malformed | Unauthorized | BadNonce | BadCertRequest | NotOwner | ServerInternal
  | AccountDoesNotExist | ExternalAccountRequired | RejectedIdentifier | OrderNotReady | RevocationNotImplemented

datatype acme_body = NoBody | Json json | PemChain string

record acme_response =
  resp_status :: nat
  resp_location :: "string option"
  resp_body :: acme_body

definition trim_end_slashes :: "string \<Rightarrow> string" where
  "trim_end_slashes s = rev (dropWhile (\<lambda>c. c = CHR ''/'') (rev s))"

definition acme_url :: "acme_state \<Rightarrow> string \<Rightarrow> string" where
  "acme_url st path = trim_end_slashes (directory_url st) @ ''/'' @ path"

record verified =
  v_payload :: json
  v_account :: "acme_account option"
  v_jwk :: json
  v_thumbprint :: string

text \<open>The last segment of a path.\<close>

definition last_segment :: "string \<Rightarrow> string" where
  "last_segment s = last (split_on (CHR ''/'') s)"

text \<open>The key a header names: the embedded one, or that of the account.\<close>

definition resolve_key ::
  "'i acme_env \<Rightarrow> 'a acme_db_scheme \<Rightarrow> protected_header \<Rightarrow> acme_error + json \<times> acme_account option" where
  "resolve_key env db header =
     (case (hd_jwk header, hd_kid header) of
        (Some jwk, None) \<Rightarrow> Inr (jwk, None)
      | (None, Some kid) \<Rightarrow>
          (case get_acme_account db (last_segment kid) of
             None \<Rightarrow> Inl AccountDoesNotExist
           | Some account \<Rightarrow>
               (case js_parse env (acc_jwk account) of
                  None \<Rightarrow> Inl ServerInternal
                | Some jwk \<Rightarrow> Inr (jwk, Some account)))
      | _ \<Rightarrow> Inl Malformed)"

definition check_signature ::
  "'i acme_env \<Rightarrow> 'a acme_db_scheme \<Rightarrow> flat_jws \<Rightarrow> protected_header \<Rightarrow> acme_error + verified" where
  "check_signature env db jws header =
     (case resolve_key env db header of
        Inl e \<Rightarrow> Inl e
      | Inr (jwk, account) \<Rightarrow>
          if \<not> jws_verify env jws (hd_alg header) jwk then Inl Unauthorized
          else (case payload_json env jws of
                  None \<Rightarrow> Inl Malformed
                | Some payload \<Rightarrow>
                    (case jwk_thumbprint env jwk of
                       None \<Rightarrow> Inl Malformed
                     | Some t \<Rightarrow> Inr \<lparr>v_payload = payload, v_account = account, v_jwk = jwk, v_thumbprint = t\<rparr>)))"

definition verify_request ::
  "'i acme_env \<Rightarrow> int \<Rightarrow> string \<Rightarrow> string \<Rightarrow> 'a acme_db_scheme \<Rightarrow> (acme_error + verified) \<times> 'a acme_db_scheme" where
  "verify_request env now body expected_url db =
     (case jws_parse env body of
        None \<Rightarrow> (Inl Malformed, db)
      | Some jws \<Rightarrow>
          (case jws_header env jws of
             None \<Rightarrow> (Inl Malformed, db)
           | Some header \<Rightarrow>
               if hd_url header \<noteq> Some expected_url then (Inl Malformed, db)
               else (case hd_nonce header of
                       None \<Rightarrow> (Inl BadNonce, db)
                     | Some nonce \<Rightarrow>
                         (case consume_nonce now nonce db of
                            (False, db1) \<Rightarrow> (Inl BadNonce, db1)
                          | (True, db1) \<Rightarrow> (check_signature env db1 jws header, db1)))))"

text \<open>A verified request that names an account.\<close>

definition verify_account ::
  "'i acme_env \<Rightarrow> int \<Rightarrow> string \<Rightarrow> string \<Rightarrow> 'a acme_db_scheme
     \<Rightarrow> (acme_error + acme_account \<times> json) \<times> 'a acme_db_scheme" where
  "verify_account env now body expected_url db =
     (case verify_request env now body expected_url db of
        (Inl e, db1) \<Rightarrow> (Inl e, db1)
      | (Inr v, db1) \<Rightarrow>
          (case v_account v of
             None \<Rightarrow> (Inl Malformed, db1)
           | Some account \<Rightarrow> (Inr (account, v_payload v), db1)))"

section \<open>Accounts\<close>

definition located :: "nat \<Rightarrow> string \<Rightarrow> json \<Rightarrow> acme_response" where
  "located status loc body = \<lparr>resp_status = status, resp_location = Some loc, resp_body = Json body\<rparr>"

definition answered :: "nat \<Rightarrow> json \<Rightarrow> acme_response" where
  "answered status body = \<lparr>resp_status = status, resp_location = None, resp_body = Json body\<rparr>"

definition directory :: "acme_state \<Rightarrow> acme_response" where
  "directory st =
     answered 200 (JObject
       [(''newNonce'', JString (acme_url st ''new-nonce'')), (''newAccount'', JString (acme_url st ''new-account'')),
        (''newOrder'', JString (acme_url st ''new-order'')), (''revokeCert'', JString (acme_url st ''revoke-cert'')),
        (''meta'', JObject [(''externalAccountRequired'', JBool (require_eab st))])])"

definition new_nonce :: acme_response where
  "new_nonce = \<lparr>resp_status = 204, resp_location = None, resp_body = NoBody\<rparr>"

definition account_json :: "acme_account \<Rightarrow> json" where
  "account_json account = JObject [(''status'', JString (acc_status account)), (''orders'', JString [])]"

definition account_location :: "acme_state \<Rightarrow> string \<Rightarrow> string" where
  "account_location st i = acme_url st (''account/'' @ i)"

text \<open>The binding of a new account: its zone and key identifier, where the request has one.\<close>

definition bind_external ::
  "'i acme_env \<Rightarrow> acme_state \<Rightarrow> int \<Rightarrow> verified \<Rightarrow> 'a acme_db_scheme
     \<Rightarrow> (acme_error + string option \<times> string option) \<times> 'a acme_db_scheme" where
  "bind_external env st now v db =
     (case json_get (v_payload v) ''externalAccountBinding'' of
        Some eab \<Rightarrow>
          (case eab_kid env eab of
             None \<Rightarrow> (Inl Malformed, db)
           | Some kid \<Rightarrow>
               (case get_eab db kid of
                  None \<Rightarrow> (Inl Unauthorized, db)
                | Some cred \<Rightarrow>
                    if eab_used cred then (Inl Unauthorized, db)
                    else if \<not> verify_eab env eab (v_jwk v) (eab_hmac cred) then (Inl Unauthorized, db)
                    else (let db1 = mark_eab_used kid db
                          in case eab_zone cred of
                               None \<Rightarrow> (Inr (None, Some kid), db1)
                             | Some z \<Rightarrow>
                                 (case ensure_zone_intermediate (pki env) now z db1 of
                                    (Inl _, db2) \<Rightarrow> (Inl ServerInternal, db2)
                                  | (Inr _, db2) \<Rightarrow> (Inr (Some z, Some kid), db2)))))
      | None \<Rightarrow> if require_eab st then (Inl ExternalAccountRequired, db) else (Inr (None, None), db))"

definition new_account ::
  "'i acme_env \<Rightarrow> acme_state \<Rightarrow> int \<Rightarrow> (nat \<Rightarrow> string option) \<Rightarrow> string \<Rightarrow> 'a acme_db_scheme
     \<Rightarrow> (acme_error + acme_response) \<times> 'a acme_db_scheme" where
  "new_account env st now tok body db =
     (case verify_request env now body (acme_url st ''new-account'') db of
        (Inl e, db1) \<Rightarrow> (Inl e, db1)
      | (Inr v, db1) \<Rightarrow>
          (case get_acme_account_by_thumbprint db1 (v_thumbprint v) of
             Some existing \<Rightarrow>
               (Inr (located 200 (account_location st (account_id existing)) (account_json existing)), db1)
           | None \<Rightarrow>
               if Option.bind (json_get (v_payload v) ''onlyReturnExisting'') as_bool = Some True
               then (Inl AccountDoesNotExist, db1)
               else (case bind_external env st now v db1 of
                       (Inl e, db2) \<Rightarrow> (Inl e, db2)
                     | (Inr (zone, kid), db2) \<Rightarrow>
                         (case tok 0 of
                            None \<Rightarrow> (Inl ServerInternal, db2)
                          | Some i \<Rightarrow>
                              (let account = \<lparr>account_id = i, acc_jwk = js_print env (v_jwk v), acc_thumbprint = v_thumbprint v,
                                              acc_contacts = map_option (js_print env) (json_get (v_payload v) ''contact''),
                                              acc_status = ''valid'', acc_eab_kid = kid, acc_zone = zone\<rparr>
                               in case create_acme_account now account db2 of
                                    None \<Rightarrow> (Inl ServerInternal, db2)
                                  | Some db3 \<Rightarrow>
                                      (Inr (located 201 (account_location st i) (account_json account)), db3))))))"

section \<open>Orders\<close>

definition derive_zone :: "string \<Rightarrow> string" where
  "derive_zone normalized =
     (let labels = split_on dot (trim_end_dots normalized); n = length labels
      in if n \<ge> 2 then labels ! (n - 2) @ [dot] @ labels ! (n - 1) @ [dot] else normalized)"

definition check_issuable ::
  "'i acme_env \<Rightarrow> acme_state \<Rightarrow> int \<Rightarrow> acme_account \<Rightarrow> string \<Rightarrow> 'a acme_db_scheme
     \<Rightarrow> (acme_error + string) \<times> 'a acme_db_scheme" where
  "check_issuable env st now account name db =
     (let normalized = normalize_name name
      in case acc_zone account of
           Some zone \<Rightarrow>
             (let z = normalize_name zone
              in if normalized \<noteq> z \<and> \<not> ends_with normalized ([dot] @ z) then (Inl RejectedIdentifier, db) else (Inr z, db))
         | None \<Rightarrow>
             (case responsible_zone db name of
                Some z \<Rightarrow> (Inr z, db)
              | None \<Rightarrow>
                  if issuance_any st
                  then (let zone = derive_zone normalized
                        in case ensure_zone_intermediate (pki env) now zone db of
                             (Inl _, db1) \<Rightarrow> (Inl ServerInternal, db1)
                           | (Inr _, db1) \<Rightarrow> (Inr zone, db1))
                  else (Inl RejectedIdentifier, db)))"

text \<open>Checking the identifiers of a request, and those of an order once more with the zone of each.\<close>

fun order_names ::
  "'i acme_env \<Rightarrow> acme_state \<Rightarrow> int \<Rightarrow> acme_account \<Rightarrow> json list \<Rightarrow> 'a acme_db_scheme
     \<Rightarrow> (acme_error + string list) \<times> 'a acme_db_scheme" where
  "order_names env st now account [] db = (Inr [], db)"
| "order_names env st now account (i # is) db =
     (if get_string i ''type'' \<noteq> Some ''dns'' then (Inl Malformed, db)
      else case get_string i ''value'' of
             None \<Rightarrow> (Inl Malformed, db)
           | Some val \<Rightarrow>
               (case check_issuable env st now account val db of
                  (Inl e, db1) \<Rightarrow> (Inl e, db1)
                | (Inr _, db1) \<Rightarrow>
                    (case order_names env st now account is db1 of
                       (Inl e, db2) \<Rightarrow> (Inl e, db2)
                     | (Inr names, db2) \<Rightarrow> (Inr (val # names), db2))))"

fun check_names ::
  "'i acme_env \<Rightarrow> acme_state \<Rightarrow> int \<Rightarrow> acme_account \<Rightarrow> string list \<Rightarrow> 'a acme_db_scheme
     \<Rightarrow> (acme_error + string list) \<times> 'a acme_db_scheme" where
  "check_names env st now account [] db = (Inr [], db)"
| "check_names env st now account (n # ns) db =
     (case check_issuable env st now account n db of
        (Inl e, db1) \<Rightarrow> (Inl e, db1)
      | (Inr z, db1) \<Rightarrow>
          (case check_names env st now account ns db1 of
             (Inl e, db2) \<Rightarrow> (Inl e, db2)
           | (Inr zs, db2) \<Rightarrow> (Inr (z # zs), db2)))"

text \<open>One authorization with its challenge per name; the draws are counted from \<open>i\<close>.\<close>

fun create_authzs ::
  "(nat \<Rightarrow> string option) \<Rightarrow> nat \<Rightarrow> string \<Rightarrow> string \<Rightarrow> int \<Rightarrow> string list \<Rightarrow> 'a acme_db_scheme
     \<Rightarrow> (acme_error + string list) \<times> 'a acme_db_scheme" where
  "create_authzs tok i oid acct expires [] db = (Inr [], db)"
| "create_authzs tok i oid acct expires (name # names) db =
     (case tok i of
        None \<Rightarrow> (Inl ServerInternal, db)
      | Some aid \<Rightarrow>
          (case create_authorization \<lparr>authz_id = aid, az_order = oid, az_account = acct, az_identifier = name,
                                      az_status = ''pending'', az_expires = expires\<rparr> db of
             None \<Rightarrow> (Inl ServerInternal, db)
           | Some db1 \<Rightarrow>
               (case (tok (i + 1), tok (i + 2)) of
                  (Some cid, Some token) \<Rightarrow>
                    (case create_challenge \<lparr>chal_id = cid, ch_authz = aid, ch_type = ''dns-01'', ch_token = token,
                                            ch_status = ''pending'', ch_validated = None\<rparr> db1 of
                       None \<Rightarrow> (Inl ServerInternal, db1)
                     | Some db2 \<Rightarrow>
                         (case create_authzs tok (i + 3) oid acct expires names db2 of
                            (Inl e, db3) \<Rightarrow> (Inl e, db3)
                          | (Inr ids, db3) \<Rightarrow> (Inr (aid # ids), db3)))
                | _ \<Rightarrow> (Inl ServerInternal, db1))))"

text \<open>A list of texts as the database holds it.\<close>

definition print_strings :: "'i acme_env \<Rightarrow> string list \<Rightarrow> string" where
  "print_strings env ss = js_print env (JArray (map JString ss))"

definition parse_strings :: "'i acme_env \<Rightarrow> string \<Rightarrow> string list option" where
  "parse_strings env s =
     (case js_parse env s of
        Some (JArray vs) \<Rightarrow> those (map as_string vs)
      | _ \<Rightarrow> None)"

definition order_json :: "'i acme_env \<Rightarrow> acme_state \<Rightarrow> acme_order \<Rightarrow> json option" where
  "order_json env st ord =
     (case (parse_strings env (ord_identifiers ord), parse_strings env (ord_authorizations ord)) of
        (Some names, Some ids) \<Rightarrow>
          Some (JObject
            ([(''status'', JString (ord_status ord)), (''expires'', JString (rfc3339 env (ord_expires ord))),
              (''identifiers'', JArray (map (\<lambda>n. JObject [(''type'', JString ''dns''), (''value'', JString n)]) names)),
              (''authorizations'', JArray (map (\<lambda>a. JString (acme_url st (''authz/'' @ a))) ids)),
              (''finalize'', JString (acme_url st (''finalize/'' @ order_id ord)))] @
             (case ord_cert ord of
                Some c \<Rightarrow> [(''certificate'', JString (acme_url st (''cert/'' @ (if c < 0 then ''-'' else []) @ show_nat (nat \<bar>c\<bar>))))]
              | None \<Rightarrow> [])))
      | _ \<Rightarrow> None)"

definition order_location :: "acme_state \<Rightarrow> string \<Rightarrow> string" where
  "order_location st i = acme_url st (''order/'' @ i)"

definition respond_order ::
  "'i acme_env \<Rightarrow> acme_state \<Rightarrow> acme_order \<Rightarrow> (json \<Rightarrow> acme_response) \<Rightarrow> acme_error + acme_response" where
  "respond_order env st ord mk = (case order_json env st ord of Some body \<Rightarrow> Inr (mk body) | None \<Rightarrow> Inl ServerInternal)"

definition new_order ::
  "'i acme_env \<Rightarrow> acme_state \<Rightarrow> int \<Rightarrow> (nat \<Rightarrow> string option) \<Rightarrow> string \<Rightarrow> 'a acme_db_scheme
     \<Rightarrow> (acme_error + acme_response) \<times> 'a acme_db_scheme" where
  "new_order env st now tok body db =
     (case verify_account env now body (acme_url st ''new-order'') db of
        (Inl e, db1) \<Rightarrow> (Inl e, db1)
      | (Inr (account, payload), db1) \<Rightarrow>
          (case Option.bind (json_get payload ''identifiers'') as_array of
             None \<Rightarrow> (Inl Malformed, db1)
           | Some ids \<Rightarrow>
               if ids = [] then (Inl Malformed, db1)
               else (case order_names env st now account ids db1 of
                       (Inl e, db2) \<Rightarrow> (Inl e, db2)
                     | (Inr names, db2) \<Rightarrow>
                         (case tok 0 of
                            None \<Rightarrow> (Inl ServerInternal, db2)
                          | Some oid \<Rightarrow>
                              (let expires = now + ORDER_TTL_SECS
                               in case create_authzs tok 1 oid (account_id account) expires names db2 of
                                    (Inl e, db3) \<Rightarrow> (Inl e, db3)
                                  | (Inr aids, db3) \<Rightarrow>
                                      (let ord = \<lparr>order_id = oid, ord_account = account_id account, ord_status = ''pending'',
                                                  ord_identifiers = print_strings env names,
                                                  ord_authorizations = print_strings env aids, ord_cert = None,
                                                  ord_expires = expires\<rparr>
                                       in case create_order ord db3 of
                                            None \<Rightarrow> (Inl ServerInternal, db3)
                                          | Some db4 \<Rightarrow>
                                              (respond_order env st ord (located 201 (order_location st oid)), db4)))))))"

definition acme_get_order ::
  "'i acme_env \<Rightarrow> acme_state \<Rightarrow> int \<Rightarrow> string \<Rightarrow> string \<Rightarrow> 'a acme_db_scheme
     \<Rightarrow> (acme_error + acme_response) \<times> 'a acme_db_scheme" where
  "acme_get_order env st now i body db =
     (case verify_account env now body (acme_url st (''order/'' @ i)) db of
        (Inl e, db1) \<Rightarrow> (Inl e, db1)
      | (Inr (account, _), db1) \<Rightarrow>
          (case get_order db1 i of
             None \<Rightarrow> (Inl Malformed, db1)
           | Some ord \<Rightarrow>
               if ord_account ord \<noteq> account_id account then (Inl NotOwner, db1)
               else (respond_order env st ord (answered 200), db1)))"

section \<open>Authorizations and challenges\<close>

definition authz_json :: "'i acme_env \<Rightarrow> acme_state \<Rightarrow> 'a acme_db_scheme \<Rightarrow> acme_authorization \<Rightarrow> json" where
  "authz_json env st db az =
     JObject
       [(''status'', JString (az_status az)), (''expires'', JString (rfc3339 env (az_expires az))),
        (''identifier'', JObject [(''type'', JString ''dns''), (''value'', JString (az_identifier az))]),
        (''challenges'',
           JArray (map (\<lambda>c. JObject [(''type'', JString (ch_type c)), (''url'', JString (acme_url st (''challenge/'' @ chal_id c))),
                                     (''token'', JString (ch_token c)), (''status'', JString (ch_status c))])
             (list_challenges_for_authz db (authz_id az))))]"

definition get_authz ::
  "'i acme_env \<Rightarrow> acme_state \<Rightarrow> int \<Rightarrow> string \<Rightarrow> string \<Rightarrow> 'a acme_db_scheme
     \<Rightarrow> (acme_error + acme_response) \<times> 'a acme_db_scheme" where
  "get_authz env st now i body db =
     (case verify_account env now body (acme_url st (''authz/'' @ i)) db of
        (Inl e, db1) \<Rightarrow> (Inl e, db1)
      | (Inr (account, _), db1) \<Rightarrow>
          (case get_authorization db1 i of
             None \<Rightarrow> (Inl Malformed, db1)
           | Some az \<Rightarrow>
               if az_account az \<noteq> account_id account then (Inl NotOwner, db1)
               else (Inr (answered 200 (authz_json env st db1 az)), db1)))"

definition trim_quotes :: "string \<Rightarrow> string" where
  "trim_quotes s = rev (dropWhile (\<lambda>c. c = CHR 0x22) (rev (dropWhile (\<lambda>c. c = CHR 0x22) s)))"

definition challenge_name :: "string \<Rightarrow> string" where
  "challenge_name identifier = ''_acme-challenge.'' @ trim_end_dots identifier @ [dot]"

text \<open>The dns-01 check: a TXT record of the challenge name holds the hash of token and account key.\<close>

definition dns01_matches :: "'i acme_env \<Rightarrow> 'a records_db_scheme \<Rightarrow> string \<Rightarrow> string \<Rightarrow> string \<Rightarrow> bool" where
  "dns01_matches env db identifier token thumbprint =
     list_ex (\<lambda>r. trim_quotes (dr_value r) = dns01_txt_value env (key_authorization token thumbprint))
       (lookup db (challenge_name identifier) (Some TXT))"

definition all_valid :: "'a acme_db_scheme \<Rightarrow> string list \<Rightarrow> bool" where
  "all_valid db ids =
     list_all (\<lambda>i. case get_authorization db i of Some az \<Rightarrow> az_status az = ''valid'' | None \<Rightarrow> False) ids"

definition maybe_advance_order ::
  "'i acme_env \<Rightarrow> string \<Rightarrow> 'a acme_db_scheme \<Rightarrow> (acme_error + unit) \<times> 'a acme_db_scheme" where
  "maybe_advance_order env oid db =
     (case get_order db oid of
        None \<Rightarrow> (Inr (), db)
      | Some ord \<Rightarrow>
          (case parse_strings env (ord_authorizations ord) of
             None \<Rightarrow> (Inl ServerInternal, db)
           | Some ids \<Rightarrow>
               if all_valid db ids \<and> ord_status ord = ''pending'' then (Inr (), update_order oid ''ready'' None db)
               else (Inr (), db)))"

definition challenge_json :: "string \<Rightarrow> acme_challenge \<Rightarrow> json" where
  "challenge_json url c =
     JObject [(''type'', JString (ch_type c)), (''url'', JString url), (''token'', JString (ch_token c)),
              (''status'', JString (ch_status c))]"

definition respond_challenge ::
  "'i acme_env \<Rightarrow> acme_state \<Rightarrow> int \<Rightarrow> string \<Rightarrow> string \<Rightarrow> 'a acme_db_scheme
     \<Rightarrow> (acme_error + acme_response) \<times> 'a acme_db_scheme" where
  "respond_challenge env st now i body db =
     (let expected = acme_url st (''challenge/'' @ i)
      in case verify_account env now body expected db of
           (Inl e, db1) \<Rightarrow> (Inl e, db1)
         | (Inr (account, _), db1) \<Rightarrow>
             (case get_challenge db1 i of
                None \<Rightarrow> (Inl Malformed, db1)
              | Some ch \<Rightarrow>
                  (case get_authorization db1 (ch_authz ch) of
                     None \<Rightarrow> (Inl Malformed, db1)
                   | Some az \<Rightarrow>
                       if az_account az \<noteq> account_id account then (Inl NotOwner, db1)
                       else if az_expires az \<le> now then (Inl Malformed, db1)
                       else (case (if dns01_matches env db1 (az_identifier az) (ch_token ch) (acc_thumbprint account)
                                   then maybe_advance_order env (az_order az)
                                          (update_authorization_status (authz_id az) ''valid''
                                            (update_challenge_status (chal_id ch) ''valid'' (Some now) db1))
                                   else (Inr (), update_authorization_status (authz_id az) ''invalid''
                                                   (update_challenge_status (chal_id ch) ''invalid'' None db1))) of
                               (Inl e, db2) \<Rightarrow> (Inl e, db2)
                             | (Inr _, db2) \<Rightarrow>
                                 (case get_challenge db2 i of
                                    None \<Rightarrow> (Inl ServerInternal, db2)
                                  | Some updated \<Rightarrow> (Inr (answered 200 (challenge_json expected updated)), db2))))))"

section \<open>Certificates\<close>

definition der_to_pem :: "'i acme_env \<Rightarrow> string \<Rightarrow> string \<Rightarrow> string" where
  "der_to_pem env lbl der =
     ''-----BEGIN '' @ lbl @ ''-----'' @ [CHR 0x0A] @ concat (map (\<lambda>c. c @ [CHR 0x0A]) (chunks 64 (b64_std env der))) @
     ''-----END '' @ lbl @ ''-----'' @ [CHR 0x0A]"

definition tlsa_record :: "string \<Rightarrow> string \<Rightarrow> nat \<times> string \<Rightarrow> dns_record" where
  "tlsa_record tlsa name ep =
     \<lparr>dr_id = None, dr_name = tlsa_dns_name name (fst ep) (snd ep), dr_type = TLSA, dr_value = tlsa, dr_ttl = 3600, dr_priority = 0\<rparr>"

definition publish_dane ::
  "'i acme_env \<Rightarrow> acme_state \<Rightarrow> string \<Rightarrow> string list \<Rightarrow> 'a acme_db_scheme
     \<Rightarrow> (acme_error + unit) \<times> 'a acme_db_scheme" where
  "publish_dane env st zone names db =
     (case intermediate_tlsa (pki env) db zone of
        Inl _ \<Rightarrow> (Inl ServerInternal, db)
      | Inr tlsa \<Rightarrow>
          (Inr (), fold (\<lambda>r db. snd (add_record r db))
                     (concat (map (\<lambda>n. map (tlsa_record tlsa n) (tlsa_endpoints st)) names)) db))"

text \<open>Issuing for an order that has passed the checks, from the names on.\<close>

definition issue_order ::
  "'i acme_env \<Rightarrow> acme_state \<Rightarrow> int \<Rightarrow> acme_account \<Rightarrow> acme_order \<Rightarrow> string \<Rightarrow> string list \<Rightarrow> 'a acme_db_scheme
     \<Rightarrow> (acme_error + acme_response) \<times> 'a acme_db_scheme" where
  "issue_order env st now account ord csr_pem names db =
     (case names of
        [] \<Rightarrow> (Inl Malformed, db)
      | primary # _ \<Rightarrow>
          (case check_names env st now account names db of
             (Inl e, db1) \<Rightarrow> (Inl e, db1)
           | (Inr zs, db1) \<Rightarrow>
               (let zone = hd zs
                in case issue_leaf (pki env) now db1 zone csr_pem (leaf_validity_days st) names of
                     Inl _ \<Rightarrow> (Inl BadCertRequest, db1)
                   | Inr issued \<Rightarrow>
                       (let (cid, db2) = store_acme_certificate now primary (leaf_pem issued) [] (leaf_chain issued) (leaf_expires issued) db1
                        in case publish_dane env st zone names db2 of
                             (Inl e, db3) \<Rightarrow> (Inl e, db3)
                           | (Inr _, db3) \<Rightarrow>
                               (let db4 = update_order (order_id ord) ''valid'' (Some cid) db3
                                in case get_order db4 (order_id ord) of
                                     None \<Rightarrow> (Inl ServerInternal, db4)
                                   | Some ord' \<Rightarrow>
                                       (respond_order env st ord' (located 200 (order_location st (order_id ord'))), db4))))))"

definition finalize ::
  "'i acme_env \<Rightarrow> acme_state \<Rightarrow> int \<Rightarrow> string \<Rightarrow> string \<Rightarrow> 'a acme_db_scheme
     \<Rightarrow> (acme_error + acme_response) \<times> 'a acme_db_scheme" where
  "finalize env st now i body db =
     (case verify_account env now body (acme_url st (''finalize/'' @ i)) db of
        (Inl e, db1) \<Rightarrow> (Inl e, db1)
      | (Inr (account, payload), db1) \<Rightarrow>
          (case get_order db1 i of
             None \<Rightarrow> (Inl Malformed, db1)
           | Some ord \<Rightarrow>
               if ord_account ord \<noteq> account_id account then (Inl NotOwner, db1)
               else if ord_status ord \<noteq> ''ready'' then (Inl OrderNotReady, db1)
               else if ord_expires ord \<le> now then (Inl Malformed, db1)
               else (case Option.bind (get_string payload ''csr'') (b64_decode env) of
                       None \<Rightarrow> (Inl Malformed, db1)
                     | Some csr_der \<Rightarrow>
                         (case parse_strings env (ord_identifiers ord) of
                            None \<Rightarrow> (Inl ServerInternal, db1)
                          | Some names \<Rightarrow>
                              issue_order env st now account ord (der_to_pem env ''CERTIFICATE REQUEST'' csr_der) names db1))))"

text \<open>\<open>i64\<close> from a text: an optional sign and digits within the range of the type.\<close>

definition parse_i64 :: "string \<Rightarrow> int option" where
  "parse_i64 s =
     (case s of
        CHR ''-'' # ds \<Rightarrow> if ds = [] then None else map_option (\<lambda>n. - int n) (if hd ds = CHR ''+'' then None else parse_uint (2 ^ 63) ds)
      | _ \<Rightarrow> map_option int (parse_uint (2 ^ 63 - 1) s))"

definition get_cert ::
  "'i acme_env \<Rightarrow> acme_state \<Rightarrow> int \<Rightarrow> string \<Rightarrow> string \<Rightarrow> 'a acme_db_scheme
     \<Rightarrow> (acme_error + acme_response) \<times> 'a acme_db_scheme" where
  "get_cert env st now i body db =
     (case verify_account env now body (acme_url st (''cert/'' @ i)) db of
        (Inl e, db1) \<Rightarrow> (Inl e, db1)
      | (Inr (account, _), db1) \<Rightarrow>
          (case parse_i64 i of
             None \<Rightarrow> (Inl Malformed, db1)
           | Some cid \<Rightarrow>
               if map_option ord_account (get_order_by_cert_id db1 cid) \<noteq> Some (account_id account) then (Inl NotOwner, db1)
               else (case get_acme_certificate_by_id db1 cid of
                       None \<Rightarrow> (Inl Malformed, db1)
                     | Some c \<Rightarrow>
                         (Inr \<lparr>resp_status = 200, resp_location = None, resp_body = PemChain (cert_chain c)\<rparr>, db1))))"

definition revoke_cert ::
  "'i acme_env \<Rightarrow> acme_state \<Rightarrow> int \<Rightarrow> string \<Rightarrow> 'a acme_db_scheme
     \<Rightarrow> (acme_error + acme_response) \<times> 'a acme_db_scheme" where
  "revoke_cert env st now body db =
     (case verify_request env now body (acme_url st ''revoke-cert'') db of
        (Inl e, db1) \<Rightarrow> (Inl e, db1)
      | (Inr _, db1) \<Rightarrow> (Inl RevocationNotImplemented, db1))"

section \<open>The router\<close>

datatype acme_request = Directory | NewNonce | NewAccount string | NewOrder string | GetOrder string string
  | GetAuthz string string | RespondChallenge string string | Finalize string string | GetCert string string | RevokeCert string

fun acme_handle ::
  "'i acme_env \<Rightarrow> acme_state \<Rightarrow> int \<Rightarrow> (nat \<Rightarrow> string option) \<Rightarrow> acme_request \<Rightarrow> 'a acme_db_scheme
     \<Rightarrow> (acme_error + acme_response) \<times> 'a acme_db_scheme" where
  "acme_handle env st now tok Directory db = (Inr (directory st), db)"
| "acme_handle env st now tok NewNonce db = (Inr new_nonce, db)"
| "acme_handle env st now tok (NewAccount b) db = new_account env st now tok b db"
| "acme_handle env st now tok (NewOrder b) db = new_order env st now tok b db"
| "acme_handle env st now tok (GetOrder i b) db = acme_get_order env st now i b db"
| "acme_handle env st now tok (GetAuthz i b) db = get_authz env st now i b db"
| "acme_handle env st now tok (RespondChallenge i b) db = respond_challenge env st now i b db"
| "acme_handle env st now tok (Finalize i b) db = finalize env st now i b db"
| "acme_handle env st now tok (GetCert i b) db = get_cert env st now i b db"
| "acme_handle env st now tok (RevokeCert b) db = revoke_cert env st now b db"

text \<open>The answer with its nonce: a fresh draw, stored before it is sent; none where the generator fails.\<close>

definition attach_nonce :: "int \<Rightarrow> string option \<Rightarrow> 'a acme_db_scheme \<Rightarrow> 'a acme_db_scheme" where
  "attach_nonce now fresh db = (case fresh of Some n \<Rightarrow> store_nonce now n db | None \<Rightarrow> db)"

definition acme_serve ::
  "'i acme_env \<Rightarrow> acme_state \<Rightarrow> int \<Rightarrow> (nat \<Rightarrow> string option) \<Rightarrow> string option \<Rightarrow> acme_request \<Rightarrow> 'a acme_db_scheme
     \<Rightarrow> (acme_error + acme_response) \<times> 'a acme_db_scheme" where
  "acme_serve env st now tok fresh req db =
     (let (answer, db1) = acme_handle env st now tok req db in (answer, attach_nonce now fresh db1))"

section \<open>Runs\<close>

text \<open>
  A run interleaves requests with every other change: DNS records and keys by any operation of the
  record table, the root, intermediates and bindings made and removed elsewhere. The configuration may
  differ from step to step. The history holds each request with its time and the database it met.
\<close>

inductive acme_run :: "'i acme_env \<Rightarrow> (int \<times> acme_request \<times> acme_db) list \<Rightarrow> acme_db \<Rightarrow> bool" for env where
  start: "acme_run env [] empty_acme_db"
| serve: "acme_run env h db \<Longrightarrow> acme_run env ((now, req, db) # h) (snd (acme_serve env st now tok fresh req db))"
| dns: "acme_run env h db \<Longrightarrow> acme_run env h (records_exec op db)"
| root: "acme_run env h db \<Longrightarrow> acme_run env h (snd (ensure_root_ca (pki env) now cn db))"
| intermediate: "acme_run env h db \<Longrightarrow> acme_run env h (snd (ensure_zone_intermediate (pki env) now z db))"
| other_root: "acme_run env h db \<Longrightarrow> acme_run env h (snd (store_dane_root_ca name cert key db))"
| bind: "acme_run env h db \<Longrightarrow> create_eab kid key z db = Some db' \<Longrightarrow> acme_run env h db'"
| unbind: "acme_run env h db \<Longrightarrow> acme_run env h (snd (remove_eab kid db))"

text \<open>A body signed by an account for one URL, under a nonce that is outstanding and not expired.\<close>

definition signed_by_account ::
  "'i acme_env \<Rightarrow> int \<Rightarrow> 'a acme_db_scheme \<Rightarrow> string \<Rightarrow> string \<Rightarrow> acme_account \<Rightarrow> json \<Rightarrow> bool" where
  "signed_by_account env now db url body account payload \<longleftrightarrow>
     (\<exists>jws header nonce created jwk. jws_parse env body = Some jws \<and> jws_header env jws = Some header \<and>
        hd_url header = Some url \<and> hd_nonce header = Some nonce \<and>
        (nonce, created) \<in> set (nonces db) \<and> now - NONCE_TTL_SECS \<le> created \<and>
        account \<in> fst ` set (accounts db) \<and> js_parse env (acc_jwk account) = Some jwk \<and>
        jwk_thumbprint env jwk = Some (acc_thumbprint account) \<and>
        jws_verify env jws (hd_alg header) jwk \<and> payload_json env jws = Some payload)"

text \<open>
  An account has proved control of a name: an earlier answer to a challenge, signed by that account for a
  challenge issued to it for that name and not past the deadline, found the TXT record that only a holder of
  token and account key can compute.
\<close>

definition proved_control :: "'i acme_env \<Rightarrow> (int \<times> acme_request \<times> acme_db) list \<Rightarrow> acme_account \<Rightarrow> string \<Rightarrow> int \<Rightarrow> bool" where
  "proved_control env h acct name deadline \<longleftrightarrow>
     (\<exists>now i b db st payload ch az. (now, RespondChallenge i b, db) \<in> set h \<and> now < deadline \<and>
        signed_by_account env now db (acme_url st (''challenge/'' @ i)) b acct payload \<and>
        get_challenge db i = Some ch \<and> get_authorization db (ch_authz ch) = Some az \<and>
        az_identifier az = name \<and> az_account az = account_id acct \<and>
        dns01_matches env db name (ch_token ch) (acc_thumbprint acct))"

definition account_proved ::
  "'i acme_env \<Rightarrow> (int \<times> acme_request \<times> acme_db) list \<Rightarrow> 'a acme_db_scheme \<Rightarrow> string \<Rightarrow> string \<Rightarrow> int \<Rightarrow> bool" where
  "account_proved env h db acct name deadline \<longleftrightarrow>
     (\<exists>a\<in>fst ` set (accounts db). account_id a = acct \<and> proved_control env h a name deadline)"

definition order_consistent :: "'i acme_env \<Rightarrow> acme_authorization list \<Rightarrow> acme_order \<Rightarrow> string list \<Rightarrow> string list \<Rightarrow> bool" where
  "order_consistent env azs r names ids \<longleftrightarrow>
     ord_identifiers r = print_strings env names \<and> ord_authorizations r = print_strings env ids \<and> length ids = length names \<and>
     (\<forall>k<length names. \<exists>az\<in>set azs. authz_id az = ids ! k \<and> az_identifier az = names ! k \<and>
        az_account az = ord_account r \<and> az_expires az = ord_expires r)"

definition account_ok :: "'i acme_env \<Rightarrow> acme_account \<Rightarrow> bool" where
  "account_ok env a \<longleftrightarrow> (\<exists>jwk. acc_jwk a = js_print env jwk \<and> jwk_thumbprint env jwk = Some (acc_thumbprint a))"

definition authz_ok :: "'i acme_env \<Rightarrow> (int \<times> acme_request \<times> acme_db) list \<Rightarrow> 'a acme_db_scheme \<Rightarrow> acme_authorization \<Rightarrow> bool" where
  "authz_ok env h db az \<longleftrightarrow>
     (az_status az = ''valid'' \<longrightarrow> account_proved env h db (az_account az) (az_identifier az) (az_expires az))"

definition order_ok :: "'i acme_env \<Rightarrow> (int \<times> acme_request \<times> acme_db) list \<Rightarrow> 'a acme_db_scheme \<Rightarrow> acme_order \<Rightarrow> bool" where
  "order_ok env h db r \<longleftrightarrow>
     (\<exists>names ids. order_consistent env (authzs db) r names ids \<and>
        (ord_status r \<in> {''ready'', ''valid''} \<longrightarrow> (\<forall>n\<in>set names. account_proved env h db (ord_account r) n (ord_expires r))))"

definition acme_inv :: "'i acme_env \<Rightarrow> (int \<times> acme_request \<times> acme_db) list \<Rightarrow> 'a acme_db_scheme \<Rightarrow> bool" where
  "acme_inv env h db \<longleftrightarrow>
     distinct (map authz_id (authzs db)) \<and> distinct (map order_id (orders db)) \<and> distinct (map (account_id \<circ> fst) (accounts db)) \<and>
     (\<forall>a\<in>fst ` set (accounts db). account_ok env a) \<and> (\<forall>az\<in>set (authzs db). authz_ok env h db az) \<and>
     (\<forall>r\<in>set (orders db). order_ok env h db r)"

end
