(* ===== verification/Acme_Runs.thy ===== *)
theory Acme_Runs
  imports Acme_Server
begin

text \<open>
  What the steps of a run of the ACME server keep: the operations of the record table, of the authorities and
  of the bindings leave accounts, orders and authorizations alone, and each handler preserves the invariant
  that an authorization is valid, and an order ready, only where control of its names was proved.
\<close>

section \<open>What the steps leave alone\<close>

definition same_tables :: "'a acme_db_scheme \<Rightarrow> 'a acme_db_scheme \<Rightarrow> bool" where
  "same_tables db db' \<longleftrightarrow> accounts db' = accounts db \<and> orders db' = orders db \<and> authzs db' = authzs db"

lemma same_tables_refl [simp]: "same_tables db db"
  by (simp add: same_tables_def)

lemma same_tables_trans: "same_tables a b \<Longrightarrow> same_tables b c \<Longrightarrow> same_tables a c"
  by (simp add: same_tables_def)

lemma same_tables_inv: "same_tables db db' \<Longrightarrow> acme_inv env h db' = acme_inv env h db"
  by (simp add: same_tables_def acme_inv_def authz_ok_def order_ok_def account_proved_def)

lemma inv_same: "acme_inv env h db \<Longrightarrow> same_tables db db' \<Longrightarrow> acme_inv env h db'"
  by (simp add: same_tables_inv)

lemma same_tables_record [simp]:
  fixes db :: "'a acme_db_scheme"
  shows "same_tables db (snd (add_record r db))" "same_tables db (snd (remove_records n t v db))"
  by (simp_all add: same_tables_def add_record_def remove_records_def mark_zone_resign_pending_def Let_def split: option.split)

lemma same_tables_records_exec:
  fixes db :: "'a acme_db_scheme"
  shows "same_tables db (records_exec op db)"
  by (cases op) (simp_all add: same_tables_def records_op_defs add_record_def remove_records_def mark_zone_resign_pending_def
      Let_def split: option.split)

lemma same_tables_add_records:
  fixes db :: "'a acme_db_scheme"
  shows "same_tables db (fold (\<lambda>v db. snd (add_record (f v) db)) vs db)"
  by (induction vs arbitrary: db) (auto intro: same_tables_trans [OF same_tables_record(1)])

lemma same_tables_publish_certs:
  fixes db :: "'a acme_db_scheme"
  shows "same_tables db (snd (publish_certs cn tn ps db))"
proof (induction ps arbitrary: db)
  case (Cons p ps)
  obtain kind pem where p: "p = (kind, pem)"
    by fastforce
  show ?case
  proof (cases "pem_body pem")
    case (Inr b)
    let ?db1 = "snd (add_record (ca_record cn CERT (''1 0 0 '' @ b)) db)"
    have "same_tables ?db1 (fold (\<lambda>v db. snd (add_record (ca_record tn TXT v) db)) (txt_chunks kind b) ?db1)"
      by (rule same_tables_add_records)
    then show ?thesis
      using same_tables_trans [OF same_tables_record(1) same_tables_trans [OF _ Cons.IH]]
      by (simp add: p Inr Let_def)
  qed (simp add: p)
qed simp

lemma same_tables_publish_ca:
  fixes db :: "'a acme_db_scheme"
  shows "same_tables db (snd (publish_ca_dns_records z db))"
  by (simp add: publish_ca_dns_records_def Let_def del: publish_certs.simps split: sum.split option.split)
     (use same_tables_trans [OF same_tables_record(2) same_tables_trans [OF same_tables_record(2) same_tables_publish_certs]] in blast)

lemma same_tables_ca_update [simp]:
  fixes db :: "'a acme_db_scheme"
  shows "same_tables db (store_zone_ca z c k db)" "same_tables db (snd (store_dane_root_ca n c k db))"
  by (simp_all add: same_tables_def store_zone_ca_def store_dane_root_ca_def Let_def)

lemma same_tables_intermediate:
  fixes db :: "'a acme_db_scheme"
  shows "same_tables db (snd (ensure_zone_intermediate p now z db))"
  by (simp add: ensure_zone_intermediate_def Let_def same_tables_publish_ca
      same_tables_trans [OF same_tables_ca_update(1) same_tables_publish_ca] split: sum.split option.split prod.split)

lemma same_tables_root:
  fixes db :: "'a acme_db_scheme"
  shows "same_tables db (snd (ensure_root_ca p now cn db))"
  by (simp add: ensure_root_ca_def split: sum.split option.split prod.split)

lemma same_tables_eab [simp]:
  "same_tables db (mark_eab_used k db)" "same_tables db (snd (remove_eab k db))"
  "create_eab k key z db = Some db' \<Longrightarrow> same_tables db db'"
  by (auto simp: same_tables_def mark_eab_used_def remove_eab_def create_eab_def Let_def split: if_splits)

lemma same_tables_check_issuable: "same_tables db (snd (check_issuable env st now a n db))"
  by (simp add: check_issuable_def Let_def split: option.split sum.split prod.split)
     (metis same_tables_intermediate snd_conv)

lemma same_tables_order_names: "same_tables db (snd (order_names env st now a is db))"
proof (induction "is" arbitrary: db)
  case (Cons i "is")
  show ?case
  proof (cases "get_string i ''value''")
    case (Some val)
    obtain r db1 where c: "check_issuable env st now a val db = (r, db1)"
      by fastforce
    with same_tables_check_issuable [of db env st now a val] have s: "same_tables db db1"
      by simp
    have "same_tables db (snd (order_names env st now a is db1))"
      by (rule same_tables_trans [OF s Cons.IH])
    then show ?thesis
      using s by (auto simp: Some c split: sum.split prod.split)
  qed simp
qed simp

lemma same_tables_check_names: "same_tables db (snd (check_names env st now a ns db))"
proof (induction ns arbitrary: db)
  case (Cons n ns)
  obtain r db1 where c: "check_issuable env st now a n db = (r, db1)"
    by fastforce
  with same_tables_check_issuable [of db env st now a n] have s: "same_tables db db1"
    by simp
  have "same_tables db (snd (check_names env st now a ns db1))"
    by (rule same_tables_trans [OF s Cons.IH])
  then show ?case
    using s by (auto simp: c split: sum.split prod.split)
qed simp

lemma verify_request_db: "\<exists>ns. snd (verify_request env now body url db) = db\<lparr>nonces := ns\<rparr>"
proof -
  have "\<exists>ns. snd (consume_nonce now n db) = db\<lparr>nonces := ns\<rparr>" for n
    by (auto simp: consume_nonce_def Let_def)
  moreover have "\<exists>ns. db = db\<lparr>nonces := ns\<rparr>"
    by (rule exI [of _ "nonces db"]) simp
  ultimately show ?thesis
    by (auto simp: verify_request_def split: option.split prod.split bool.split) (metis snd_conv)+
qed

lemma verify_account_db: "\<exists>ns. snd (verify_account env now body url db) = db\<lparr>nonces := ns\<rparr>"
proof -
  obtain r db1 where v: "verify_request env now body url db = (r, db1)"
    by fastforce
  with verify_request_db [of env now body url db] show ?thesis
    by (simp add: verify_account_def split: sum.split option.split)
qed

lemma same_tables_nonces [simp]: "same_tables db (db\<lparr>nonces := ns\<rparr>)" "same_tables db (store_nonce now n db)"
  by (simp_all add: same_tables_def store_nonce_def Let_def)

lemma same_tables_bind: "same_tables db (snd (bind_external env st now v db))"
proof -
  have "same_tables db (snd (ensure_zone_intermediate (pki env) now z (mark_eab_used k db)))" for z k
    by (rule same_tables_trans [OF same_tables_eab(1) same_tables_intermediate])
  then show ?thesis
    by (auto simp: bind_external_def Let_def split: option.split sum.split prod.split) (metis snd_conv)+
qed

section \<open>Every issued certificate was proved\<close>

lemma proved_control_mono: "proved_control env h a n d \<Longrightarrow> set h \<subseteq> set h' \<Longrightarrow> proved_control env h' a n d"
  unfolding proved_control_def by blast

lemma account_proved_mono:
  "account_proved env h db a n d \<Longrightarrow> set h \<subseteq> set h' \<Longrightarrow> set (accounts db) \<subseteq> set (accounts db') \<Longrightarrow>
     account_proved env h' db' a n d"
  unfolding account_proved_def using proved_control_mono by blast

text \<open>The rows of a table go on existing, up to their status.\<close>

definition same_authz :: "acme_authorization \<Rightarrow> acme_authorization \<Rightarrow> bool" where
  "same_authz x y \<longleftrightarrow> authz_id y = authz_id x \<and> az_identifier y = az_identifier x \<and> az_account y = az_account x \<and>
     az_expires y = az_expires x"

lemma order_consistent_mono:
  assumes "order_consistent env azs r ns ids" "\<forall>x\<in>set azs. \<exists>y\<in>set azs'. same_authz x y"
    and "ord_identifiers r' = ord_identifiers r" "ord_authorizations r' = ord_authorizations r"
    and "ord_account r' = ord_account r" "ord_expires r' = ord_expires r"
  shows "order_consistent env azs' r' ns ids"
proof -
  have "\<exists>y\<in>set azs'. authz_id y = ids ! k \<and> az_identifier y = ns ! k \<and> az_account y = ord_account r \<and> az_expires y = ord_expires r"
    if k: "k < length ns" for k
  proof -
    obtain x where x: "x \<in> set azs" "authz_id x = ids ! k" "az_identifier x = ns ! k" "az_account x = ord_account r"
        "az_expires x = ord_expires r"
      using assms(1) k unfolding order_consistent_def by blast
    then obtain y where "y \<in> set azs'" "same_authz x y"
      using assms(2) by blast
    with x show ?thesis
      by (auto simp: same_authz_def)
  qed
  then show ?thesis
    using assms(1,3-) by (simp add: order_consistent_def)
qed

lemma authz_ok_mono:
  "authz_ok env h db az \<Longrightarrow> set h \<subseteq> set h' \<Longrightarrow> set (accounts db) \<subseteq> set (accounts db') \<Longrightarrow> authz_ok env h' db' az"
  unfolding authz_ok_def using account_proved_mono by blast

lemma order_ok_mono:
  assumes "order_ok env h db r" "set h \<subseteq> set h'" "set (accounts db) \<subseteq> set (accounts db')"
    and "\<forall>x\<in>set (authzs db). \<exists>y\<in>set (authzs db'). same_authz x y"
  shows "order_ok env h' db' r"
proof -
  obtain ns ids where n: "order_consistent env (authzs db) r ns ids"
      "ord_status r \<in> {''ready'', ''valid''} \<longrightarrow> (\<forall>n\<in>set ns. account_proved env h db (ord_account r) n (ord_expires r))"
    using assms(1) unfolding order_ok_def by blast
  have "order_consistent env (authzs db') r ns ids"
    by (rule order_consistent_mono [OF n(1) assms(4)]) simp_all
  then show ?thesis
    unfolding order_ok_def using n(2) account_proved_mono [OF _ assms(2,3)] by blast
qed

lemma same_authz_refl: "\<forall>x\<in>set azs. \<exists>y\<in>set (azs @ bzs). same_authz x y"
  by (auto simp: same_authz_def)

lemma acme_inv_history: "acme_inv env h db \<Longrightarrow> acme_inv env (e # h) db"
  unfolding acme_inv_def
  by (auto intro: authz_ok_mono order_ok_mono [OF _ _ _ same_authz_refl [of _ "[]", simplified]])

lemma find_key: "distinct (map f xs) \<Longrightarrow> find (\<lambda>x. f x = k) xs = Some x \<longleftrightarrow> x \<in> set xs \<and> f x = k"
  by (induction xs) auto

lemma inv_new_account:
  assumes "acme_inv env h db" "create_acme_account now a db = Some db'" "account_ok env a"
  shows "acme_inv env h db'"
proof -
  have db': "db' = db\<lparr>accounts := accounts db @ [(a, now)]\<rparr>" "account_id a \<notin> account_id ` fst ` set (accounts db)"
    using assms(2) by (auto simp: create_acme_account_def split: if_splits)
  have ok: "authz_ok env h db az \<Longrightarrow> authz_ok env h db' az" "order_ok env h db r \<Longrightarrow> order_ok env h db' r" for az r
    using authz_ok_mono [of env h db az h db'] order_ok_mono [of env h db r h db'] same_authz_refl [of "authzs db" "[]"]
    by (simp_all add: db' subset_insertI)
  show ?thesis
    using assms(1,3) db'(2) ok unfolding acme_inv_def by (simp add: db' image_comp)
qed

lemma inv_new_authorization:
  assumes "acme_inv env h db" "create_authorization az db = Some db'" "az_status az \<noteq> ''valid''"
  shows "acme_inv env h db'"
proof -
  have db': "db' = db\<lparr>authzs := authzs db @ [az]\<rparr>" "authz_id az \<notin> authz_id ` set (authzs db)"
    using assms(2) by (auto simp: create_authorization_def split: if_splits)
  have ok: "authz_ok env h db x \<Longrightarrow> authz_ok env h db' x" "order_ok env h db r \<Longrightarrow> order_ok env h db' r" for x r
    using authz_ok_mono [of env h db x h db'] order_ok_mono [of env h db r h db'] same_authz_refl [of "authzs db" "[az]"]
    by (simp_all add: db')
  have "authz_ok env h db' az"
    using assms(3) by (simp add: authz_ok_def)
  then show ?thesis
    using assms(1) db'(2) ok unfolding acme_inv_def by (simp add: db')
qed

lemma inv_new_order:
  assumes "acme_inv env h db" "create_order r db = Some db'" "order_ok env h db r"
  shows "acme_inv env h db'"
proof -
  have db': "db' = db\<lparr>orders := orders db @ [r]\<rparr>" "order_id r \<notin> order_id ` set (orders db)"
    using assms(2) by (auto simp: create_order_def split: if_splits)
  have "authz_ok env h db' = authz_ok env h db" "order_ok env h db' = order_ok env h db"
    by (simp_all add: fun_eq_iff authz_ok_def order_ok_def account_proved_def db')
  then show ?thesis
    using assms(1,3) db'(2) unfolding acme_inv_def by (simp add: db')
qed

lemma inv_authz_status:
  assumes "acme_inv env h db"
    and "status = ''valid'' \<Longrightarrow> \<forall>az\<in>set (authzs db). authz_id az = i \<longrightarrow>
      account_proved env h db (az_account az) (az_identifier az) (az_expires az)"
  shows "acme_inv env h (update_authorization_status i status db)"
proof -
  let ?f = "\<lambda>r :: acme_authorization. if authz_id r = i then r\<lparr>az_status := status\<rparr> else r"
  let ?db' = "update_authorization_status i status db"
  have db': "?db' = db\<lparr>authzs := map ?f (authzs db)\<rparr>"
    by (simp add: update_authorization_status_def)
  have "authzs ?db' = map ?f (authzs db)"
    by (simp add: db')
  then have mem: "set (authzs ?db') = ?f ` set (authzs db)"
    by (simp only: set_map)
  have same: "\<forall>x\<in>set (authzs db). \<exists>y\<in>set (authzs ?db'). same_authz x y"
    unfolding mem by (intro ballI bexI [OF _ imageI]) (simp_all add: same_authz_def)
  have acc: "accounts ?db' = accounts db" "orders ?db' = orders db"
    by (simp_all add: db')
  have ids: "map authz_id (authzs ?db') = map authz_id (authzs db)"
    by (simp add: db')
  have "authz_ok env h ?db' (?f az)" if az: "az \<in> set (authzs db)" for az
  proof -
    have "authz_ok env h ?db' az"
      using assms(1) az authz_ok_mono [of env h db az h ?db'] acc by (simp add: acme_inv_def)
    moreover have "account_proved env h ?db' (az_account az) (az_identifier az) (az_expires az)"
      if "authz_id az = i" "status = ''valid''"
      using assms(2) az that account_proved_mono [of env h db _ _ _ h ?db'] acc by simp
    ultimately show ?thesis
      by (auto simp: authz_ok_def)
  qed
  then have "\<forall>az\<in>set (authzs ?db'). authz_ok env h ?db' az"
    unfolding mem by blast
  moreover have "\<forall>r\<in>set (orders db). order_ok env h ?db' r"
    using assms(1) order_ok_mono [where env = env and h = h, OF _ subset_refl _ same] acc by (simp add: acme_inv_def)
  ultimately show ?thesis
    using assms(1) unfolding acme_inv_def acc ids by blast
qed

lemma inv_order_status:
  assumes "acme_inv env h db"
    and "\<forall>r\<in>set (orders db). order_id r = i \<longrightarrow>
      (\<exists>names ids. order_consistent env (authzs db) r names ids \<and>
         (\<forall>n\<in>set names. account_proved env h db (ord_account r) n (ord_expires r)))"
  shows "acme_inv env h (update_order i status cert db)"
proof -
  let ?f = "\<lambda>r :: acme_order. if order_id r = i then r\<lparr>ord_status := status, ord_cert := cert\<rparr> else r"
  let ?db' = "update_order i status cert db"
  have db': "?db' = db\<lparr>orders := map ?f (orders db)\<rparr>"
    by (simp add: update_order_def)
  have acc: "accounts ?db' = accounts db" "authzs ?db' = authzs db"
    by (simp_all add: db')
  have eq: "authz_ok env h ?db' = authz_ok env h db" "order_ok env h ?db' = order_ok env h db"
    by (simp_all add: fun_eq_iff authz_ok_def order_ok_def account_proved_def acc)
  have "map order_id (map ?f (orders db)) = map order_id (orders db)"
    by simp
  then have ids: "map order_id (orders ?db') = map order_id (orders db)"
    by (simp add: db')
  have "order_ok env h db (?f r)" if r: "r \<in> set (orders db)" for r
  proof (cases "order_id r = i")
    case True
    then obtain ns ids where n: "order_consistent env (authzs db) r ns ids"
        "\<forall>n\<in>set ns. account_proved env h db (ord_account r) n (ord_expires r)"
      using assms(2) r by blast
    have "order_consistent env (authzs db) (?f r) ns ids"
      by (rule order_consistent_mono [OF n(1)]) (use True in \<open>auto simp: same_authz_def\<close>)
    then show ?thesis
      unfolding order_ok_def using n(2) True by (intro exI [of _ ns] exI [of _ ids]) simp
  next
    case False
    then show ?thesis
      using assms(1) r by (simp add: acme_inv_def)
  qed
  moreover have "orders ?db' = map ?f (orders db)"
    by (simp add: db')
  then have "set (orders ?db') = ?f ` set (orders db)"
    by (simp only: set_map)
  ultimately have "\<forall>r\<in>set (orders ?db'). order_ok env h db r"
    by (metis (no_types, lifting) imageE)
  then show ?thesis
    using assms(1) unfolding acme_inv_def acc ids eq by blast
qed

lemma parse_print_strings: "json_laws env \<Longrightarrow> parse_strings env (print_strings env ss) = Some ss"
proof -
  have "those (map (as_string \<circ> JString) ss) = Some ss"
    by (induction ss) auto
  then show "json_laws env \<Longrightarrow> ?thesis"
    by (simp add: parse_strings_def print_strings_def json_laws_def)
qed

text \<open>An order whose authorizations are all valid is one whose names are all proved.\<close>

lemma all_valid_proved:
  assumes "acme_inv env h db" "json_laws env" "r \<in> set (orders db)"
    and "parse_strings env (ord_authorizations r) = Some ids" "all_valid db ids"
  shows "\<exists>names. order_consistent env (authzs db) r names ids \<and>
    (\<forall>n\<in>set names. account_proved env h db (ord_account r) n (ord_expires r))"
proof -
  obtain ns ids' where c: "order_consistent env (authzs db) r ns ids'"
    using assms(1,3) unfolding acme_inv_def order_ok_def by blast
  then have i: "ids' = ids"
    using assms(2,4) by (simp add: order_consistent_def parse_print_strings)
  have "account_proved env h db (ord_account r) (ns ! k) (ord_expires r)" if k: "k < length ns" for k
  proof -
    obtain az where az: "az \<in> set (authzs db)" "authz_id az = ids ! k" "az_identifier az = ns ! k"
        "az_account az = ord_account r" "az_expires az = ord_expires r"
      using c k unfolding i order_consistent_def by blast
    have "k < length ids"
      using c k by (simp add: order_consistent_def i)
    then have v: "case get_authorization db (ids ! k) of Some az \<Rightarrow> az_status az = ''valid'' | None \<Rightarrow> False"
      using assms(5) by (simp add: all_valid_def list_all_iff)
    have "get_authorization db (ids ! k) = Some az"
      unfolding get_authorization_def using assms(1) az(1,2) by (simp add: find_key acme_inv_def)
    then have "az_status az = ''valid''"
      using v by simp
    then show ?thesis
      using assms(1) az by (auto simp: acme_inv_def authz_ok_def)
  qed
  then show ?thesis
    using c i by (metis in_set_conv_nth)
qed

lemma inv_maybe_advance:
  assumes "acme_inv env h db" "json_laws env"
  shows "acme_inv env h (snd (maybe_advance_order env oid db))"
proof (cases "get_order db oid")
  case (Some r)
  have r: "r \<in> set (orders db)" "order_id r = oid"
    using Some find_key [of order_id "orders db" oid r] assms(1) by (simp_all add: get_order_def acme_inv_def)
  have u: "x = r" if "x \<in> set (orders db)" "order_id x = oid" for x
    using that r assms(1) find_key [of order_id "orders db" oid] by (metis acme_inv_def option.inject)
  show ?thesis
  proof (cases "parse_strings env (ord_authorizations r)")
    case (Some ids)
    have "acme_inv env h (update_order oid ''ready'' None db)" if "all_valid db ids"
      using all_valid_proved [OF assms r(1) Some that] u by (intro inv_order_status [OF assms(1)]) blast
    then show ?thesis
      using assms(1) by (simp add: maybe_advance_order_def \<open>get_order db oid = Some r\<close> Some)
  qed (simp add: maybe_advance_order_def Some assms(1))
qed (simp add: maybe_advance_order_def assms(1))

text \<open>The authorizations of a new order: one row per name, made for the order's account.\<close>

lemma create_authzs_spec:
  assumes "acme_inv env h db" "create_authzs tok i oid acct expires names db = (res, db')"
  shows "acme_inv env h db' \<and> orders db' = orders db \<and> accounts db' = accounts db \<and> set (authzs db) \<subseteq> set (authzs db') \<and>
    (case res of
       Inl _ \<Rightarrow> True
     | Inr ids \<Rightarrow> length ids = length names \<and>
         (\<forall>k<length names. \<exists>az\<in>set (authzs db'). authz_id az = ids ! k \<and> az_identifier az = names ! k \<and>
            az_account az = acct \<and> az_expires az = expires))"
  using assms
proof (induction names arbitrary: i db res db')
  case (Cons name names)
  show ?case
  proof (cases "tok i")
    case None
    then show ?thesis
      using Cons.prems by auto
  next
    case aid: (Some aid)
    let ?az = "\<lparr>authz_id = aid, az_order = oid, az_account = acct, az_identifier = name, az_status = ''pending'', az_expires = expires\<rparr>"
    show ?thesis
    proof (cases "create_authorization ?az db")
      case None
      then show ?thesis
        using Cons.prems by (auto simp: aid)
    next
      case az: (Some db1)
      have inv1: "acme_inv env h db1"
        by (rule inv_new_authorization [OF Cons.prems(1) az]) simp
      have t1: "authzs db1 = authzs db @ [?az]" "orders db1 = orders db" "accounts db1 = accounts db"
        using az by (auto simp: create_authorization_def split: if_splits)
      show ?thesis
      proof (cases "\<exists>cid token db2. tok (i + 1) = Some cid \<and> tok (i + 2) = Some token \<and>
          create_challenge \<lparr>chal_id = cid, ch_authz = aid, ch_type = ''dns-01'', ch_token = token, ch_status = ''pending'',
             ch_validated = None\<rparr> db1 = Some db2")
        case False
        then have "db' = db1 \<and> (\<exists>e. res = Inl e)"
          using Cons.prems(2) by (auto simp: aid az split: option.splits)
        then show ?thesis
          using inv1 t1 by auto
      next
        case True
        then obtain cid token db2 where ch: "tok (i + 1) = Some cid" "tok (i + 2) = Some token"
            "create_challenge \<lparr>chal_id = cid, ch_authz = aid, ch_type = ''dns-01'', ch_token = token, ch_status = ''pending'',
               ch_validated = None\<rparr> db1 = Some db2"
          by blast
        then have s: "same_tables db1 db2"
          by (auto simp: create_challenge_def same_tables_def split: if_splits)
        obtain res2 db3 where r: "create_authzs tok (i + 3) oid acct expires names db2 = (res2, db3)"
          by fastforce
        note ih = Cons.IH [OF inv_same [OF inv1 s] r]
        have res: "db' = db3" "res = (case res2 of Inl e \<Rightarrow> Inl e | Inr ids \<Rightarrow> Inr (aid # ids))"
          using Cons.prems(2) ch r by (auto simp: aid az split: sum.splits)
        have t2: "authzs db2 = authzs db @ [?az]" "orders db2 = orders db" "accounts db2 = accounts db"
          using s t1 by (simp_all add: same_tables_def)
        have az3: "?az \<in> set (authzs db3)"
          using ih t2(1) by auto
        show ?thesis
        proof (cases res2)
          case (Inr ids)
          have "\<exists>az\<in>set (authzs db3). authz_id az = (aid # ids) ! k \<and> az_identifier az = (name # names) ! k \<and>
              az_account az = acct \<and> az_expires az = expires" if "k < length (name # names)" for k
          proof (cases k)
            case 0
            with az3 show ?thesis
              by (intro bexI [of _ ?az]) simp_all
          next
            case (Suc m)
            with that ih Inr show ?thesis
              by simp
          qed
          then show ?thesis
            using ih t2 unfolding res by (simp add: Inr)
        qed (use ih t2 in \<open>simp add: res\<close>)
      qed
    qed
  qed
qed auto

lemma inv_new_account_handler:
  assumes "acme_inv env h db"
  shows "acme_inv env h (snd (new_account env st now tok body db))"
proof -
  obtain r db1 where v: "verify_request env now body (acme_url st ''new-account'') db = (r, db1)"
    by fastforce
  obtain ns where "db1 = db\<lparr>nonces := ns\<rparr>"
    using verify_request_db [of env now body _ db] v by (metis snd_conv)
  then have inv1: "acme_inv env h db1"
    by (simp add: inv_same [OF assms])
  show ?thesis
  proof (cases r)
    case (Inr w)
    obtain b db2 where b: "bind_external env st now w db1 = (b, db2)"
      by fastforce
    have inv2: "acme_inv env h db2"
      using inv_same [OF inv1 same_tables_bind, of env st now w] b by simp
    have ok: "account_ok env \<lparr>account_id = i, acc_jwk = js_print env (v_jwk w), acc_thumbprint = v_thumbprint w,
        acc_contacts = c, acc_status = s, acc_eab_kid = k, acc_zone = z\<rparr>" for i c s k z
    proof -
      have "jwk_thumbprint env (v_jwk w) = Some (v_thumbprint w)"
        using v Inr by (auto simp: verify_request_def check_signature_def split: option.splits prod.splits bool.splits sum.splits if_splits)
      then show ?thesis
        by (auto simp: account_ok_def)
    qed
    show ?thesis
      using inv1 inv2 inv_new_account [OF inv2 _ ok]
      by (auto simp: new_account_def v Inr b Let_def split: option.split sum.split)
  qed (simp add: new_account_def v inv1)
qed

lemma verify_account_same:
  assumes "verify_account env now body url db = (r, db1)"
  shows "same_tables db db1" "dns_records db1 = dns_records db" "challenges db1 = challenges db"
proof -
  obtain ns where "db1 = db\<lparr>nonces := ns\<rparr>"
    using verify_account_db [of env now body url db] assms by (metis snd_conv)
  then show "same_tables db db1" "dns_records db1 = dns_records db" "challenges db1 = challenges db"
    by simp_all
qed

lemma inv_new_order_handler:
  assumes inv: "acme_inv env h db"
  shows "acme_inv env h (snd (new_order env st now tok body db))"
proof -
  obtain r db1 where v: "verify_account env now body (acme_url st ''new-order'') db = (r, db1)"
    by fastforce
  have inv1: "acme_inv env h db1"
    by (rule inv_same [OF inv verify_account_same(1) [OF v]])
  show ?thesis
  proof (cases "\<exists>account payload ids names db2 oid. r = Inr (account, payload) \<and>
      Option.bind (json_get payload ''identifiers'') as_array = Some ids \<and> ids \<noteq> [] \<and>
      order_names env st now account ids db1 = (Inr names, db2) \<and> tok 0 = Some oid")
    case False
    have "acme_inv env h (snd (order_names env st now account ids db1))" for account ids
      by (rule inv_same [OF inv1 same_tables_order_names])
    then show ?thesis
      using False inv1 by (auto simp: new_order_def v split: sum.splits option.splits prod.splits) (metis snd_conv)+
  next
    case True
    then obtain account payload ids names db2 oid where
        c: "r = Inr (account, payload)" "Option.bind (json_get payload ''identifiers'') as_array = Some ids" "ids \<noteq> []"
          "order_names env st now account ids db1 = (Inr names, db2)" "tok 0 = Some oid"
      by blast
    have inv2: "acme_inv env h db2"
      using inv_same [OF inv1 same_tables_order_names, of env st now account ids] c(4) by simp
    let ?exp = "now + ORDER_TTL_SECS"
    obtain res db3 where a: "create_authzs tok 1 oid (account_id account) ?exp names db2 = (res, db3)"
      by fastforce
    note s = create_authzs_spec [OF inv2 a]
    show ?thesis
    proof (cases res)
      case (Inr aids)
      let ?r = "\<lparr>order_id = oid, ord_account = account_id account, ord_status = ''pending'',
         ord_identifiers = print_strings env names, ord_authorizations = print_strings env aids, ord_cert = None, ord_expires = ?exp\<rparr>"
      have "order_consistent env (authzs db3) ?r names aids"
        using s by (simp add: Inr order_consistent_def)
      then have "order_ok env h db3 ?r"
        by (auto simp: order_ok_def)
      then show ?thesis
        using s inv_new_order [of env h db3 ?r]
        by (auto simp: new_order_def v c a [unfolded One_nat_def] Inr Let_def split: option.split)
    qed (use s in \<open>simp add: new_order_def v c a [unfolded One_nat_def]\<close>)
  qed
qed

lemma dns01_matches_cong: "dns_records db = dns_records db' \<Longrightarrow> dns01_matches env db n t p = dns01_matches env db' n t p"
  by (simp only: dns01_matches_def lookup_def)

lemma verify_account_found:
  assumes "verify_account env now body url db = (Inr (account, payload), db1)"
  shows "account \<in> fst ` set (accounts db)"
proof -
  obtain w where "verify_request env now body url db = (Inr w, db1)" "v_account w = Some account"
    using assms by (auto simp: verify_account_def split: sum.splits prod.splits option.splits)
  then obtain kid where "get_acme_account db1 kid = Some account"
    by (auto simp: verify_request_def check_signature_def resolve_key_def
        split: option.splits prod.splits bool.splits sum.splits if_splits)
  then have "account \<in> fst ` set (accounts db1)"
    by (auto simp: get_acme_account_def find_Some_iff)
  then show ?thesis
    using verify_account_same(1) [OF assms] by (simp add: same_tables_def)
qed

lemma thumbprint_reread:
  assumes "json_laws env" "js_parse env (js_print env v) = Some w"
  shows "jwk_thumbprint env w = jwk_thumbprint env v"
proof -
  have "get_string w = get_string v"
    using assms unfolding json_laws_def by blast
  then show ?thesis
    by (simp only: jwk_thumbprint_def)
qed

lemma consume_nonce_outstanding:
  assumes "fst (consume_nonce now nonce db)"
  shows "\<exists>t. (nonce, t) \<in> set (nonces db) \<and> now - NONCE_TTL_SECS \<le> t"
proof (rule ccontr)
  assume "\<not> ?thesis"
  then have "filter (\<lambda>(n, t). \<not> (n = nonce \<and> now - NONCE_TTL_SECS \<le> t)) (nonces db) = nonces db"
    by (intro filter_True) auto
  then show False
    using assms by (simp add: consume_nonce_def Let_def)
qed

lemma verify_account_signed:
  assumes "verify_account env now body url db = (Inr (account, payload), db1)" "acme_inv env h db" "json_laws env"
  shows "signed_by_account env now db url body account payload"
proof -
  obtain w where w: "verify_request env now body url db = (Inr w, db1)" "v_account w = Some account" "v_payload w = payload"
    using assms(1) by (auto simp: verify_account_def split: sum.splits prod.splits option.splits)
  obtain jws header nonce where j: "jws_parse env body = Some jws" "jws_header env jws = Some header"
      "hd_url header = Some url" "hd_nonce header = Some nonce" "consume_nonce now nonce db = (True, db1)"
      "check_signature env db1 jws header = Inr w"
    using w(1) by (auto simp: verify_request_def split: option.splits prod.splits bool.splits if_splits)
  obtain jwk where k: "resolve_key env db1 header = Inr (jwk, Some account)" "jws_verify env jws (hd_alg header) jwk"
      "payload_json env jws = Some payload" "jwk_thumbprint env jwk = Some (v_thumbprint w)"
    using j(6) w(2,3) by (auto simp: check_signature_def split: sum.splits option.splits if_splits)
  have a: "account \<in> fst ` set (accounts db)"
    by (rule verify_account_found [OF assms(1)])
  have p: "js_parse env (acc_jwk account) = Some jwk"
    using k(1) by (auto simp: resolve_key_def split: option.splits)
  have "account_ok env account"
    using a assms(2) unfolding acme_inv_def by blast
  then have "jwk_thumbprint env jwk = Some (acc_thumbprint account)"
    using p thumbprint_reread [OF assms(3)] by (auto simp: account_ok_def)
  then show ?thesis
    unfolding signed_by_account_def
    using j(1-5) k(2,3) a p consume_nonce_outstanding [of now nonce db] by auto
qed

lemma same_tables_challenge [simp]: "same_tables db (update_challenge_status i s v db)"
  by (simp add: same_tables_def update_challenge_status_def)

lemma inv_challenge_handler:
  fixes db :: acme_db
  assumes inv: "acme_inv env h db" and laws: "json_laws env"
  shows "acme_inv env ((now, RespondChallenge i body, db) # h) (snd (respond_challenge env st now i body db))"
proof -
  let ?h = "(now, RespondChallenge i body, db) # h"
  define url where "url = acme_url st (''challenge/'' @ i)"
  obtain r db1 where v: "verify_account env now body url db = (r, db1)"
    by fastforce
  note rc = respond_challenge_def [of env st now i body db, unfolded Let_def, folded url_def, unfolded v prod.case]
  note vs = verify_account_same [OF v]
  have inv1: "acme_inv env ?h db1"
    by (rule inv_same [OF acme_inv_history [OF inv] vs(1)])
  show ?thesis
  proof (cases "\<exists>account payload ch az. r = Inr (account, payload) \<and> get_challenge db1 i = Some ch \<and>
      get_authorization db1 (ch_authz ch) = Some az \<and> az_account az = account_id account \<and> now < az_expires az")
    case False
    then show ?thesis
      using inv1 unfolding rc by (auto split: sum.splits option.splits)
  next
    case True
    then obtain account payload ch az where
        c: "r = Inr (account, payload)" "get_challenge db1 i = Some ch" "get_authorization db1 (ch_authz ch) = Some az"
          "az_account az = account_id account" "now < az_expires az"
      by blast
    let ?m = "dns01_matches env db1 (az_identifier az) (ch_token ch) (acc_thumbprint account)"
    let ?dbv = "update_challenge_status (chal_id ch) ''valid'' (Some now) db1"
    let ?dbi = "update_challenge_status (chal_id ch) ''invalid'' None db1"
    have azid: "az \<in> set (authzs db1)"
      using c(3) inv1 find_key [of authz_id "authzs db1"] by (simp add: get_authorization_def acme_inv_def)
    have proved: "account_proved env ?h ?dbv (az_account az) (az_identifier az) (az_expires az)" if ?m
    proof -
      have "get_challenge db i = Some ch" "get_authorization db (ch_authz ch) = Some az"
        using c(2,3) vs by (simp_all add: get_challenge_def get_authorization_def same_tables_def)
      moreover have "dns01_matches env db (az_identifier az) (ch_token ch) (acc_thumbprint account)"
        using that dns01_matches_cong [OF vs(2), of env] by simp
      moreover have "(now, RespondChallenge i body, db) \<in> set ?h"
        by simp
      ultimately have "proved_control env ?h account (az_identifier az) (az_expires az)"
        unfolding proved_control_def using c(4,5) verify_account_signed [OF v [unfolded c(1)] inv laws, unfolded url_def] by blast
      moreover have "account \<in> fst ` set (accounts ?dbv)"
        using verify_account_found [OF v [unfolded c(1)]] vs(1) by (simp add: same_tables_def update_challenge_status_def)
      ultimately show ?thesis
        unfolding account_proved_def using c(4) by auto
    qed
    have uniq: "x = az" if "x \<in> set (authzs db1)" "authz_id x = authz_id az" for x
      using that azid inv1 find_key [of authz_id "authzs db1" "authz_id az"] by (metis acme_inv_def option.inject)
    have "acme_inv env ?h (update_authorization_status (authz_id az) ''valid'' ?dbv)" if ?m
      by (rule inv_authz_status [OF inv_same [OF inv1 same_tables_challenge]])
         (use proved [OF that] uniq in \<open>auto simp: update_challenge_status_def\<close>)
    note valid = inv_maybe_advance [OF this laws]
    have invalid: "acme_inv env ?h (update_authorization_status (authz_id az) ''invalid'' ?dbi)"
      by (rule inv_authz_status [OF inv_same [OF inv1 same_tables_challenge]]) simp
    define out where "out =
      (if ?m then maybe_advance_order env (az_order az) (update_authorization_status (authz_id az) ''valid'' ?dbv)
       else (Inr (), update_authorization_status (authz_id az) ''invalid'' ?dbi))"
    have step: "respond_challenge env st now i body db =
      (case out of (Inl e, db2) \<Rightarrow> (Inl e, db2)
       | (Inr _, db2) \<Rightarrow> (case get_challenge db2 i of None \<Rightarrow> (Inl ServerInternal, db2)
           | Some updated \<Rightarrow> (Inr (answered 200 (challenge_json url updated)), db2)))"
      using c unfolding rc out_def by simp
    have "snd (respond_challenge env st now i body db) = snd out"
      unfolding step by (simp split: prod.split sum.split option.split)
    moreover have "acme_inv env ?h (snd out)"
      using valid invalid by (simp add: out_def)
    ultimately show ?thesis
      by simp
  qed
qed

end
