(* ===== verification/Acme_Example.thy ===== *)
theory Acme_Example
  imports Acme_Server
begin

text \<open>
  One instance of the parameters of the ACME server on which its handlers can be run, and a run of it from
  the empty database to an order that is ready. JSON values are printed in a postfix form that a stack
  machine reads back, so that the law assumed of the JSON library holds of it; hashes and encodings are the
  identity, a signature is the key followed by the length of the message, and the three parts of a signed
  request are separated by a control character.
\<close>

section \<open>A JSON printer and reader\<close>

datatype json_cell = Mark | Val json

definition ex_text :: "string \<Rightarrow> string" where
  "ex_text s = CHR 0x22 # concat (map (\<lambda>c. [dot, c]) (rev s))"

fun ex_print :: "json \<Rightarrow> string" where
  "ex_print JNull = ''n''"
| "ex_print (JBool b) = (if b then ''t'' else ''f'')"
| "ex_print (JNumber s) = ex_text s @ ''#''"
| "ex_print (JString s) = ex_text s"
| "ex_print (JArray vs) = ''['' @ concat (map ex_print vs) @ '']''"
| "ex_print (JObject fs) = ''['' @ concat (map (\<lambda>(k, v). ex_text k @ ex_print v) fs) @ ''}''"

fun ex_pop :: "json_cell list \<Rightarrow> json list \<Rightarrow> json list \<times> json_cell list" where
  "ex_pop (Val v # st) acc = ex_pop st (v # acc)"
| "ex_pop (Mark # st) acc = (acc, st)"
| "ex_pop [] acc = (acc, [])"

fun ex_fields :: "json list \<Rightarrow> (string \<times> json) list" where
  "ex_fields (JString k # v # vs) = (k, v) # ex_fields vs"
| "ex_fields _ = []"

definition ex_step :: "char \<Rightarrow> json_cell list \<Rightarrow> json_cell list" where
  "ex_step c st =
     (if c = CHR ''n'' then Val JNull # st
      else if c = CHR ''t'' then Val (JBool True) # st
      else if c = CHR ''f'' then Val (JBool False) # st
      else if c = CHR 0x22 then Val (JString []) # st
      else if c = CHR ''#'' then (case st of Val (JString s) # st' \<Rightarrow> Val (JNumber s) # st' | _ \<Rightarrow> st)
      else if c = CHR ''['' then Mark # st
      else if c = CHR '']'' then (case ex_pop st [] of (vs, st') \<Rightarrow> Val (JArray vs) # st')
      else if c = CHR ''}'' then (case ex_pop st [] of (vs, st') \<Rightarrow> Val (JObject (ex_fields vs)) # st')
      else st)"

definition ex_char :: "char \<Rightarrow> json_cell list \<Rightarrow> json_cell list" where
  "ex_char c st = (case st of Val (JString s) # st' \<Rightarrow> Val (JString (c # s)) # st' | _ \<Rightarrow> st)"

fun ex_scan :: "string \<Rightarrow> json_cell list \<Rightarrow> json_cell list" where
  "ex_scan [] st = st"
| "ex_scan [c] st = ex_step c st"
| "ex_scan (c # d # cs) st = (if c = dot then ex_scan cs (ex_char d st) else ex_scan (d # cs) (ex_step c st))"

definition ex_parse :: "string \<Rightarrow> json option" where
  "ex_parse s = (case ex_scan s [] of [Val v] \<Rightarrow> Some v | _ \<Rightarrow> None)"

section \<open>Parameters and requests\<close>

definition ex_pem :: "string \<Rightarrow> string" where
  "ex_pem s = ''-----BEGIN CERTIFICATE-----'' @ [CHR 0x0A] @ s @ [CHR 0x0A] @ ''-----END CERTIFICATE-----'' @ [CHR 0x0A]"

definition ex_pki :: "string pki" where
  "ex_pki = \<lparr>pk_self_signed = \<lambda>p. Some (ex_pem ''ROOT'', ''k''), pk_issuer = \<lambda>c k. Some k,
     pk_signed_by = \<lambda>p i. Some (ex_pem ''ZONE'', ''z''),
     pk_csr = \<lambda>s. Some \<lparr>subject_alt_names = [DnsName ''A.ex.org''], common_name = Some (Utf8String ''a.ex.org.'')\<rparr>,
     pk_sign_leaf = \<lambda>c b e i. Some ''LEAF'', pk_spki = Some, pk_add_days = \<lambda>t d. Some (t + 86400 * d),
     pk_sha256 = id, pk_sha512 = id, pk_hex = id, pk_b64_decode = Some\<rparr>"

definition ex_jws :: "string \<Rightarrow> flat_jws option" where
  "ex_jws s =
     (case split_on (CHR 0x01) s of
        [h, p, g] \<Rightarrow> Some \<lparr>jws_protected = h, jws_payload = p, jws_signature = g\<rparr>
      | _ \<Rightarrow> None)"

definition ex_env :: "string acme_env" where
  "ex_env = \<lparr>pki = ex_pki, js_parse = ex_parse, js_print = ex_print, jws_parse = ex_jws, b64_decode = Some, b64_encode = id,
     b64_std = id, sha256 = id, sig_verify = \<lambda>alg ks m g. g = concat ks @ show_nat (length m),
     hmac_verify = \<lambda>k m g. g = k @ show_nat (length m),
     rfc3339 = \<lambda>t. []\<rparr>"

definition ex_st :: acme_state where
  "ex_st = \<lparr>directory_url = ''https://ca/'', require_eab = True, issuance_any = False, leaf_validity_days = 90,
     tlsa_endpoints = [(443, ''tcp'')]\<rparr>"

definition ex_key :: json where
  "ex_key = JObject [(''kty'', JString ''OKP''), (''crv'', JString ''Ed25519''), (''x'', JString ''K'')]"

text \<open>A body signed with the key: header, payload, and the signature over both.\<close>

definition ex_body :: "string \<Rightarrow> string \<Rightarrow> string \<times> json \<Rightarrow> json \<Rightarrow> string" where
  "ex_body path nonce key payload =
     (let h = ex_print (JObject [(''alg'', JString ''EdDSA''), (''nonce'', JString nonce), (''url'', JString (acme_url ex_st path)), key]);
          p = ex_print payload
      in h @ [CHR 0x01] @ p @ [CHR 0x01] @ ''K'' @ show_nat (length h + 1 + length p))"

definition ex_binding :: json where
  "ex_binding =
     (let h = ex_print (JObject [(''alg'', JString ''HS256''), (''kid'', JString ''e'')]);
          p = ex_print ex_key
      in JObject [(''protected'', JString h), (''payload'', JString p), (''signature'', JString (''S'' @ show_nat (length h + 1 + length p)))])"

definition ex_account :: string where
  "ex_account = ex_body ''new-account'' ''n1'' (''jwk'', ex_key) (JObject [(''externalAccountBinding'', ex_binding)])"

abbreviation ex_kid :: "string \<times> json" where
  "ex_kid \<equiv> (''kid'', JString ''a0'')"

definition ex_order :: string where
  "ex_order = ex_body ''new-order'' ''n2'' ex_kid
     (JObject [(''identifiers'', JArray [JObject [(''type'', JString ''dns''), (''value'', JString ''a.ex.org'')]])])"

definition ex_answer :: string where
  "ex_answer = ex_body ''challenge/o2'' ''n3'' ex_kid (JObject [])"

definition ex_finalize :: string where
  "ex_finalize = ex_body ''finalize/o0'' ''n4'' ex_kid (JObject [(''csr'', JString ''CSR'')])"

section \<open>The run\<close>

definition ex_tok :: "char \<Rightarrow> nat \<Rightarrow> string option" where
  "ex_tok c i = Some (c # show_nat i)"

definition ex_db1 :: acme_db where
  "ex_db1 = the (create_eab ''e'' ''S'' (Some ''ex.org'') (snd (ensure_root_ca ex_pki 0 ''Root'' empty_acme_db)))"

definition ex_db2 :: acme_db where
  "ex_db2 = snd (acme_serve ex_env ex_st 1 (ex_tok CHR ''z'') (Some ''n1'') NewNonce ex_db1)"

definition ex_db3 :: acme_db where
  "ex_db3 = snd (acme_serve ex_env ex_st 2 (ex_tok CHR ''a'') (Some ''n2'') (NewAccount ex_account) ex_db2)"

definition ex_db4 :: acme_db where
  "ex_db4 = snd (acme_serve ex_env ex_st 3 (ex_tok CHR ''o'') (Some ''n3'') (NewOrder ex_order) ex_db3)"

definition ex_txt :: dns_record where
  "ex_txt = \<lparr>dr_id = None, dr_name = ''_acme-challenge.a.ex.org.'', dr_type = TXT,
     dr_value = the (map_option (\<lambda>t. dns01_txt_value ex_env (key_authorization ''o3'' t)) (jwk_thumbprint ex_env ex_key)),
     dr_ttl = 60, dr_priority = 0\<rparr>"

definition ex_db5 :: acme_db where
  "ex_db5 = records_exec (AddRecord ex_txt) ex_db4"

definition ex_db6 :: acme_db where
  "ex_db6 = snd (acme_serve ex_env ex_st 4 (ex_tok CHR ''c'') (Some ''n4'') (RespondChallenge ''o2'' ex_answer) ex_db5)"

definition ex_history :: "(int \<times> acme_request \<times> acme_db) list" where
  "ex_history = [(4, RespondChallenge ''o2'' ex_answer, ex_db5), (3, NewOrder ex_order, ex_db3), (2, NewAccount ex_account, ex_db2),
     (1, NewNonce, ex_db1)]"

section \<open>The instance satisfies the law of the JSON library\<close>

lemma ex_scan_dot: "ex_scan (dot # d # cs) st = ex_scan cs (ex_char d st)"
  by simp

lemma ex_scan_step: "c \<noteq> dot \<Longrightarrow> ex_scan (c # cs) st = ex_scan cs (ex_step c st)"
  by (cases cs) simp_all

lemma ex_scan_text: "ex_scan (ex_text s @ r) st = ex_scan r (Val (JString s) # st)"
proof -
  have "ex_scan (concat (map (\<lambda>c. [dot, c]) cs) @ r) (Val (JString s) # st) = ex_scan r (Val (JString (rev cs @ s)) # st)" for cs s
    by (induction cs arbitrary: s) (simp_all add: ex_scan_dot ex_char_def)
  from this [of "rev s" "[]"] show ?thesis
    by (simp add: ex_text_def ex_scan_step ex_step_def)
qed

lemma ex_pop_vals: "ex_pop (map Val (rev vs) @ Mark # st) acc = (vs @ acc, st)"
  by (induction vs arbitrary: acc rule: rev_induct) simp_all

lemma ex_scan_list:
  "(\<And>v r st. v \<in> set vs \<Longrightarrow> ex_scan (ex_print v @ r) st = ex_scan r (Val v # st)) \<Longrightarrow>
    ex_scan (concat (map ex_print vs) @ r) st = ex_scan r (map Val (rev vs) @ st)"
  by (induction vs arbitrary: st) simp_all

lemma ex_scan_fields:
  "(\<And>k v r st. (k, v) \<in> set fs \<Longrightarrow> ex_scan (ex_print v @ r) st = ex_scan r (Val v # st)) \<Longrightarrow>
    ex_scan (concat (map (\<lambda>(k, v). ex_text k @ ex_print v) fs) @ r) st =
    ex_scan r (map Val (rev (concat (map (\<lambda>(k, v). [JString k, v]) fs))) @ st)"
proof (induction fs arbitrary: st)
  case (Cons f fs)
  obtain k v where f: "f = (k, v)"
    by (cases f)
  have "ex_scan (ex_print v @ r) st = ex_scan r (Val v # st)" for r st
    using Cons.prems [of k v] f by simp
  moreover have "ex_scan (concat (map (\<lambda>(k, v). ex_text k @ ex_print v) fs) @ r) st =
      ex_scan r (map Val (rev (concat (map (\<lambda>(k, v). [JString k, v]) fs))) @ st)" for st
    by (rule Cons.IH) (use Cons.prems in auto)
  ultimately show ?case
    by (simp add: f ex_scan_text)
qed simp

lemma ex_fields_concat: "ex_fields (concat (map (\<lambda>(k, v). [JString k, v]) fs)) = fs"
  by (induction fs) auto

lemma ex_scan_print: "ex_scan (ex_print v @ r) st = ex_scan r (Val v # st)"
proof (induction v arbitrary: r st rule: ex_print.induct)
  case (5 vs)
  have "ex_scan (ex_print (JArray vs) @ r) st = ex_scan ('']'' @ r) (map Val (rev vs) @ Mark # st)"
    by (simp add: ex_scan_step ex_step_def ex_scan_list [OF 5])
  then show ?case
    by (simp add: ex_scan_step ex_step_def ex_pop_vals)
next
  case (6 fs)
  have "ex_scan (ex_print v @ r) st = ex_scan r (Val v # st)" if "(k, v) \<in> set fs" for k v r st
    using 6 that by blast
  then have "ex_scan (ex_print (JObject fs) @ r) st =
      ex_scan (''}'' @ r) (map Val (rev (concat (map (\<lambda>(k, v). [JString k, v]) fs))) @ Mark # st)"
    by (simp add: ex_scan_step ex_step_def ex_scan_fields)
  then show ?case
    by (simp add: ex_scan_step ex_step_def ex_pop_vals ex_fields_concat)
qed (simp_all add: ex_scan_text ex_scan_step ex_step_def)

lemma ex_json_laws: "json_laws ex_env"
proof -
  have "js_parse ex_env (js_print ex_env v) = Some v" for v
    using ex_scan_print [of v "[]" "[]"] by (simp add: ex_env_def ex_parse_def)
  then show ?thesis
    by (simp only: json_laws_def option.inject) blast
qed

lemma ex_run: "acme_run ex_env ex_history ex_db6"
proof -
  have "create_eab ''e'' ''S'' (Some ''ex.org'') (snd (ensure_root_ca (pki ex_env) 0 ''Root'' empty_acme_db)) = Some ex_db1"
    unfolding ex_db1_def by code_simp
  then have "acme_run ex_env [] ex_db1"
    by (rule acme_run.bind [OF acme_run.root [OF acme_run.start]])
  then show ?thesis
    unfolding ex_history_def ex_db6_def ex_db5_def ex_db4_def ex_db3_def ex_db2_def
    by (intro acme_run.serve acme_run.dns)
qed

lemma ex_finalized: "case fst (finalize ex_env ex_st 5 ''o0'' ex_finalize ex_db6) of Inr _ \<Rightarrow> True | Inl _ \<Rightarrow> False"
  by code_simp

end
