(* ===== verification/Acme_Issue.thy ===== *)
theory Acme_Issue
  imports Acme_Runs Acme_Example
begin

text \<open>
  The issuance theorem of the ACME server: the finalize handler keeps the invariant of \<open>Acme_Runs\<close>, so
  every state of a run satisfies it, and a certificate is signed only for names whose control the account proved.
\<close>

lemma same_tables_publish_dane: "same_tables db (snd (publish_dane env st z ns db))"
  using same_tables_add_records [of db "\<lambda>r. r"] by (simp add: publish_dane_def split: sum.split)

lemma same_tables_store_cert: "same_tables db (snd (store_acme_certificate now d p k c e db))"
  by (simp add: same_tables_def store_acme_certificate_def)

text \<open>The path of a finalize request on which a certificate is signed, and what it leaves of the tables.\<close>

lemma issue_order_cases:
  assumes "issue_order env st now account ord csr_pem names db = (res, db')"
  obtains (kept) e where "res = Inl e" "same_tables db db'"
  | (issued) zs db1 leaf cid db2 db3 where "names \<noteq> []" "check_names env st now account names db = (Inr zs, db1)"
      "issue_leaf (pki env) now db1 (hd zs) csr_pem (leaf_validity_days st) names = Inr leaf"
      "store_acme_certificate now (hd names) (leaf_pem leaf) [] (leaf_chain leaf) (leaf_expires leaf) db1 = (cid, db2)"
      "publish_dane env st (hd zs) names db2 = (Inr (), db3)" "same_tables db db3"
      "db' = update_order (order_id ord) ''valid'' (Some cid) db3"
proof (cases names)
  case Nil
  then show thesis
    using assms kept by (auto simp: issue_order_def)
next
  case (Cons primary rest)
  obtain r db1 where c: "check_names env st now account names db = (r, db1)"
    by fastforce
  note f = assms [unfolded issue_order_def c prod.case Let_def]
  have s1: "same_tables db db1"
    using same_tables_check_names [of db env st now account names] c by simp
  show thesis
  proof (cases r)
    case (Inl e)
    then show thesis
      using f s1 kept by (auto simp: Cons)
  next
    case (Inr zs)
    show thesis
    proof (cases "issue_leaf (pki env) now db1 (hd zs) csr_pem (leaf_validity_days st) names")
      case (Inl e)
      then show thesis
        using f s1 kept Inr by (auto simp: Cons)
    next
      case leaf: (Inr leaf)
      obtain cid db2 where d: "store_acme_certificate now primary (leaf_pem leaf) [] (leaf_chain leaf) (leaf_expires leaf) db1 = (cid, db2)"
        by fastforce
      obtain p db3 where p: "publish_dane env st (hd zs) names db2 = (p, db3)"
        by fastforce
      have "same_tables db1 db2" "same_tables db2 db3"
        using same_tables_store_cert [of db1 now primary "leaf_pem leaf"] d same_tables_publish_dane [of db2 env st "hd zs" names] p
        by (metis snd_conv)+
      then have s3: "same_tables db db3"
        using s1 same_tables_trans by blast
      note g = f [unfolded Inr sum.case leaf, unfolded Cons list.case, unfolded d prod.case, folded Cons, unfolded p prod.case]
      show thesis
      proof (cases p)
        case (Inl e)
        then show thesis
          using g s3 kept by auto
      next
        case (Inr u)
        have "db' = update_order (order_id ord) ''valid'' (Some cid) db3"
          using g Inr by (simp split: option.splits)
        then show thesis
          using issued [of zs db1 leaf cid db2 db3] c \<open>r = Inr zs\<close> leaf d p Inr s3 Cons by simp
      qed
    qed
  qed
qed

lemma finalize_cases:
  assumes "finalize env st now i body db = (res, db')"
  obtains (refused) e where "res = Inl e" "same_tables db db'"
  | (checked) account payload db1 ord csr names where
      "verify_account env now body (acme_url st (''finalize/'' @ i)) db = (Inr (account, payload), db1)"
      "get_order db1 i = Some ord" "ord_account ord = account_id account" "ord_status ord = ''ready''" "now < ord_expires ord"
      "Option.bind (get_string payload ''csr'') (b64_decode env) = Some csr" "parse_strings env (ord_identifiers ord) = Some names"
      "issue_order env st now account ord (der_to_pem env ''CERTIFICATE REQUEST'' csr) names db1 = (res, db')"
proof -
  define url where "url = acme_url st (''finalize/'' @ i)"
  obtain r db1 where v: "verify_account env now body url db = (r, db1)"
    by fastforce
  note f = assms [unfolded finalize_def, folded url_def, unfolded v prod.case]
  note s = verify_account_same(1) [OF v]
  show thesis
  proof (cases "\<exists>e. res = Inl e \<and> db' = db1")
    case True
    then show thesis
      using refused s by blast
  next
    case False
    then show thesis
      using f checked v by (auto simp: url_def split: sum.splits option.splits if_splits)
  qed
qed

lemma inv_finalize:
  assumes inv: "acme_inv env h db"
  shows "acme_inv env h (snd (finalize env st now i body db))"
proof -
  obtain res db' where "finalize env st now i body db = (res, db')"
    by fastforce
  then show ?thesis
  proof (cases rule: finalize_cases)
    case (refused e)
    then show ?thesis
      using inv_same [OF inv] \<open>finalize env st now i body db = (res, db')\<close> by simp
  next
    case c: (checked account payload db1 ord csr names)
    have inv1: "acme_inv env h db1"
      by (rule inv_same [OF inv verify_account_same(1) [OF c(1)]])
    have o: "ord \<in> set (orders db1)" "order_id ord = i"
      using c(2) find_key [of order_id "orders db1" i ord] inv1 by (simp_all add: get_order_def acme_inv_def)
    have u: "x = ord" if "x \<in> set (orders db1)" "order_id x = i" for x
      using that o inv1 find_key [of order_id "orders db1" i] by (metis acme_inv_def option.inject)
    have proved: "\<exists>names ids. order_consistent env (authzs db1) ord names ids \<and>
        (\<forall>n\<in>set names. account_proved env h db1 (ord_account ord) n (ord_expires ord))"
      using bspec [OF conjunct2 [OF conjunct2 [OF conjunct2 [OF conjunct2 [OF conjunct2 [OF inv1 [unfolded acme_inv_def]]]]]] o(1)]
        c(4) unfolding order_ok_def by blast
    have upd: "acme_inv env h (update_order i ''valid'' (Some cid) db3)" if s: "same_tables db1 db3" for cid db3
    proof (rule inv_order_status [OF inv_same [OF inv1 s]], intro ballI impI)
      fix x
      assume x: "x \<in> set (orders db3)" "order_id x = i"
      have "x = ord"
        using u x s by (simp add: same_tables_def)
      moreover have "account_proved env h db3 = account_proved env h db1" "authzs db3 = authzs db1"
        using s by (simp_all add: same_tables_def account_proved_def fun_eq_iff)
      ultimately show "\<exists>names ids. order_consistent env (authzs db3) x names ids \<and>
          (\<forall>n\<in>set names. account_proved env h db3 (ord_account x) n (ord_expires x))"
        using proved by simp
    qed
    show ?thesis
      using c(8)
    proof (cases rule: issue_order_cases)
      case (kept e)
      then show ?thesis
        using inv_same [OF inv1] \<open>finalize env st now i body db = (res, db')\<close> by simp
    next
      case (issued zs db1' leaf cid db2 db3)
      then show ?thesis
        using upd o(2) \<open>finalize env st now i body db = (res, db')\<close> by simp
    qed
  qed
qed

lemma inv_readers:
  assumes "acme_inv env h db"
  shows "acme_inv env h (snd (acme_get_order env st now i body db))" "acme_inv env h (snd (get_authz env st now i body db))"
    "acme_inv env h (snd (get_cert env st now i body db))" "acme_inv env h (snd (revoke_cert env st now body db))"
proof -
  have s: "same_tables db (snd (verify_account env now body url db))" for url
    using verify_account_db [of env now body url db] by auto
  have t: "same_tables db (snd (verify_request env now body url db))" for url
    using verify_request_db [of env now body url db] by auto
  have "snd (acme_get_order env st now i body db) = snd (verify_account env now body (acme_url st (''order/'' @ i)) db)"
    unfolding acme_get_order_def by (auto split: prod.splits sum.splits option.splits)
  then show "acme_inv env h (snd (acme_get_order env st now i body db))"
    using inv_same [OF assms s] by simp
  have "snd (get_authz env st now i body db) = snd (verify_account env now body (acme_url st (''authz/'' @ i)) db)"
    unfolding get_authz_def by (auto split: prod.splits sum.splits option.splits)
  then show "acme_inv env h (snd (get_authz env st now i body db))"
    using inv_same [OF assms s] by simp
  have "snd (get_cert env st now i body db) = snd (verify_account env now body (acme_url st (''cert/'' @ i)) db)"
    unfolding get_cert_def by (auto split: prod.splits sum.splits option.splits)
  then show "acme_inv env h (snd (get_cert env st now i body db))"
    using inv_same [OF assms s] by simp
  have "snd (revoke_cert env st now body db) = snd (verify_request env now body (acme_url st ''revoke-cert'') db)"
    unfolding revoke_cert_def by (auto split: prod.splits sum.splits option.splits)
  then show "acme_inv env h (snd (revoke_cert env st now body db))"
    using inv_same [OF assms t] by simp
qed

lemma inv_serve:
  fixes db :: acme_db
  assumes "acme_inv env h db" "json_laws env"
  shows "acme_inv env ((now, req, db) # h) (snd (acme_serve env st now tok fresh req db))"
proof -
  note inv = acme_inv_history [OF assms(1), of "(now, req, db)"]
  have "acme_inv env ((now, req, db) # h) (snd (acme_handle env st now tok req db))"
    using inv inv_new_account_handler [OF inv] inv_new_order_handler [OF inv] inv_readers [OF inv]
      inv_challenge_handler [OF assms] inv_finalize [OF inv]
    by (cases req) simp_all
  then have "acme_inv env ((now, req, db) # h) (attach_nonce now fresh (snd (acme_handle env st now tok req db)))"
    by (simp add: attach_nonce_def inv_same split: option.split)
  then show ?thesis
    by (simp add: acme_serve_def case_prod_unfold Let_def)
qed

lemma empty_acme_tables [simp]:
  "accounts empty_acme_db = []" "orders empty_acme_db = []" "authzs empty_acme_db = []" "nonces empty_acme_db = []"
  by (simp_all add: empty_acme_db_def empty_ca_db_def empty_records_db_def ca_db.defs records_db.defs)

lemma acme_run_inv:
  assumes "json_laws env"
  shows "acme_run env h db \<Longrightarrow> acme_inv env h db"
proof (induction rule: acme_run.induct)
  case start
  then show ?case
    by (simp add: acme_inv_def)
next
  case (serve h db now req st tok fresh)
  then show ?case
    by (intro inv_serve assms)
next
  case (dns h db op)
  then show ?case
    using inv_same [OF _ same_tables_records_exec] by blast
next
  case (root h db now cn)
  then show ?case
    using inv_same [OF _ same_tables_root] by blast
next
  case (intermediate h db now z)
  then show ?case
    using inv_same [OF _ same_tables_intermediate] by blast
next
  case (other_root h db name cert key)
  then show ?case
    using inv_same [OF _ same_tables_ca_update(2)] by blast
next
  case (bind h db kid key z db')
  then show ?case
    by (blast intro: inv_same same_tables_eab(3))
next
  case (unbind h db kid)
  then show ?case
    using inv_same [OF _ same_tables_eab(2)] by blast
qed

section \<open>The issuance theorem\<close>

lemma account_unique:
  "acme_inv env h db \<Longrightarrow> a \<in> fst ` set (accounts db) \<Longrightarrow> b \<in> fst ` set (accounts db) \<Longrightarrow> account_id a = account_id b \<Longrightarrow> a = b"
  unfolding acme_inv_def by (auto simp: distinct_map inj_on_def)

lemma order_proved:
  assumes "acme_inv env h db" "json_laws env" "ord \<in> set (orders db)" "ord_status ord = ''ready''"
    and "parse_strings env (ord_identifiers ord) = Some names" "n \<in> set names"
  shows "account_proved env h db (ord_account ord) n (ord_expires ord)"
proof -
  obtain ns ids where o: "order_consistent env (authzs db) ord ns ids"
      "\<forall>n\<in>set ns. account_proved env h db (ord_account ord) n (ord_expires ord)"
    using assms(1,3,4) unfolding acme_inv_def order_ok_def by blast
  then have "names = ns"
    using parse_print_strings [OF assms(2), of ns] assms(5) by (simp add: order_consistent_def)
  then show ?thesis
    using o(2) assms(6) by simp
qed

lemma check_names_in_zone:
  "check_names env st now account names db = (Inr zs, db1) \<Longrightarrow> acc_zone account = Some z \<Longrightarrow> n \<in> set names \<Longrightarrow> name_in_zone n z"
proof (induction names arbitrary: db zs db1)
  case (Cons m ms)
  obtain y db2 where i: "check_issuable env st now account m db = (Inr y, db2)"
    using Cons.prems(1) by (auto split: prod.splits sum.splits)
  then obtain ys db3 where "check_names env st now account ms db2 = (Inr ys, db3)"
    using Cons.prems(1) by (auto split: prod.splits sum.splits)
  moreover have "name_in_zone m z"
    using i Cons.prems(2) by (auto simp: check_issuable_def name_in_zone_def Let_def split: if_splits)
  ultimately show ?case
    using Cons.IH Cons.prems(2,3) by auto
qed simp

lemma issue_leaf_csr:
  assumes "issue_leaf pk now db z csr_pem days names = Inr leaf"
  obtains csr issuer since where "pk_csr pk csr_pem = Some csr"
    "\<forall>r\<in>set (csr_requested_names csr). normalize_name r \<in> normalize_name ` set names"
    "pk_sign_leaf pk csr since (leaf_expires leaf) issuer = Some (leaf_pem leaf)"
proof -
  obtain csr issuer since where c: "pk_csr pk csr_pem = Some csr" "check_csr_names csr names = Inr ()"
      "pk_sign_leaf pk csr since (leaf_expires leaf) issuer = Some (leaf_pem leaf)"
    using assms by (auto simp: issue_leaf_def Let_def split: option.splits sum.splits prod.splits)
  moreover have "\<forall>r\<in>set (csr_requested_names csr). normalize_name r \<in> normalize_name ` set names"
    using c(2) by (auto simp: check_csr_names_def Let_def find_None_iff split: option.splits)
  ultimately show thesis
    using that by blast
qed

lemma certs_add_records:
  fixes db :: "'a acme_db_scheme"
  shows "certs (fold (\<lambda>v db. snd (add_record (f v) db)) vs db) = certs db"
  by (induction vs arbitrary: db)
     (simp_all add: add_record_def mark_zone_resign_pending_def Let_def split: option.split)

lemma certs_publish_dane: "certs (snd (publish_dane env st z ns db)) = certs db"
  by (simp add: publish_dane_def certs_add_records [of "\<lambda>r. r"] split: sum.split)

lemma certs_issued:
  assumes "store_acme_certificate now d p k c e db1 = (cid, db2)" "publish_dane env st z ns db2 = (q, db3)"
  shows "\<lparr>cert_id = cid, cert_domain = d, cert_pem = p, cert_key = k, cert_chain = c, cert_issued = now, cert_expires = e\<rparr>
    \<in> set (certs (update_order i s (Some cid) db3))"
  using assms certs_publish_dane [of env st z ns db2] by (auto simp: store_acme_certificate_def update_order_def)

text \<open>
  C40: A certificate is issued only to an account that proved control of its names. In every run of the
  server, interleaved with any other change of the database, a finalize request that succeeds was signed
  for this URL, with a nonce that was outstanding, by the stored key of an account that owns the order; the
  order had not expired; for every name of the order the account had signed, before the order's deadline, an
  answer to a challenge of its own for that name at a moment when the TXT record with its key authorization
  was published; where the account is bound to a zone, every name lies in it; every DNS name of the request
  for a certificate (its DNS alternative names, and its common name where that reads as a host name) is among
  the names of the order; and the certificate signed for that request is the one that is stored.
\<close>

theorem acme_issues_only_proved:
  fixes db :: acme_db
  assumes "json_laws env" "acme_run env h db" "finalize env st now i body db = (Inr resp, db')"
  shows "\<exists>account payload ord names der csr since row issuer.
    signed_by_account env now db (acme_url st (''finalize/'' @ i)) body account payload \<and>
    ord \<in> set (orders db) \<and> order_id ord = i \<and> ord_account ord = account_id account \<and> now < ord_expires ord \<and>
    parse_strings env (ord_identifiers ord) = Some names \<and> names \<noteq> [] \<and>
    (\<forall>n\<in>set names. proved_control env h account n (ord_expires ord)) \<and>
    (\<forall>n\<in>set names. pred_option (name_in_zone n) (acc_zone account)) \<and>
    Option.bind (get_string payload ''csr'') (b64_decode env) = Some der \<and>
    pk_csr (pki env) (der_to_pem env ''CERTIFICATE REQUEST'' der) = Some csr \<and>
    normalize_name ` set (csr_requested_names csr) \<subseteq> normalize_name ` set names \<and>
    pk_sign_leaf (pki env) csr since (cert_expires row) issuer = Some (cert_pem row) \<and>
    row \<in> set (certs db') \<and> cert_domain row = hd names \<and> cert_issued row = now"
  using assms(3)
proof (cases rule: finalize_cases)
  case c: (checked account payload db1 ord der names)
  note inv = acme_run_inv [OF assms(1,2)]
  note same = verify_account_same(1) [OF c(1)]
  have o: "ord \<in> set (orders db)" "order_id ord = i"
    using c(2) find_key [of order_id "orders db1" i ord] inv same by (simp_all add: get_order_def acme_inv_def same_tables_def)
  have a: "account \<in> fst ` set (accounts db)"
    by (rule verify_account_found [OF c(1)])
  have proved: "proved_control env h account n (ord_expires ord)" if "n \<in> set names" for n
  proof -
    note p = order_proved [OF inv assms(1) o(1) c(4,7) that]
    obtain b where "b \<in> fst ` set (accounts db)" "account_id b = ord_account ord" "proved_control env h b n (ord_expires ord)"
      using p by (auto simp: account_proved_def)
    then show ?thesis
      using account_unique [OF inv a] c(3) by metis
  qed
  show ?thesis
    using c(8)
  proof (cases rule: issue_order_cases)
    case d: (issued zs db1' leaf cid db2 db3)
    obtain csr issuer since where l: "pk_csr (pki env) (der_to_pem env ''CERTIFICATE REQUEST'' der) = Some csr"
        "\<forall>r\<in>set (csr_requested_names csr). normalize_name r \<in> normalize_name ` set names"
        "pk_sign_leaf (pki env) csr since (leaf_expires leaf) issuer = Some (leaf_pem leaf)"
      by (rule issue_leaf_csr [OF d(3)])
    have zone: "pred_option (name_in_zone n) (acc_zone account)" if "n \<in> set names" for n
      using check_names_in_zone [OF d(2) _ that] by (cases "acc_zone account") simp_all
    show ?thesis
      using verify_account_signed [OF c(1) inv assms(1)] o c(3,5-7) d(1) l zone proved
        certs_issued [OF d(4,5), of "order_id ord" "''valid''"] d(7)
      by (intro exI [of _ account] exI [of _ payload] exI [of _ ord] exI [of _ names] exI [of _ der] exI [of _ csr]
          exI [of _ since] exI [of _ "\<lparr>cert_id = cid, cert_domain = hd names, cert_pem = leaf_pem leaf, cert_key = [],
            cert_chain = leaf_chain leaf, cert_issued = now, cert_expires = leaf_expires leaf\<rparr>"] exI [of _ issuer])
         auto
  qed simp
qed simp

theorem acme_issues_only_proved_witness:
  "\<exists>account\<in>fst ` set (accounts ex_db6). acc_zone account = Some ''ex.org'' \<and> name_in_zone ''a.ex.org'' ''ex.org''
     \<and> proved_control ex_env ex_history account ''a.ex.org'' (3 + ORDER_TTL_SECS)"
proof -
  obtain resp db' where f: "finalize ex_env ex_st 5 ''o0'' ex_finalize ex_db6 = (Inr resp, db')"
    using ex_finalized by (cases "finalize ex_env ex_st 5 ''o0'' ex_finalize ex_db6") (auto split: sum.splits)
  obtain account payload ord names where
      a: "signed_by_account ex_env 5 ex_db6 (acme_url ex_st (''finalize/'' @ ''o0'')) ex_finalize account payload"
      "ord \<in> set (orders ex_db6)" "parse_strings ex_env (ord_identifiers ord) = Some names"
      "\<forall>n\<in>set names. proved_control ex_env ex_history account n (ord_expires ord)"
      "\<forall>n\<in>set names. pred_option (name_in_zone n) (acc_zone account)"
    using acme_issues_only_proved [OF ex_json_laws ex_run f] by blast
  have "list_all (\<lambda>r. parse_strings ex_env (ord_identifiers r) = Some [''a.ex.org''] \<and> ord_expires r = 3 + ORDER_TTL_SECS) (orders ex_db6)
      \<and> list_all (\<lambda>r. acc_zone (fst r) = Some ''ex.org'') (accounts ex_db6)"
    by code_simp
  moreover have "account \<in> fst ` set (accounts ex_db6)"
    using a(1) by (auto simp: signed_by_account_def)
  ultimately show ?thesis
    using a(2-5) by (intro bexI [of _ account]) (auto simp: list_all_iff)
qed

end
