(* ===== verification/Spec2Isabelle.thy ===== *)
theory Spec2Isabelle
  imports Dhcp Delegation_Cache Dns_Cache Zone_Signer Blocklist Acme_Issue
begin

text \<open>
  \<^bold>\<open>A verification library for the rolodex DNS server.\<close>

  The program (\<open>src/src\<close>) is a DNS server for home and overlay networks. Its centre is an SQLite database
  with in-memory caches beside it (\<open>db.rs\<close>): records, zones, network scopes, signing keys, blocklists,
  leases, certificates. Queries are answered from the global records or from the records of the network
  scope the client belongs to, pass the blocklists (\<open>dnsbl.rs\<close>, \<open>dns_server.rs\<close>), and are otherwise
  resolved upstream through caches (\<open>record_cache.rs\<close>, \<open>key_cache.rs\<close>, \<open>delegation_cache.rs\<close>,
  \<open>dns_cache.rs\<close>). A DHCP server registers its clients in the database (\<open>dhcp.rs\<close>), a signer keeps the
  DNSSEC records of local zones there (\<open>dnssec.rs\<close>, \<open>zone_signer.rs\<close>), and an ACME server issues
  certificates to accounts that publish a challenge in it (\<open>acme_server.rs\<close>, \<open>acme_jose.rs\<close>, \<open>ca.rs\<close>,
  \<open>dane.rs\<close>).

  \<^bold>\<open>Conventions.\<close>

  \<^item> A Rust \<open>String\<close> is a \<open>string\<close>, its bytes; case folding, white space and character classes are those of
    ASCII. Byte vectors are strings or lists of words. Machine integers are words of their width, or \<open>nat\<close>
    and \<open>int\<close> where they are only compared and printed.

  \<^item> A \<open>DashMap\<close> is an association list with distinct keys, a \<open>DashSet\<close> a set.

  \<^item> An SQL table is the list of its rows by row number, and a statement the list operation it stands for.
    A \<open>SELECT\<close> without \<open>ORDER BY\<close> returns the rows in the order of the index SQLite uses for it, the rows
    of equal keys by row number. Foreign keys are declared but not enforced, as the comment in
    \<open>delete_network_scope\<close> says; what is deleted with a scope is what the code deletes.

  \<^item> An \<open>Instant\<close> is a number of nanoseconds and the wall clock a number of seconds. Both are arguments, and
    one operation reads each clock once. Adding to an \<open>Instant\<close> more than it can hold panics
    (\<open>Scopes.instant_add\<close>); a panic with the connection lock held poisons the lock (\<open>lock_poisoned\<close>), and
    from then on every operation that takes it fails.

  \<^item> Every operation takes the state and returns it updated; errors are values of a sum or option type. An
    operation of the database is atomic, as it runs under the connection lock, and a request handler is one
    step. A background task is an operation of its own, so that its interleavings with the others are
    sequences of operations.

  \<^item> Code outside the repository (the DNS message library, the iteration order of a concurrent map,
    cryptography, X.509, JSON, base64) is a parameter, constrained only by named hypotheses that state what
    it documents (\<open>iterates\<close>, \<open>json_laws\<close>); each property with such a hypothesis has a concrete instance.

  \<^bold>\<open>Theories.\<close>

  \<^item> \<open>Prelude\<close>: strings, label lists, decimal numbers, tables, stable sorting.

  \<^item> \<open>Names\<close>: names and zones of \<open>db.rs\<close> (\<open>normalize_name\<close>, \<open>name_in_zone\<close>, the suffix walks, wildcard
    owners, the managed-zone heuristic, \<open>LIKE\<close> patterns). Containment is containment of label lists, and
    every walk finds the most specific zone.

  \<^item> \<open>Addresses\<close>, \<open>Cidr\<close>, \<open>Ip_Text\<close>: addresses and their texts, reverse names (\<open>reverse_ptr_name\<close>,
    \<open>extract_ip_from_name\<close>), the blocks of \<open>cidr.rs\<close>.

  \<^item> \<open>Record_Kinds\<close>, \<open>Records\<close>: the record table, authoritative and managed zones, signing keys and the
    marks of zones to be signed again (\<open>Database\<close>, up to \<open>lookup_with_fallbacks\<close> and
    \<open>load_caches_at_boot\<close>). The table refines a list of typed records; the caches equal what a restart
    derives; a content change withholds the signatures of its zone.

  \<^item> \<open>Scopes\<close>: network scopes, owned zones, listeners, forwarders, associations and scoped records.
    Ownership is a partition; answers stay within their scope where scope names have no colon; associations
    live for their time.

  \<^item> \<open>Dhcp\<close>: pools, leases, allocation, the four message handlers, the sweep and host-name registration.
    Leases are unique, offers are granted, allocation is complete and gives the lowest free address, the
    sweep reclaims exactly the leases that are due.

  \<^item> \<open>Ttl_Cache\<close>, \<open>Delegation_Cache\<close>, \<open>Dns_Cache\<close>: the caches. One contract (\<open>expiring_cache\<close>) is
    interpreted on all of them: every operation returns, an entry is the last one written under its key,
    maps stay bounded. On top of it: the decay of times to live, the climb to the deepest delegation, and
    what a restart loads from disk.

  \<^item> \<open>Wire\<close>, \<open>Svcb\<close>: names in wire form, and the values of service-binding records (\<open>svcb.rs\<close>): the strict
    parser with its errors, the canonical parameters, the designation records of the resolver.

  \<^item> \<open>Type_Bitmap\<close>, \<open>Nsec_Chain\<close>, \<open>Dnssec\<close>, \<open>Zone_Signer\<close>: canonical names and their order, type bit maps,
    the chain of \<open>NSEC\<close> records, canonical record data, key tags, signing and verification (\<open>dnssec.rs\<close>),
    and the signing of a zone with its marks (\<open>zone_signer.rs\<close>). Bit maps decode to the types they encode,
    the chain covers every name of the zone once, and a signed zone verifies.

  \<^item> \<open>Dnsbl\<close>, \<open>Blocklist\<close>: the checker of remote blocklists with its result cache, rotation and
    availability loop (\<open>dnsbl.rs\<close>), the local lists with their caches and migration (\<open>db.rs\<close>), and the
    gates of the resolution path (\<open>dns_server.rs\<close>).

  \<^item> \<open>Ca\<close>, \<open>Acme_Store\<close>, \<open>Acme_Server\<close>: the certificate authority with its tables and published records
    (\<open>ca.rs\<close>, \<open>dane.rs\<close>, \<open>acme.rs\<close>), the tables of the ACME server (\<open>db.rs\<close>), and the server itself: signed
    requests (\<open>acme_jose.rs\<close>), every handler and the router (\<open>acme_server.rs\<close>). \<open>acme_run\<close> is the relation of
    its runs, interleaved with the other operations on the database.

  \<^item> \<open>Acme_Runs\<close>, \<open>Acme_Example\<close>, \<open>Acme_Issue\<close>: every step of a run keeps the invariant that an
    authorization is valid, and an order ready, only where control of the names was proved; a run on a
    concrete instance of the parameters; and that a certificate is issued only to such an account.

  The locale \<open>record_source\<close> (in \<open>Records\<close>) is the contract of a record store on which the searches for
  the closest \<open>SOA\<close> and for wildcard owners rest; it is interpreted on the global and on the scoped store.

  \<^bold>\<open>Loops.\<close> Recursion is structural or has a termination proof. The eviction loops of the caches, which
  follow the iteration order of a concurrent map, and the climb of the delegation cache are loops that might
  not end, so not returning is a value of theirs; they are shown to return. No fuel is used.

  \<^bold>\<open>Divergences.\<close> Where the code does not do what its comments say, a closed theorem beside the
  component shows it on a concrete run (for example \<open>Scopes.scoped_removal_hides_siblings\<close>,
  \<open>Scopes.join_overflow_poisons_lock\<close>, \<open>Dhcp.request_takes_over_lease\<close>,
  \<open>Dns_Cache.restart_turns_alias_into_address\<close>, \<open>Blocklist.migration_loses_legacy_entries\<close>,
  \<open>Ca.csr_check_ignores_other_names\<close>).

  \<^bold>\<open>Not modelled.\<close> Sockets, TLS, HTTP and gRPC plumbing, the asynchronous resolution path of
  \<open>dns_server.rs\<close>, \<open>resolver.rs\<close> and \<open>forwarder.rs\<close>, the validator of upstream chains
  (\<open>dnssec_validate.rs\<close>), configuration files, metrics and the command-line client: they are I/O around the
  components above or around the DNS library. Failures of SQLite other than key conflicts, and cryptography
  itself, are left out.
\<close>

end
